(* ===== verification/Prelude.thy ===== *)
theory Prelude
  imports Main
begin

text \<open>
  What the components share: the Go standard-library string operations the sources use
  (\<open>strings.Fields\<close>, \<open>strings.HasPrefix\<close>, \<open>strings.HasSuffix\<close>, \<open>strings.Join\<close>,
  \<open>strings.ReplaceAll\<close> of one byte, \<open>strings.ContainsAny\<close>, decimal formatting), the 64-bit
  wrap-around of Go's \<open>int\<close>, generic lemmas on lists and maps, and the lemma collections of the
  development. A Go string is the list of its bytes (\<open>char\<close>), so \<open>length\<close> is Go's \<open>len\<close>.
\<close>

named_theorems txn_rules \<open>introduction rules for a statement, with what it did as premises\<close>

section \<open>Go integers\<close>

text \<open>Go's \<open>int\<close> and \<open>int64\<close>: a mathematical integer, reduced to 64 bits after each operation.\<close>

definition wrap64 :: "int \<Rightarrow> int" where
  "wrap64 x = signed_take_bit 63 x"

definition int64_range :: "int \<Rightarrow> bool" where
  "int64_range x \<longleftrightarrow> - (2 ^ 63) \<le> x \<and> x < 2 ^ 63"

lemma wrap64_id [simp]: "int64_range x \<Longrightarrow> wrap64 x = x"
  by (simp add: wrap64_def int64_range_def signed_take_bit_int_eq_self)

lemma wrap64_range: "int64_range (wrap64 x)"
  using signed_take_bit_int_greater_eq_minus_exp [of 63 x] signed_take_bit_int_less_exp [of 63 x]
  by (simp add: wrap64_def int64_range_def)

definition add64 :: "int \<Rightarrow> int \<Rightarrow> int" where
  "add64 a b = wrap64 (a + b)"

definition sub64 :: "int \<Rightarrow> int \<Rightarrow> int" where
  "sub64 a b = wrap64 (a - b)"

lemma add64_eq: "int64_range (a + b) \<Longrightarrow> add64 a b = a + b"
  by (simp add: add64_def)

lemma sub64_eq: "int64_range (a - b) \<Longrightarrow> sub64 a b = a - b"
  by (simp add: sub64_def)

section \<open>Go strings\<close>

definition has_prefix :: "string \<Rightarrow> string \<Rightarrow> bool" where
  "has_prefix s p \<longleftrightarrow> length p \<le> length s \<and> take (length p) s = p"

definition has_suffix :: "string \<Rightarrow> string \<Rightarrow> bool" where
  "has_suffix s p \<longleftrightarrow> length p \<le> length s \<and> drop (length s - length p) s = p"

text \<open>\<open>strings.ContainsAny\<close> and \<open>strings.ContainsRune\<close> for ASCII characters.\<close>

definition contains_any :: "string \<Rightarrow> string \<Rightarrow> bool" where
  "contains_any s cs \<longleftrightarrow> list_ex (\<lambda>c. List.member cs c) s"

lemma contains_any_iff: "contains_any s cs \<longleftrightarrow> (\<exists>c \<in> set s. c \<in> set cs)"
  by (auto simp: contains_any_def list_ex_iff)

text \<open>White space as \<open>strings.Fields\<close> sees it in ASCII text.\<close>

definition is_space :: "char \<Rightarrow> bool" where
  "is_space c \<longleftrightarrow> c = CHR '' '' \<or> c = CHR 0x09 \<or> c = CHR 0x0A \<or> c = CHR 0x0B \<or> c = CHR 0x0C
     \<or> c = CHR 0x0D"

fun fields_from :: "string \<Rightarrow> string \<Rightarrow> string list" where
  "fields_from cur [] = (if cur = [] then [] else [rev cur])"
| "fields_from cur (c # cs) =
     (if is_space c then (if cur = [] then fields_from [] cs else rev cur # fields_from [] cs)
      else fields_from (c # cur) cs)"

definition go_fields :: "string \<Rightarrow> string list" where
  "go_fields s = fields_from [] s"

definition space_free :: "string \<Rightarrow> bool" where
  "space_free f \<longleftrightarrow> list_all (\<lambda>c. \<not> is_space c) f"

lemma space_free_simps [simp]:
  "space_free []"
  "space_free (c # f) \<longleftrightarrow> \<not> is_space c \<and> space_free f"
  "space_free (rev f) \<longleftrightarrow> space_free f"
  by (simp_all add: space_free_def list_all_iff)

lemma fields_from_space_free:
  "space_free cur \<Longrightarrow> list_all (\<lambda>f. f \<noteq> [] \<and> space_free f) (fields_from cur s)"
  by (induction s arbitrary: cur) auto

lemma fields_space_free: "list_all (\<lambda>f. f \<noteq> [] \<and> space_free f) (go_fields s)"
  by (simp add: go_fields_def fields_from_space_free)

text \<open>\<open>strings.Join\<close>.\<close>

fun join :: "string \<Rightarrow> string list \<Rightarrow> string" where
  "join sep [] = []"
| "join sep [x] = x"
| "join sep (x # y # ys) = x @ sep @ join sep (y # ys)"

text \<open>Joining words by blanks and splitting the text again gives the words back.\<close>

lemma fields_from_word:
  "space_free w \<Longrightarrow> fields_from cur (w @ s) = fields_from (rev w @ cur) s"
  by (induction w arbitrary: cur) auto

lemma fields_from_end: "cur \<noteq> [] \<Longrightarrow> fields_from cur (CHR '' '' # s) = rev cur # fields_from [] s"
  by (simp add: is_space_def)

lemma go_fields_join:
  "list_all (\<lambda>w. w \<noteq> [] \<and> space_free w) ws \<Longrightarrow> go_fields (join '' '' ws) = ws"
  unfolding go_fields_def
proof (induction ws rule: induct_list012)
  case (2 x)
  then show ?case using fields_from_word [of x "[]" "[]"] by simp
next
  case (3 x y ys)
  then show ?case using fields_from_end [of "rev x" "join '' '' (y # ys)"]
    by (simp add: fields_from_word)
qed simp

text \<open>\<open>strings.ReplaceAll\<close> of one character by a string.\<close>

definition replace_char :: "char \<Rightarrow> string \<Rightarrow> string \<Rightarrow> string" where
  "replace_char c r s = concat (map (\<lambda>x. if x = c then r else [x]) s)"

lemma replace_char_Nil [simp]: "replace_char c r [] = []"
  by (simp add: replace_char_def)

lemma replace_char_Cons [simp]:
  "replace_char c r (x # xs) = (if x = c then r else [x]) @ replace_char c r xs"
  by (simp add: replace_char_def)

section \<open>Decimal formatting\<close>

definition digit_char :: "nat \<Rightarrow> char" where
  "digit_char d = char_of (48 + d)"

definition char_digit :: "char \<Rightarrow> nat" where
  "char_digit c = of_char c - 48"

lemma char_digit_digit_char [simp]: "d < 10 \<Longrightarrow> char_digit (digit_char d) = d"
  by (simp add: char_digit_def digit_char_def)

fun nat_string :: "nat \<Rightarrow> string" where
  "nat_string n = (if n < 10 then [digit_char n] else nat_string (n div 10) @ [digit_char (n mod 10)])"

declare nat_string.simps [simp del]

text \<open>\<open>fmt.Sprint\<close> and \<open>strconv.Itoa\<close> of an integer.\<close>

definition int_string :: "int \<Rightarrow> string" where
  "int_string i = (if i < 0 then CHR ''-'' # nat_string (nat (- i)) else nat_string (nat i))"

definition read_nat :: "string \<Rightarrow> nat" where
  "read_nat s = foldl (\<lambda>n c. 10 * n + char_digit c) 0 s"

lemma read_nat_nat_string [simp]: "read_nat (nat_string n) = n"
proof (induction n rule: nat_string.induct)
  case (1 n)
  show ?case
  proof (cases "n < 10")
    case True
    then show ?thesis by (simp add: nat_string.simps [of n] read_nat_def)
  next
    case False
    with 1 have "read_nat (nat_string (n div 10)) = n div 10" by simp
    with False show ?thesis by (simp add: nat_string.simps [of n] read_nat_def)
  qed
qed

lemma nat_string_inject [simp]: "nat_string m = nat_string n \<longleftrightarrow> m = n"
  by (metis read_nat_nat_string)

lemma nat_string_not_Nil [simp]: "nat_string n \<noteq> []"
  by (subst nat_string.simps) simp

section \<open>Maps\<close>

text \<open>Indexing a Go map or a decoded JSON object held as an association list.\<close>

lemma map_of_perm:
  "distinct (map fst xs) \<Longrightarrow> distinct (map fst ys) \<Longrightarrow> set xs = set ys \<Longrightarrow> map_of xs = map_of ys"
  by (metis map_of_inject_set)

end
