(* ===== verification/Errors.thy ===== *)
theory Errors
  imports Prelude
begin

text \<open>
  Error values (\<open>internal/engine/errors.go\<close>). A Go \<open>error\<close> interface value is a
  \<open>go_error option\<close>, with \<open>None\<close> for nil; a \<open>go_error\<close> is one of the shapes the module
  builds or receives: a package-level value compared by identity, a \<open>*pgconn.PgError\<close>, the
  module's own \<open>*Error\<close>, the joins of \<open>errors.Join\<close>, and \<open>fmt.Errorf\<close> with and without
  \<open>%w\<close>. \<open>errors.Is\<close> and \<open>errors.AsType\<close> walk that tree the way the Go library does.
\<close>

section \<open>Error values\<close>

text \<open>
  The module's sixteen sentinels, then the library values the module compares with
  (\<open>context.DeadlineExceeded\<close>, \<open>context.Canceled\<close>, \<open>pgx.ErrNoRows\<close>) or can receive
  (\<open>pgx.ErrTxCommitRollback\<close>, \<open>pgx.ErrTxClosed\<close>, \<open>io.EOF\<close>, \<open>http.ErrServerClosed\<close>).
\<close>

datatype sentinel =
    ErrNotFound | ErrBusy | ErrUnavailable | ErrFailed | ErrStaleGeneration | ErrPolicy
  | ErrTimeout | ErrResultLimit | ErrSQLTooLarge | ErrRuntimeConnection | ErrInitialization
  | ErrLifecycle | ErrQuery | ErrOutcomeUnknown | ErrUnsupported | ErrExternalDependency
  | DeadlineExceeded | Canceled | NoRows | TxCommitRollback | TxClosed | EOF | ServerClosed

text \<open>The fields of \<open>pgconn.PgError\<close> the sources read.\<close>

record pg_error =
  Code :: string
  Message :: string
  Detail :: string
  Hint :: string
  Position :: int

text \<open>\<open>IsletError kind cause statement\<close> is the struct \<open>Error{Kind, Cause, Statement}\<close>.\<close>

datatype go_error =
    Sentinel sentinel
  | PgError pg_error
  | IsletError sentinel "go_error option" int
  | Join "go_error list"
  | Wrapf string go_error
  | Errorf string

type_synonym err = "go_error option"

text \<open>An error PostgreSQL reports, of which only the SQLSTATE matters.\<close>

definition sqlstate :: "string \<Rightarrow> go_error" where
  "sqlstate code = PgError \<lparr>Code = code, Message = [], Detail = [], Hint = [], Position = 0\<rparr>"

text \<open>The text of each sentinel, as \<open>errors.New\<close> got it (empty for the library's).\<close>

fun sentinel_text :: "sentinel \<Rightarrow> string" where
  "sentinel_text ErrNotFound = ''islet not found''"
| "sentinel_text ErrBusy = ''islet busy''"
| "sentinel_text ErrUnavailable = ''islet unavailable''"
| "sentinel_text ErrFailed = ''islet failed''"
| "sentinel_text ErrStaleGeneration = ''stale generation''"
| "sentinel_text ErrPolicy = ''SQL policy violation''"
| "sentinel_text ErrTimeout = ''query timeout''"
| "sentinel_text ErrResultLimit = ''result limit exceeded''"
| "sentinel_text ErrSQLTooLarge = ''SQL too large''"
| "sentinel_text ErrRuntimeConnection = ''runtime connection failure''"
| "sentinel_text ErrInitialization = ''initialization failure''"
| "sentinel_text ErrLifecycle = ''lifecycle failure''"
| "sentinel_text ErrQuery = ''PostgreSQL query error''"
| "sentinel_text ErrOutcomeUnknown = ''transaction outcome unknown''"
| "sentinel_text ErrUnsupported = ''unsupported PostgreSQL environment''"
| "sentinel_text ErrExternalDependency = ''external dependency prevents safe cleanup''"
| "sentinel_text _ = []"

section \<open>errors.Is and errors.AsType\<close>

text \<open>
  \<open>errors.Is\<close>: the error itself, the \<open>Is\<close> method of \<open>*Error\<close> (equality with its kind), then
  what \<open>Unwrap\<close> gives, all of it for a join.
\<close>

fun errors_is :: "go_error \<Rightarrow> sentinel \<Rightarrow> bool" where
  "errors_is (Sentinel s) t \<longleftrightarrow> s = t"
| "errors_is (PgError p) t \<longleftrightarrow> False"
| "errors_is (IsletError k c n) t \<longleftrightarrow> k = t \<or> (case c of None \<Rightarrow> False | Some e \<Rightarrow> errors_is e t)"
| "errors_is (Join es) t \<longleftrightarrow> (\<exists>e \<in> set es. errors_is e t)"
| "errors_is (Wrapf m e) t \<longleftrightarrow> errors_is e t"
| "errors_is (Errorf m) t \<longleftrightarrow> False"

definition is_err :: "err \<Rightarrow> sentinel \<Rightarrow> bool" where
  "is_err e t \<longleftrightarrow> (case e of None \<Rightarrow> False | Some x \<Rightarrow> errors_is x t)"

lemma is_err_simps [simp]:
  "is_err None t \<longleftrightarrow> False"
  "is_err (Some x) t \<longleftrightarrow> errors_is x t"
  by (simp_all add: is_err_def)

text \<open>\<open>errors.AsType[*pgconn.PgError]\<close>: the first PostgreSQL error in depth-first order.\<close>

fun as_pg :: "go_error \<Rightarrow> pg_error option" and as_pg_list :: "go_error list \<Rightarrow> pg_error option" where
  "as_pg (PgError p) = Some p"
| "as_pg (Sentinel s) = None"
| "as_pg (IsletError k c n) = (case c of None \<Rightarrow> None | Some e \<Rightarrow> as_pg e)"
| "as_pg (Join es) = as_pg_list es"
| "as_pg (Wrapf m e) = as_pg e"
| "as_pg (Errorf m) = None"
| "as_pg_list [] = None"
| "as_pg_list (e # es) = (case as_pg e of None \<Rightarrow> as_pg_list es | Some p \<Rightarrow> Some p)"

text \<open>\<open>pgconnError\<close>.\<close>

definition pgconn_error :: "go_error \<Rightarrow> bool" where
  "pgconn_error e \<longleftrightarrow> as_pg e \<noteq> None"

text \<open>\<open>errors.Join\<close>: nil when every argument is nil, otherwise the others.\<close>

definition errors_join :: "err list \<Rightarrow> err" where
  "errors_join es = (case List.map_filter (\<lambda>e. e) es of [] \<Rightarrow> None | xs \<Rightarrow> Some (Join xs))"

lemma errors_join_None [simp]: "errors_join es = None \<longleftrightarrow> (\<forall>e \<in> set es. e = None)"
  by (induction es) (auto simp: errors_join_def List.map_filter_simps split: list.splits option.splits)

lemma is_err_join [simp]: "is_err (errors_join es) t \<longleftrightarrow> (\<exists>e \<in> set es. is_err e t)"
proof -
  have "(\<exists>x \<in> set (List.map_filter (\<lambda>e. e) es). errors_is x t) \<longleftrightarrow> (\<exists>e \<in> set es. is_err e t)"
    by (induction es) (auto simp: List.map_filter_simps split: option.splits)
  then show ?thesis
    by (auto simp: errors_join_def split: list.splits)
qed

section \<open>The module's own operations\<close>

text \<open>\<open>wrap\<close>: an \<open>*Error\<close> bound to no statement.\<close>

definition wrap :: "sentinel \<Rightarrow> err \<Rightarrow> go_error" where
  "wrap kind cause = IsletError kind cause (-1)"

lemma errors_is_wrap [simp]: "errors_is (wrap k c) t \<longleftrightarrow> k = t \<or> is_err c t"
  by (cases c) (simp_all add: wrap_def)

lemma as_pg_wrap [simp]: "as_pg (wrap k c) = (case c of None \<Rightarrow> None | Some e \<Rightarrow> as_pg e)"
  by (simp add: wrap_def)

text \<open>The \<open>switch pe.Code\<close> of \<open>classify\<close>.\<close>

definition code_kind :: "string \<Rightarrow> sentinel" where
  "code_kind code =
     (if code = ''55P03'' then ErrBusy
      else if code = ''57014'' then ErrTimeout
      else if code = ''PI001'' then ErrNotFound
      else if code = ''PI002'' then ErrStaleGeneration
      else if code = ''PI003'' then ErrUnavailable
      else if code = ''PI004'' then ErrFailed
      else ErrQuery)"

definition classify :: "err \<Rightarrow> err" where
  "classify e =
     (case e of
        None \<Rightarrow> None
      | Some x \<Rightarrow>
          if errors_is x DeadlineExceeded then Some (wrap ErrTimeout e)
          else (case as_pg x of
                  Some p \<Rightarrow> Some (wrap (code_kind (Code p)) e)
                | None \<Rightarrow> e))"

text \<open>
  \<open>Error.Error\<close>, with the text of errors from other packages as a parameter; \<open>errors.Join\<close>
  prints its members on lines of their own and \<open>%v\<close> prints a nil error as \<open><nil>\<close>.
\<close>

fun error_text :: "(go_error \<Rightarrow> string) \<Rightarrow> go_error \<Rightarrow> string" where
  "error_text ext (Sentinel s) = (if sentinel_text s = [] then ext (Sentinel s) else sentinel_text s)"
| "error_text ext (PgError p) = ext (PgError p)"
| "error_text ext (IsletError k c n) =
     ''pgislet: '' @ error_text ext (Sentinel k) @ '': '' @
     (case c of None \<Rightarrow> ''<nil>'' | Some e \<Rightarrow> error_text ext e)"
| "error_text ext (Join es) = join [CHR 0x0A] (map (error_text ext) es)"
| "error_text ext (Wrapf m e) = m @ '': '' @ error_text ext e"
| "error_text ext (Errorf m) = m"

section \<open>Properties\<close>

lemma classify_None [simp]: "classify None = None"
  by (simp add: classify_def)

lemma classify_eq_None [simp]: "classify e = None \<longleftrightarrow> e = None"
  by (auto simp: classify_def split: option.splits if_splits)

lemma classify_Some: "\<exists>y. classify (Some x) = Some y"
  by (auto simp: classify_def split: option.splits)

lemma classify_is: "is_err e t \<Longrightarrow> is_err (classify e) t"
  by (cases e) (simp_all add: classify_def split: option.splits)

lemma classify_sqlstate [simp]:
  "classify (Some (PgError p)) = Some (wrap (code_kind (Code p)) (Some (PgError p)))"
  by (simp add: classify_def)

lemma classify_sentinel:
  "s \<noteq> DeadlineExceeded \<Longrightarrow> classify (Some (Sentinel s)) = Some (Sentinel s)"
  by (simp add: classify_def)

text \<open>
  Classifying an error loses nothing: whatever \<open>errors.Is\<close> found in it is still found, the
  PostgreSQL error inside is the same, nil stays nil, and an error that carries a PostgreSQL error
  or an expired deadline gets a kind of its own and no statement index.
\<close>

theorem classify_preserves:
  "(\<forall>t. is_err e t \<longrightarrow> is_err (classify e) t) \<and>
   (classify e = None \<longleftrightarrow> e = None) \<and>
   (\<forall>x. e = Some x \<longrightarrow>
      Option.bind (classify e) as_pg = as_pg x \<and>
      (errors_is x DeadlineExceeded \<longrightarrow> classify e = Some (IsletError ErrTimeout e (-1))) \<and>
      (\<not> errors_is x DeadlineExceeded \<longrightarrow>
         classify e = (case as_pg x of None \<Rightarrow> e | Some p \<Rightarrow> Some (IsletError (code_kind (Code p)) e (-1)))))"
  by (auto simp: classify_is) (auto simp: classify_def wrap_def split: option.splits)

theorem classify_preserves_witness:
  "is_err (classify (Some (sqlstate ''55P03''))) ErrBusy \<and>
   is_err (classify (Some (Wrapf ''connect'' (Sentinel DeadlineExceeded)))) DeadlineExceeded"
  using classify_preserves [of "Some (Wrapf ''connect'' (Sentinel DeadlineExceeded))"]
    classify_preserves [of "Some (sqlstate ''55P03'')"]
  by (simp add: sqlstate_def code_kind_def)

end
