(* ===== verification/Net.thy ===== *)
theory Net
  imports Errors
begin

text \<open>
  What the sources use of Go's package \<open>net\<close>: \<open>ParseIP\<close>, \<open>IP.IsLoopback\<close>, \<open>SplitHostPort\<close> and
  \<open>JoinHostPort\<close>, as they are documented; an address is its 16 bytes.
\<close>

section \<open>ParseIP\<close>

text \<open>\<open>strings.Split\<close> at one character.\<close>

fun split_on :: "char \<Rightarrow> string \<Rightarrow> string list" where
  "split_on c [] = [[]]"
| "split_on c (x # xs) =
     (if x = c then [] # split_on c xs
      else (case split_on c xs of y # ys \<Rightarrow> (x # y) # ys | [] \<Rightarrow> [[x]]))"

definition is_digit :: "char \<Rightarrow> bool" where
  "is_digit c \<longleftrightarrow> c \<in> set ''0123456789''"

text \<open>A field of a dotted address: at most three digits, no leading zero, at most 255.\<close>

definition octet :: "string \<Rightarrow> nat option" where
  "octet s =
     (if s \<noteq> [] \<and> length s \<le> 3 \<and> list_all is_digit s \<and> (s = ''0'' \<or> hd s \<noteq> CHR ''0'') \<and> read_nat s \<le> 255
      then Some (read_nat s) else None)"

definition parse_ipv4 :: "string \<Rightarrow> nat list option" where
  "parse_ipv4 s =
     (case map octet (split_on (CHR ''.'') s) of
        [Some a, Some b, Some c, Some d] \<Rightarrow> Some [a, b, c, d]
      | _ \<Rightarrow> None)"

definition hextets :: string where
  "hextets = ''0123456789abcdefABCDEF''"

definition hextet_value :: "char \<Rightarrow> nat" where
  "hextet_value c = (let n = length (takeWhile (\<lambda>x. x \<noteq> c) hextets) in if n < 16 then n else n - 6)"

text \<open>A group of an IPv6 address: one to four hexadecimal digits, as two bytes.\<close>

definition hextet :: "string \<Rightarrow> nat list option" where
  "hextet s =
     (if s \<noteq> [] \<and> length s \<le> 4 \<and> list_all (\<lambda>c. c \<in> set hextets) s
      then (let n = foldl (\<lambda>n c. 16 * n + hextet_value c) 0 s in Some [n div 256, n mod 256])
      else None)"

text \<open>Groups between colons; the last one may be a dotted address when \<open>dotted\<close> says so.\<close>

fun group_bytes :: "bool \<Rightarrow> string list \<Rightarrow> nat list option" where
  "group_bytes dotted [] = Some []"
| "group_bytes dotted (g # gs) =
     (case (if gs = [] \<and> dotted \<and> CHR ''.'' \<in> set g then parse_ipv4 g else hextet g) of
        None \<Rightarrow> None
      | Some bs \<Rightarrow> map_option (\<lambda>rest. bs @ rest) (group_bytes dotted gs))"

definition groups :: "bool \<Rightarrow> string \<Rightarrow> nat list option" where
  "groups dotted s = (if s = [] then Some [] else group_bytes dotted (split_on (CHR '':'') s))"

text \<open>The text before and after the first \<open>::\<close>.\<close>

fun ellipsis :: "string \<Rightarrow> (string \<times> string) option" where
  "ellipsis (a # b # s) =
     (if a = CHR '':'' \<and> b = CHR '':'' then Some ([], s)
      else map_option (\<lambda>(l, r). (a # l, r)) (ellipsis (b # s)))"
| "ellipsis _ = None"

definition parse_ipv6 :: "string \<Rightarrow> nat list option" where
  "parse_ipv6 s =
     (case ellipsis s of
        None \<Rightarrow>
          (case groups True s of
             Some bs \<Rightarrow> if length bs = 16 then Some bs else None
           | None \<Rightarrow> None)
      | Some (l, r) \<Rightarrow>
          (case (groups False l, groups True r) of
             (Some a, Some b) \<Rightarrow>
               if length a + length b < 16 then Some (a @ replicate (16 - (length a + length b)) 0 @ b)
               else None
           | _ \<Rightarrow> None))"

text \<open>\<open>net.ParseIP\<close>: what comes first, a dot or a colon, decides; a zone is refused.\<close>

definition mapped :: "nat list \<Rightarrow> nat list" where
  "mapped b = replicate 10 0 @ [255, 255] @ b"

definition parse_ip :: "string \<Rightarrow> nat list option" where
  "parse_ip s =
     (case find (\<lambda>c. c \<in> set ''.:%'') s of
        None \<Rightarrow> None
      | Some c \<Rightarrow>
          if c = CHR ''.'' then map_option mapped (parse_ipv4 s)
          else if c = CHR '':'' then parse_ipv6 s
          else None)"

definition to4 :: "nat list \<Rightarrow> nat list option" where
  "to4 ip = (if take 12 ip = replicate 10 0 @ [255, 255] then Some (drop 12 ip) else None)"

definition is_loopback :: "nat list \<Rightarrow> bool" where
  "is_loopback ip =
     (case to4 ip of
        Some b \<Rightarrow> b ! 0 = 127
      | None \<Rightarrow> ip = replicate 15 0 @ [1])"

lemma octet_bound: "octet s = Some n \<Longrightarrow> n < 256"
  by (auto simp: octet_def split: if_splits)

lemma parse_ipv4_bytes:
  assumes "parse_ipv4 s = Some b"
  shows "length b = 4 \<and> list_all (\<lambda>n. n < 256) b"
proof -
  obtain v w x y where m: "map octet (split_on (CHR ''.'') s) = [Some v, Some w, Some x, Some y]" and b: "b = [v, w, x, y]"
    using assms by (auto simp: parse_ipv4_def split: list.splits option.splits)
  from m have "\<forall>n \<in> {v, w, x, y}. \<exists>t. octet t = Some n" by (auto simp: Cons_eq_map_conv map_eq_Cons_conv)
  then have "v < 256 \<and> w < 256 \<and> x < 256 \<and> y < 256" using octet_bound by auto
  with b show ?thesis by simp
qed

text \<open>An IPv4 address is a loopback address exactly when its first field is 127.\<close>

lemma loopback_ipv4: "parse_ipv4 s = Some b \<Longrightarrow> is_loopback (mapped b) \<longleftrightarrow> b ! 0 = 127"
  using parse_ipv4_bytes [of s b] by (simp add: is_loopback_def to4_def mapped_def)

section \<open>SplitHostPort and JoinHostPort\<close>

text \<open>The text before and after the last colon.\<close>

definition last_colon :: "string \<Rightarrow> (string \<times> string) option" where
  "last_colon s =
     (case dropWhile (\<lambda>c. c \<noteq> CHR '':'') (rev s) of
        [] \<Rightarrow> None
      | _ # h \<Rightarrow> Some (rev h, rev (takeWhile (\<lambda>c. c \<noteq> CHR '':'') (rev s))))"

definition addr_error :: "string \<Rightarrow> string \<Rightarrow> go_error" where
  "addr_error s why = Errorf (''address '' @ s @ '': '' @ why)"

definition split_host_port :: "string \<Rightarrow> go_error + (string \<times> string)" where
  "split_host_port s =
     (case last_colon s of
        None \<Rightarrow> Inl (addr_error s ''missing port in address'')
      | Some (before, port) \<Rightarrow>
          if hd s = CHR ''['' then
            (case dropWhile (\<lambda>c. c \<noteq> CHR '']'') s of
               [] \<Rightarrow> Inl (addr_error s ''missing ']' in address'')
             | _ # rest \<Rightarrow>
                 (let host = tl (takeWhile (\<lambda>c. c \<noteq> CHR '']'') s)
                  in if rest = [] then Inl (addr_error s ''missing port in address'')
                     else if rest \<noteq> CHR '':'' # port
                     then Inl (addr_error s (if hd rest = CHR '':'' then ''too many colons in address''
                                             else ''missing port in address''))
                     else if CHR ''['' \<in> set (tl s) then Inl (addr_error s ''unexpected '[' in address'')
                     else if CHR '']'' \<in> set rest then Inl (addr_error s ''unexpected ']' in address'')
                     else Inr (host, port)))
          else if CHR '':'' \<in> set before then Inl (addr_error s ''too many colons in address'')
          else if CHR ''['' \<in> set s then Inl (addr_error s ''unexpected '[' in address'')
          else if CHR '']'' \<in> set s then Inl (addr_error s ''unexpected ']' in address'')
          else Inr (before, port))"

definition join_host_port :: "string \<Rightarrow> string \<Rightarrow> string" where
  "join_host_port host port =
     (if CHR '':'' \<in> set host then ''['' @ host @ '']:'' @ port else host @ '':'' @ port)"

lemma last_colon_join: "CHR '':'' \<notin> set p \<Longrightarrow> last_colon (h @ CHR '':'' # p) = Some (h, p)"
  by (simp add: last_colon_def takeWhile_append dropWhile_append)

lemma split_join:
  assumes h: "CHR ''['' \<notin> set h" "CHR '']'' \<notin> set h"
    and p: "CHR '':'' \<notin> set p" "CHR ''['' \<notin> set p" "CHR '']'' \<notin> set p"
  shows "split_host_port (join_host_port h p) = Inr (h, p)"
proof (cases "CHR '':'' \<in> set h")
  case False
  have "hd (h @ CHR '':'' # p) \<noteq> CHR ''[''" using h by (cases h) auto
  with False assms show ?thesis
    by (simp add: split_host_port_def join_host_port_def last_colon_join)
next
  case True
  have "last_colon (CHR ''['' # h @ CHR '']'' # CHR '':'' # p) = Some (CHR ''['' # h @ '']'', p)"
    using last_colon_join [OF p(1), of "CHR ''['' # h @ '']''"] by simp
  with True assms show ?thesis
    by (simp add: split_host_port_def join_host_port_def takeWhile_append dropWhile_append)
qed

end
