(* ===== verification/Guard.thy ===== *)
theory Guard
  imports Net
begin

text \<open>
  The front of the web example (\<open>examples/web/server.go\<close> and the listen address of \<open>main.go\<close>):
  what \<open>ServeHTTP\<close> refuses before any handler runs, and which handler a request gets. The parsing
  of the \<open>Origin\<close> header by \<open>url.Parse\<close> is a parameter, its scheme and host.
\<close>

section \<open>Requests\<close>

text \<open>\<open>Header\<close> is \<open>r.Header.Get\<close>, empty for an absent header; \<open>BodyJson\<close> is what decoding the body gives.\<close>

datatype decoded = InvalidJson | SeveralValues | Request string

record request =
  ReqHost :: string
  ReqPath :: string
  Method :: string
  Tls :: bool
  Header :: "string \<Rightarrow> string"
  CookieValue :: "string option"
  BodyJson :: decoded

record api_error =
  Kind :: string
  Text :: string
  SqlCode :: string
  SqlDetail :: string
  SqlHint :: string
  SqlPosition :: int

definition plain_error :: "string \<Rightarrow> string \<Rightarrow> api_error" where
  "plain_error kind message =
     \<lparr>Kind = kind, Text = message, SqlCode = [], SqlDetail = [], SqlHint = [], SqlPosition = 0\<rparr>"

section \<open>Local hosts\<close>

text \<open>
  \<open>strings.EqualFold\<close> with ASCII text: letters without case, and the two runes of Unicode that fold
  to an ASCII letter (U+017F to s, U+212A to k), in UTF-8.
\<close>

definition lower :: "char \<Rightarrow> char" where
  "lower c = (if 65 \<le> (of_char c :: nat) \<and> (of_char c :: nat) \<le> 90 then char_of ((of_char c :: nat) + 32) else c)"

fun folded :: "string \<Rightarrow> string" where
  "folded [] = []"
| "folded (a # s) =
     (case s of
        b # s' \<Rightarrow>
          if a = CHR 0xC5 \<and> b = CHR 0xBF then CHR ''s'' # folded s'
          else (case s' of
                  c # s'' \<Rightarrow> if a = CHR 0xE2 \<and> b = CHR 0x84 \<and> c = CHR 0xAA then CHR ''k'' # folded s''
                             else lower a # folded s
                | [] \<Rightarrow> lower a # folded s)
      | [] \<Rightarrow> lower a # folded s)"

definition loopback :: "string \<Rightarrow> bool" where
  "loopback host = (case parse_ip host of Some ip \<Rightarrow> is_loopback ip | None \<Rightarrow> False)"

text \<open>The host without its port, when it has one.\<close>

definition host_name :: "string \<Rightarrow> string" where
  "host_name host = (case split_host_port host of Inr (name, _) \<Rightarrow> name | Inl _ \<Rightarrow> host)"

definition local_host :: "string \<Rightarrow> bool" where
  "local_host host \<longleftrightarrow> folded (host_name host) = folded ''localhost'' \<or> loopback (host_name host)"

text \<open>The listen address of \<open>main.go\<close>.\<close>

definition listen_error :: "string \<Rightarrow> err" where
  "listen_error addr =
     (case split_host_port addr of
        Inl e \<Rightarrow> Some (Wrapf ''listen address'' e)
      | Inr (host, _) \<Rightarrow>
          if host \<noteq> ''localhost'' \<and> \<not> loopback host
          then Some (Errorf ''the example listen address must be localhost or a loopback IP'')
          else None)"

section \<open>ServeHTTP\<close>

definition origin_ok :: "(string \<Rightarrow> (string \<times> string) option) \<Rightarrow> request \<Rightarrow> bool" where
  "origin_ok origins r \<longleftrightarrow>
     Header r ''Origin'' = [] \<or>
     (case origins (Header r ''Origin'') of
        None \<Rightarrow> False
      | Some (scheme, host) \<Rightarrow> host = ReqHost r \<and> scheme = (if Tls r then ''https'' else ''http''))"

definition refusal :: "(string \<Rightarrow> (string \<times> string) option) \<Rightarrow> request \<Rightarrow> (nat \<times> api_error) option" where
  "refusal origins r =
     (if \<not> local_host (ReqHost r) then Some (403, plain_error ''origin'' ''Run this example on localhost.'')
      else if has_prefix (ReqPath r) ''/api/'' \<and> Method r \<noteq> ''GET'' then
        (if \<not> origin_ok origins r
         then Some (403, plain_error ''origin'' ''Requests from other sites are not allowed.'')
         else if Header r ''X-Pgislet-Request'' \<noteq> ''playground'' \<or> Header r ''Sec-Fetch-Site'' = ''cross-site''
         then Some (403, plain_error ''origin'' ''Send requests from the same web page.'')
         else None)
      else None)"

text \<open>\<open>http.ServeMux\<close> on a clean path: the pattern for \<open>GET\<close> also takes \<open>HEAD\<close>.\<close>

datatype route = Start | End | Query | ResetIslet | Reseed | Schema | NoEndpoint | NotAllowed | Files

definition route_of :: "request \<Rightarrow> route" where
  "route_of r =
     (if Method r = ''POST'' \<and> ReqPath r = ''/api/session'' then Start
      else if Method r = ''DELETE'' \<and> ReqPath r = ''/api/session'' then End
      else if Method r = ''POST'' \<and> ReqPath r = ''/api/query'' then Query
      else if Method r = ''POST'' \<and> ReqPath r = ''/api/reset'' then ResetIslet
      else if Method r = ''POST'' \<and> ReqPath r = ''/api/seed'' then Reseed
      else if (Method r = ''GET'' \<or> Method r = ''HEAD'') \<and> ReqPath r = ''/api/schema'' then Schema
      else if has_prefix (ReqPath r) ''/api/'' then NoEndpoint
      else if Method r \<noteq> ''GET'' \<and> Method r \<noteq> ''HEAD'' then NotAllowed
      else Files)"

text \<open>The headers every response gets that passed the check of the host.\<close>

definition security_headers :: "(string \<times> string) list" where
  "security_headers =
     [(''X-Content-Type-Options'', ''nosniff''),
      (''Referrer-Policy'', ''no-referrer''),
      (''Content-Security-Policy'',
       ''default-src 'self'; script-src 'self'; style-src 'self'; img-src 'self' data:; connect-src 'self'; frame-ancestors 'none'; base-uri 'none'; form-action 'self'' @ [CHR 0x27]),
      (''Cache-Control'', ''no-store'')]"

definition serve :: "(string \<Rightarrow> (string \<times> string) option) \<Rightarrow> request \<Rightarrow> ((nat \<times> api_error) + route) \<times> (string \<times> string) list" where
  "serve origins r =
     ((case refusal origins r of Some x \<Rightarrow> Inl x | None \<Rightarrow> Inr (route_of r)),
      (if local_host (ReqHost r) then security_headers else []))"

section \<open>What passes\<close>

text \<open>The routes whose handlers change something.\<close>

definition mutating :: "route \<Rightarrow> bool" where
  "mutating x \<longleftrightarrow> x \<in> {Start, End, Query, ResetIslet, Reseed}"

lemma mutating_route:
  "mutating (route_of r) \<Longrightarrow> has_prefix (ReqPath r) ''/api/'' \<and> Method r \<noteq> ''GET''"
  by (auto simp: mutating_def route_of_def has_prefix_def split: if_splits)

text \<open>
  C16: no request reaches a handler that changes something unless its host is local, it carries the
  application's own header, the browser does not call it cross-site, and its origin, if it names one,
  is the host it was sent to under the scheme of the connection. No request at all passes with a
  host that is not local.
\<close>

theorem guard_protects:
  "fst (serve origins r) = Inr x \<Longrightarrow>
     local_host (ReqHost r) \<and>
     (mutating x \<longrightarrow>
        Header r ''X-Pgislet-Request'' = ''playground'' \<and> Header r ''Sec-Fetch-Site'' \<noteq> ''cross-site'' \<and>
        (Header r ''Origin'' = [] \<or>
         origins (Header r ''Origin'') = Some ((if Tls r then ''https'' else ''http''), ReqHost r)))"
  using mutating_route [of r]
  by (auto simp: serve_def refusal_def origin_ok_def split: option.splits if_splits)

text \<open>
  The guard and the listen address agree: an address the example listens on is itself a host
  the guard takes, so requests to it pass the check of the host.
\<close>

theorem listen_address_is_local:
  "listen_error addr = None \<Longrightarrow> local_host addr"
  by (auto simp: listen_error_def local_host_def host_name_def split: sum.splits if_splits)

text \<open>
  But not in the form a browser sends for port 80: the example listens on \<open>[::1]:80\<close>, and every
  request whose host is \<open>[::1]\<close> is refused, because only a host with a port loses its brackets.
\<close>

theorem default_port_refused:
  "listen_error ''[::1]:80'' = None \<and>
   fst (serve origins (r\<lparr>ReqHost := ''[::1]''\<rparr>)) = Inl (403, plain_error ''origin'' ''Run this example on localhost.'')"
proof -
  have "listen_error ''[::1]:80'' = None" by code_simp
  moreover have "\<not> local_host ''[::1]''" by code_simp
  ultimately show ?thesis by (simp add: serve_def refusal_def)
qed

definition sample_request :: request where
  "sample_request = \<lparr>ReqHost = ''127.0.0.1:8080'', ReqPath = ''/api/query'', Method = ''POST'', Tls = False,
     Header = (\<lambda>h. if h = ''X-Pgislet-Request'' then ''playground'' else []), CookieValue = None, BodyJson = InvalidJson\<rparr>"

theorem guard_protects_witness:
  "fst (serve (\<lambda>_. None) sample_request) = Inr Query \<and> local_host ''127.0.0.1:8080''"
proof -
  have "local_host ''127.0.0.1:8080''" by code_simp
  then have q: "fst (serve (\<lambda>_. None) sample_request) = Inr Query"
    by (simp add: serve_def refusal_def sample_request_def origin_ok_def route_of_def)
  from guard_protects [OF q] q show ?thesis by (simp add: sample_request_def)
qed

theorem listen_address_is_local_witness: "local_host ''[::1]:8080''"
proof -
  have "listen_error ''[::1]:8080'' = None" by code_simp
  from listen_address_is_local [OF this] show ?thesis .
qed

end
