(* ===== verification/Config.thy ===== *)
theory Config
  imports Errors
begin

text \<open>
  The manager's configuration (\<open>internal/engine/config.go\<close>) and the size check on a batch
  (\<open>checkSize\<close> in \<open>internal/engine/execute.go\<close>). Durations are \<open>int64\<close> nanoseconds and sizes
  are \<open>int\<close>: values in \<open>int64_range\<close>, with the arithmetic of \<open>checkSize\<close> wrapped to 64 bits.
\<close>

section \<open>Config\<close>

record config =
  DSN :: string
  OperationTimeout :: int
  StatementTimeout :: int
  LockTimeout :: int
  IdleTransactionTimeout :: int
  MaxSQLBytes :: int
  MaxBatchStatements :: int
  MaxRows :: int
  MaxResultBytes :: int

text \<open>\<open>time.Millisecond\<close>, \<open>time.Second\<close> and \<open>Duration.Milliseconds\<close> (Go's \<open>/\<close> truncates towards zero).\<close>

definition millisecond :: int where
  "millisecond = 1000000"

definition second :: int where
  "second = 1000000000"

definition milliseconds :: "int \<Rightarrow> int" where
  "milliseconds d = (if d < 0 then - ((- d) div millisecond) else d div millisecond)"

text \<open>\<open>Config.normalized\<close>: zero selects the default, and every limit is checked after that.\<close>

definition default_config :: "config \<Rightarrow> config" where
  "default_config cfg =
     \<lparr>DSN = DSN cfg,
      OperationTimeout = (if OperationTimeout cfg = 0 then 30 * second else OperationTimeout cfg),
      StatementTimeout = (if StatementTimeout cfg = 0 then 10 * second else StatementTimeout cfg),
      LockTimeout = (if LockTimeout cfg = 0 then second else LockTimeout cfg),
      IdleTransactionTimeout =
        (if IdleTransactionTimeout cfg = 0 then 15 * second else IdleTransactionTimeout cfg),
      MaxSQLBytes = (if MaxSQLBytes cfg = 0 then 2 ^ 20 else MaxSQLBytes cfg),
      MaxBatchStatements = (if MaxBatchStatements cfg = 0 then 100 else MaxBatchStatements cfg),
      MaxRows = (if MaxRows cfg = 0 then 1000 else MaxRows cfg),
      MaxResultBytes = (if MaxResultBytes cfg = 0 then 4 * 2 ^ 20 else MaxResultBytes cfg)\<rparr>"

definition invalid_limits :: "config \<Rightarrow> bool" where
  "invalid_limits cfg \<longleftrightarrow>
     OperationTimeout cfg < millisecond \<or> StatementTimeout cfg < millisecond \<or>
     LockTimeout cfg < millisecond \<or> IdleTransactionTimeout cfg < millisecond \<or>
     MaxSQLBytes cfg < 1 \<or> MaxBatchStatements cfg < 1 \<or> MaxRows cfg < 1 \<or> MaxResultBytes cfg < 1"

definition normalized :: "config \<Rightarrow> config \<times> err" where
  "normalized cfg0 =
     (let cfg = default_config cfg0
      in if invalid_limits cfg then (cfg, Some (Errorf ''pgislet: invalid limits''))
         else (cfg, None))"

text \<open>A configuration the rest of the module works with.\<close>

definition valid_config :: "config \<Rightarrow> bool" where
  "valid_config cfg \<longleftrightarrow> \<not> invalid_limits cfg"

lemma normalized_valid: "normalized cfg0 = (cfg, None) \<Longrightarrow> valid_config cfg"
  by (auto simp: normalized_def valid_config_def Let_def split: if_splits)

lemma normalized_id: "valid_config cfg \<Longrightarrow> normalized cfg = (cfg, None)"
  by (simp add: normalized_def valid_config_def invalid_limits_def default_config_def
      millisecond_def Let_def)

text \<open>The session settings that a configuration turns into, as PostgreSQL reads them.\<close>

definition timeout_setting :: "int \<Rightarrow> string" where
  "timeout_setting d = int_string (milliseconds d)"

lemma timeout_setting_not_zero:
  "millisecond \<le> d \<Longrightarrow> timeout_setting d \<noteq> ''0''"
proof -
  assume d: "millisecond \<le> d"
  then have pos: "1 \<le> d div millisecond"
    by (simp add: millisecond_def pos_imp_zdiv_pos_iff int_one_le_iff_zero_less)
  have zero: "nat_string 0 = ''0''"
    by (simp add: nat_string.simps digit_char_def char_of_def bit_0)
  from d pos have eq: "timeout_setting d = nat_string (nat (d div millisecond))"
    by (simp add: timeout_setting_def milliseconds_def int_string_def millisecond_def)
  from pos have "nat (d div millisecond) \<noteq> 0" by simp
  then show ?thesis
    using nat_string_inject [of "nat (d div millisecond)" 0] by (simp only: eq zero) simp
qed

text \<open>
  A configuration that passes \<open>normalized\<close> is a fixed point of it, keeps every field the
  caller set to something other than zero, and gives timeouts of at least one millisecond, so that
  none of the session settings derived from it is the \<open>0\<close> with which PostgreSQL turns a timeout
  off; a negative or too small field is refused.
\<close>

theorem normalized_sound:
  "normalized cfg0 = (cfg, None) \<Longrightarrow>
     normalized cfg = (cfg, None) \<and>
     (OperationTimeout cfg0 \<noteq> 0 \<longrightarrow> OperationTimeout cfg = OperationTimeout cfg0) \<and>
     (MaxSQLBytes cfg0 \<noteq> 0 \<longrightarrow> MaxSQLBytes cfg = MaxSQLBytes cfg0) \<and>
     (MaxRows cfg0 \<noteq> 0 \<longrightarrow> MaxRows cfg = MaxRows cfg0) \<and>
     1 \<le> MaxSQLBytes cfg \<and> 1 \<le> MaxBatchStatements cfg \<and> 1 \<le> MaxRows cfg \<and> 1 \<le> MaxResultBytes cfg \<and>
     (\<forall>d \<in> {OperationTimeout cfg, StatementTimeout cfg, LockTimeout cfg, IdleTransactionTimeout cfg}.
        timeout_setting d \<noteq> ''0'')"
proof -
  assume n: "normalized cfg0 = (cfg, None)"
  then have v: "valid_config cfg" by (rule normalized_valid)
  from n have cfg: "cfg = default_config cfg0"
    by (simp add: normalized_def Let_def split: if_splits)
  from v have limits: "millisecond \<le> OperationTimeout cfg" "millisecond \<le> StatementTimeout cfg"
    "millisecond \<le> LockTimeout cfg" "millisecond \<le> IdleTransactionTimeout cfg"
    "1 \<le> MaxSQLBytes cfg" "1 \<le> MaxBatchStatements cfg" "1 \<le> MaxRows cfg" "1 \<le> MaxResultBytes cfg"
    by (simp_all add: valid_config_def invalid_limits_def)
  have fields: "OperationTimeout cfg0 \<noteq> 0 \<longrightarrow> OperationTimeout cfg = OperationTimeout cfg0"
    "MaxSQLBytes cfg0 \<noteq> 0 \<longrightarrow> MaxSQLBytes cfg = MaxSQLBytes cfg0"
    "MaxRows cfg0 \<noteq> 0 \<longrightarrow> MaxRows cfg = MaxRows cfg0"
    by (simp_all add: cfg default_config_def)
  show ?thesis
    using normalized_id [OF v] fields limits by (simp add: timeout_setting_not_zero)
qed

definition empty_config :: config where
  "empty_config = \<lparr>DSN = [], OperationTimeout = 0, StatementTimeout = 0, LockTimeout = 0,
     IdleTransactionTimeout = 0, MaxSQLBytes = 0, MaxBatchStatements = 0, MaxRows = 0,
     MaxResultBytes = 0\<rparr>"

lemma normalized_empty: "normalized empty_config = (default_config empty_config, None)"
  by (simp add: normalized_def default_config_def empty_config_def invalid_limits_def
      millisecond_def second_def Let_def)

theorem normalized_sound_witness:
  "1 \<le> MaxRows (default_config empty_config) \<and>
   timeout_setting (StatementTimeout (default_config empty_config)) \<noteq> ''0''"
  using normalized_sound [OF normalized_empty] by simp

section \<open>The size of a batch\<close>

text \<open>
  \<open>checkSize\<close>: the loop subtracts the bytes already seen from the limit instead of adding the next
  length to them. \<open>len\<close> of a Go string fits \<open>int\<close>; the subtraction and the addition are 64-bit.
\<close>

fun size_loop :: "int \<Rightarrow> int \<Rightarrow> string list \<Rightarrow> err" where
  "size_loop limit seen [] = None"
| "size_loop limit seen (sql # rest) =
     (if int (length sql) > sub64 limit seen then Some (Sentinel ErrSQLTooLarge)
      else size_loop limit (add64 seen (int (length sql))) rest)"

definition check_size :: "config \<Rightarrow> string list \<Rightarrow> err" where
  "check_size cfg statements =
     (if int (length statements) > MaxBatchStatements cfg
      then Some (wrap ErrSQLTooLarge
             (Some (Errorf (''batch statement limit is '' @ int_string (MaxBatchStatements cfg)))))
      else size_loop (MaxSQLBytes cfg) 0 statements)"

lemma size_loop_sum:
  assumes "int64_range limit" and "0 \<le> seen" and "seen \<le> limit"
  shows "size_loop limit seen sqls = None \<longleftrightarrow> seen + int (length (concat sqls)) \<le> limit"
  using assms(2,3)
proof (induction sqls arbitrary: seen)
  case Nil
  then show ?case by simp
next
  case (Cons sql rest)
  from assms(1) Cons.prems have sub: "sub64 limit seen = limit - seen"
    by (simp add: sub64_def int64_range_def)
  show ?case
  proof (cases "int (length sql) \<le> limit - seen")
    case True
    with assms(1) Cons.prems have "add64 seen (int (length sql)) = seen + int (length sql)"
      by (simp add: add64_def int64_range_def)
    with True sub Cons show ?thesis by (simp add: algebra_simps)
  next
    case False
    with sub show ?thesis by simp
  qed
qed

lemma size_loop_kind: "size_loop limit seen sqls \<in> {None, Some (Sentinel ErrSQLTooLarge)}"
  by (induction limit seen sqls rule: size_loop.induct) auto

text \<open>
  The size check decides the mathematical condition: the number of statements is within the
  limit and the total length of the SQL is too, with no overflow of the 64-bit running total for
  any limit; otherwise the error is \<open>ErrSQLTooLarge\<close>.
\<close>

theorem check_size_correct:
  "int64_range (MaxSQLBytes cfg) \<Longrightarrow> 0 \<le> MaxSQLBytes cfg \<Longrightarrow>
     (check_size cfg sqls = None \<longleftrightarrow>
        int (length sqls) \<le> MaxBatchStatements cfg \<and> int (length (concat sqls)) \<le> MaxSQLBytes cfg) \<and>
     (check_size cfg sqls \<noteq> None \<longrightarrow> is_err (check_size cfg sqls) ErrSQLTooLarge)"
  using size_loop_sum [of "MaxSQLBytes cfg" 0 sqls] size_loop_kind [of "MaxSQLBytes cfg" 0 sqls]
  by (auto simp: check_size_def)

theorem check_size_correct_witness:
  "check_size (default_config empty_config) [''SELECT 1'', ''SELECT 2''] = None \<and>
   is_err (check_size ((default_config empty_config)\<lparr>MaxSQLBytes := 10\<rparr>) [''123456'', ''78901''])
     ErrSQLTooLarge"
proof -
  have "int64_range (MaxSQLBytes (default_config empty_config))"
    and "0 \<le> MaxSQLBytes (default_config empty_config)"
    by (simp_all add: default_config_def empty_config_def int64_range_def)
  from check_size_correct [OF this, of "[''SELECT 1'', ''SELECT 2'']"]
  have 1: "check_size (default_config empty_config) [''SELECT 1'', ''SELECT 2''] = None"
    by (simp add: default_config_def empty_config_def)
  let ?c = "(default_config empty_config)\<lparr>MaxSQLBytes := 10\<rparr>"
  have "int64_range (MaxSQLBytes ?c)" and "0 \<le> MaxSQLBytes ?c"
    by (simp_all add: int64_range_def)
  from check_size_correct [OF this, of "[''123456'', ''78901'']"]
  have "is_err (check_size ?c [''123456'', ''78901'']) ErrSQLTooLarge"
    by (simp add: default_config_def empty_config_def)
  with 1 show ?thesis by blast
qed

end
