(* ===== verification/Identifiers.thy ===== *)
theory Identifiers
  imports Config
begin

text \<open>
  Generated names and quoting (\<open>internal/engine/identifiers.go\<close>): \<open>opaque\<close> turns 24 random bytes
  into 48 hexadecimal digits, \<open>literal\<close> writes a SQL string literal. \<open>ident\<close> calls
  \<open>pgx.Identifier.Sanitize\<close>, code of another module: it is the field \<open>Sanitize\<close> of the
  parameters below wherever a definition renders an identifier.
\<close>

section \<open>encoding/hex\<close>

text \<open>Bytes are naturals below 256.\<close>

definition hextable :: string where
  "hextable = ''0123456789abcdef''"

definition hex_digit :: "nat \<Rightarrow> char" where
  "hex_digit d = hextable ! d"

fun hex_encode :: "nat list \<Rightarrow> string" where
  "hex_encode [] = []"
| "hex_encode (b # bs) = hex_digit (b div 16) # hex_digit (b mod 16) # hex_encode bs"

definition hex_value :: "char \<Rightarrow> nat" where
  "hex_value c = length (takeWhile (\<lambda>x. x \<noteq> c) hextable)"

fun hex_decode :: "string \<Rightarrow> nat list" where
  "hex_decode (h # l # cs) = (16 * hex_value h + hex_value l) # hex_decode cs"
| "hex_decode _ = []"

definition hex_char :: "char \<Rightarrow> bool" where
  "hex_char c \<longleftrightarrow> c \<in> set hextable"

lemma hex_value_digit [simp]: "d < 16 \<Longrightarrow> hex_value (hex_digit d) = d"
proof -
  have "list_all (\<lambda>d. hex_value (hex_digit d) = d) [0..<16]"
    by (simp add: upt_rec hex_value_def hex_digit_def hextable_def)
  then show "d < 16 \<Longrightarrow> hex_value (hex_digit d) = d"
    by (simp add: list_all_iff)
qed

lemma hex_digit_char: "d < 16 \<Longrightarrow> hex_char (hex_digit d)"
  unfolding hex_char_def hex_digit_def by (rule nth_mem) (simp add: hextable_def)

lemma hex_decode_encode [simp]:
  "list_all (\<lambda>b. b < 256) bs \<Longrightarrow> hex_decode (hex_encode bs) = bs"
  by (induction bs) auto

lemma length_hex_encode [simp]: "length (hex_encode bs) = 2 * length bs"
  by (induction bs) auto

lemma hex_encode_chars: "list_all (\<lambda>b. b < 256) bs \<Longrightarrow> list_all hex_char (hex_encode bs)"
  by (induction bs) (auto intro!: hex_digit_char)

lemma hex_encode_inject:
  "list_all (\<lambda>b. b < 256) bs \<Longrightarrow> list_all (\<lambda>b. b < 256) cs \<Longrightarrow>
     hex_encode bs = hex_encode cs \<longleftrightarrow> bs = cs"
  by (metis hex_decode_encode)

section \<open>opaque\<close>

text \<open>\<open>opaque\<close>, given what \<open>rand.Read\<close> did: an error, or the 24 bytes it filled in.\<close>

definition opaque :: "go_error + nat list \<Rightarrow> string \<times> err" where
  "opaque r = (case r of Inl e \<Rightarrow> ([], Some e) | Inr bs \<Rightarrow> (hex_encode bs, None))"

text \<open>What \<open>rand.Read\<close> on a \<open>[24]byte\<close> fills in.\<close>

definition random_bytes :: "nat list \<Rightarrow> bool" where
  "random_bytes bs \<longleftrightarrow> length bs = 24 \<and> list_all (\<lambda>b. b < 256) bs"

text \<open>The names \<open>create\<close> derives from an islet's identifier.\<close>

definition schema_of :: "string \<Rightarrow> string" where
  "schema_of i = ''pgislet_i_'' @ i"

definition role_of :: "string \<Rightarrow> string" where
  "role_of i = ''pgislet_r_'' @ i"

lemma schema_of_inject [simp]: "schema_of i = schema_of j \<longleftrightarrow> i = j"
  by (simp add: schema_of_def)

lemma role_of_inject [simp]: "role_of i = role_of j \<longleftrightarrow> i = j"
  by (simp add: role_of_def)

text \<open>
  C39: identifiers are 48 lower-case hexadecimal digits from which the random bytes can be read
  back, so different bytes give different identifiers, schemas and roles; and the schema and role
  names stay below PostgreSQL's limit of 63 bytes, so the server never truncates (and merges) them.
\<close>

theorem opaque_identifiers:
  "random_bytes bs \<Longrightarrow> random_bytes cs \<Longrightarrow> opaque (Inr bs) = (i, None) \<Longrightarrow> opaque (Inr cs) = (j, None) \<Longrightarrow>
     length i = 48 \<and> list_all hex_char i \<and> hex_decode i = bs \<and>
     (i = j \<longleftrightarrow> bs = cs) \<and> (schema_of i = schema_of j \<longleftrightarrow> bs = cs) \<and> (role_of i = role_of j \<longleftrightarrow> bs = cs) \<and>
     length (schema_of i) \<le> 63 \<and> length (role_of i) \<le> 63"
  by (auto simp: opaque_def random_bytes_def hex_encode_chars hex_encode_inject
      schema_of_def role_of_def)

theorem opaque_identifiers_witness:
  "random_bytes (replicate 24 171) \<and> length (hex_encode (replicate 24 171)) = 48 \<and>
   hex_encode (replicate 24 171) \<noteq> hex_encode (replicate 24 7)"
proof -
  have r: "random_bytes (replicate 24 171)" "random_bytes (replicate 24 7)"
    by (simp_all add: random_bytes_def list_all_iff)
  have o1: "opaque (Inr (replicate 24 171)) = (hex_encode (replicate 24 171), None)"
    and o2: "opaque (Inr (replicate 24 7)) = (hex_encode (replicate 24 7), None)"
    by (simp_all add: opaque_def)
  have ne: "replicate 24 (171::nat) \<noteq> replicate 24 7"
    by (simp only: replicate_eq_replicate) simp
  show ?thesis
    using opaque_identifiers [OF r o1 o2] r ne by simp
qed

section \<open>SQL literals\<close>

definition quote :: char where
  "quote = CHR 0x27"

text \<open>\<open>replaceQuotes\<close> and \<open>literal\<close>.\<close>

definition replace_quotes :: "string \<Rightarrow> string" where
  "replace_quotes s = replace_char quote [quote, quote] s"

definition literal :: "string \<Rightarrow> string" where
  "literal s = [quote] @ replace_quotes s @ [quote]"

text \<open>
  How PostgreSQL reads a plain string literal with \<open>standard_conforming_strings\<close> on: after the
  opening quote, a doubled quote is a quote, a single one ends the literal, every other character
  (a backslash too) stands for itself. The result is the value and the rest of the input.
\<close>

fun read_body :: "string \<Rightarrow> (string \<times> string) option" where
  "read_body [] = None"
| "read_body (c # cs) =
     (if c \<noteq> quote then map_option (\<lambda>(v, r). (c # v, r)) (read_body cs)
      else (case cs of
              d # ds \<Rightarrow> if d = quote then map_option (\<lambda>(v, r). (quote # v, r)) (read_body ds)
                       else Some ([], cs)
            | [] \<Rightarrow> Some ([], [])))"

definition read_literal :: "string \<Rightarrow> (string \<times> string) option" where
  "read_literal s = (case s of c # cs \<Rightarrow> if c = quote then read_body cs else None | [] \<Rightarrow> None)"

lemma read_body_replace:
  "(case rest of [] \<Rightarrow> True | c # _ \<Rightarrow> c \<noteq> quote) \<Longrightarrow>
     read_body (replace_quotes s @ quote # rest) = Some (s, rest)"
  by (induction s) (auto simp: replace_quotes_def split: list.splits)

text \<open>
  C40: a literal reads back as the string it was made from, whatever characters that has, and
  nothing of it spills into the SQL text that follows, as long as that does not start with a quote.
\<close>

theorem literal_roundtrip:
  "(case rest of [] \<Rightarrow> True | c # _ \<Rightarrow> c \<noteq> quote) \<Longrightarrow> read_literal (literal s @ rest) = Some (s, rest)"
  by (simp add: read_literal_def literal_def read_body_replace)

theorem literal_roundtrip_witness:
  "read_literal (literal (''x'' @ [quote] @ ''; DROP SCHEMA public; --'') @ '' NOSUPERUSER'') =
     Some (''x'' @ [quote] @ ''; DROP SCHEMA public; --'', '' NOSUPERUSER'')"
  by (rule literal_roundtrip) (simp add: quote_def)

end
