(* ===== verification/Result.thy ===== *)
theory Result
  imports Errors Config
begin

text \<open>
  Reading one statement's answer within the batch's budgets (\<open>Manager.query\<close> in
  \<open>internal/engine/result.go\<close>, the types \<open>Column\<close> and \<open>Result\<close> in \<open>internal/engine/types.go\<close>).
  What \<open>pgx\<close> hands over for a statement is a \<open>reply\<close>: the error of \<open>tx.Query\<close>, the field
  descriptions, the raw rows in the order \<open>rows.Next\<close> reaches them, and what \<open>rows.Err\<close> and
  \<open>rows.CommandTag\<close> say after the last. The two budgets are Go \<open>int\<close>s, passed by pointer and so
  returned with the result; their arithmetic wraps to 64 bits.
\<close>

section \<open>Types\<close>

record column =
  Name :: string
  DataTypeOID :: int

text \<open>A Go \<open>any\<close> as \<open>query\<close> fills it in: nil for SQL NULL, otherwise the text form.\<close>

datatype go_any = NilValue | StringValue string

record result =
  Columns :: "column list"
  Rows :: "go_any list list"
  CommandTag :: string
  RowsAffected :: int
  Duration :: int
  Truncated :: bool

definition empty_result :: result where
  "empty_result = \<lparr>Columns = [], Rows = [], CommandTag = [], RowsAffected = 0, Duration = 0,
     Truncated = False\<rparr>"

record reply =
  QueryErr :: err
  FieldDescriptions :: "column list"
  RawRows :: "string option list list"
  RowsErr :: err
  Tag :: string
  TagRows :: int

text \<open>What \<open>query\<close> leaves: the named results, the budgets, and whether it closed the connection.\<close>

record outcome =
  Answer :: result
  Failure :: err
  RowsLeft :: int
  BytesLeft :: int
  Closed :: bool

section \<open>query\<close>

text \<open>The loop over the field descriptions.\<close>

fun header_loop :: "int \<Rightarrow> column list \<Rightarrow> int" where
  "header_loop bytes [] = bytes"
| "header_loop bytes (f # fs) = header_loop (sub64 bytes (int (length (Name f)) + 4)) fs"

text \<open>The size of a row: \<open>len\<close> of a nil slice is 0.\<close>

definition raw_length :: "string option \<Rightarrow> int" where
  "raw_length v = (case v of None \<Rightarrow> 0 | Some s \<Rightarrow> int (length s))"

fun row_size :: "int \<Rightarrow> string option list \<Rightarrow> int" where
  "row_size sum0 [] = sum0"
| "row_size sum0 (v # vs) = row_size (add64 sum0 (raw_length v + 1)) vs"

definition values_of :: "string option list \<Rightarrow> go_any list" where
  "values_of raw = map (\<lambda>v. case v of None \<Rightarrow> NilValue | Some s \<Rightarrow> StringValue s) raw"

text \<open>The loop over \<open>rows.Next\<close>: the rows kept, the budgets, and whether a row was over budget.\<close>

fun row_loop :: "int \<Rightarrow> int \<Rightarrow> string option list list \<Rightarrow> go_any list list \<times> int \<times> int \<times> bool" where
  "row_loop rows bytes [] = ([], rows, bytes, False)"
| "row_loop rows bytes (raw # rest) =
     (if rows \<le> 0 \<or> row_size 0 raw > bytes then ([], rows, bytes, True)
      else (case row_loop (sub64 rows 1) (sub64 bytes (row_size 0 raw)) rest of
              (out, rows', bytes', over) \<Rightarrow> (values_of raw # out, rows', bytes', over)))"

definition budget_exceeded :: go_error where
  "budget_exceeded =
     wrap ErrResultLimit (Some (Errorf ''batch row or byte budget exceeded; transaction rolled back''))"

text \<open>
  \<open>query\<close>, given the reply, the clock readings of \<open>time.Now\<close> and of the deferred \<open>time.Since\<close>, and
  the budgets. The deferred function sets \<open>Duration\<close> on every path.
\<close>

definition query :: "reply \<Rightarrow> int \<Rightarrow> int \<Rightarrow> int \<Rightarrow> int \<Rightarrow> outcome" where
  "query r start now rows bytes =
     (let res = empty_result\<lparr>Duration := sub64 now start\<rparr>
      in case QueryErr r of
           Some e \<Rightarrow> \<lparr>Answer = res, Failure = Some e, RowsLeft = rows, BytesLeft = bytes, Closed = False\<rparr>
         | None \<Rightarrow>
             let bytes1 = header_loop bytes (FieldDescriptions r);
                 res = res\<lparr>Columns := FieldDescriptions r\<rparr>
             in case row_loop rows bytes1 (RawRows r) of
                  (out, rows', bytes', over) \<Rightarrow>
                    let res = res\<lparr>Rows := out\<rparr>
                    in if over
                       then \<lparr>Answer = res\<lparr>Truncated := True\<rparr>, Failure = Some budget_exceeded,
                              RowsLeft = rows', BytesLeft = bytes', Closed = True\<rparr>
                       else (case RowsErr r of
                               Some e \<Rightarrow> \<lparr>Answer = res, Failure = Some e, RowsLeft = rows',
                                          BytesLeft = bytes', Closed = False\<rparr>
                             | None \<Rightarrow>
                                 if bytes' < 0
                                 then \<lparr>Answer = res\<lparr>Truncated := True\<rparr>,
                                        Failure = Some (Sentinel ErrResultLimit),
                                        RowsLeft = rows', BytesLeft = bytes', Closed = False\<rparr>
                                 else \<lparr>Answer = res\<lparr>CommandTag := Tag r, RowsAffected := TagRows r\<rparr>,
                                        Failure = None, RowsLeft = rows', BytesLeft = bytes',
                                        Closed = False\<rparr>))"

section \<open>Costs\<close>

text \<open>What a column, a row and an answer cost, as mathematical integers.\<close>

definition column_cost :: "column \<Rightarrow> int" where
  "column_cost c = int (length (Name c)) + 4"

definition raw_cost :: "string option list \<Rightarrow> int" where
  "raw_cost raw = sum_list (map (\<lambda>v. raw_length v + 1) raw)"

definition any_cost :: "go_any \<Rightarrow> int" where
  "any_cost v = (case v of NilValue \<Rightarrow> 1 | StringValue s \<Rightarrow> int (length s) + 1)"

definition result_cost :: "result \<Rightarrow> int" where
  "result_cost res = sum_list (map column_cost (Columns res))
     + sum_list (map (\<lambda>row. sum_list (map any_cost row)) (Rows res))"

definition reply_cost :: "reply \<Rightarrow> int" where
  "reply_cost r = sum_list (map column_cost (FieldDescriptions r)) + sum_list (map raw_cost (RawRows r))"

text \<open>A reply that a machine can hold: under \<open>2^62\<close> bytes in all.\<close>

definition in_memory :: "reply \<Rightarrow> bool" where
  "in_memory r \<longleftrightarrow> reply_cost r < 2 ^ 62"

lemma raw_length_nonneg [simp]: "0 \<le> raw_length v"
  by (simp add: raw_length_def split: option.splits)

lemma column_cost_pos: "0 \<le> column_cost c"
  by (simp add: column_cost_def)

lemma raw_cost_nonneg: "0 \<le> raw_cost raw"
  by (auto simp: raw_cost_def intro!: sum_list_nonneg)

lemma costs_nonneg:
  "0 \<le> sum_list (map column_cost fs)" "0 \<le> sum_list (map raw_cost rs)"
  by (auto intro!: sum_list_nonneg simp: column_cost_pos raw_cost_nonneg)

lemma values_cost [simp]: "sum_list (map any_cost (values_of raw)) = raw_cost raw"
  by (induction raw) (auto simp: values_of_def raw_cost_def any_cost_def raw_length_def split: option.splits)

lemma header_loop_eq:
  "- (2 ^ 62) + sum_list (map column_cost fs) \<le> bytes \<Longrightarrow> bytes < 2 ^ 63 \<Longrightarrow>
     header_loop bytes fs = bytes - sum_list (map column_cost fs)"
proof (induction fs arbitrary: bytes)
  case (Cons f fs)
  have pos: "0 \<le> sum_list (map column_cost fs)" by (rule costs_nonneg)
  have "int64_range (bytes - column_cost f)"
    unfolding int64_range_def using Cons.prems(1,2) pos column_cost_pos [of f]
    by simp
  then have "sub64 bytes (int (length (Name f)) + 4) = bytes - column_cost f"
    by (simp add: sub64_eq column_cost_def)
  with pos show ?case
    using Cons.IH [of "bytes - column_cost f"] Cons.prems column_cost_pos [of f] by simp
qed simp

lemma row_size_eq:
  "0 \<le> sum0 \<Longrightarrow> sum0 + raw_cost raw < 2 ^ 63 \<Longrightarrow> row_size sum0 raw = sum0 + raw_cost raw"
proof (induction raw arbitrary: sum0)
  case Nil
  then show ?case by (simp add: raw_cost_def)
next
  case (Cons v raw)
  have cost: "raw_cost (v # raw) = raw_length v + 1 + raw_cost raw"
    by (simp add: raw_cost_def)
  with Cons.prems have small: "sum0 + (raw_length v + 1) < 2 ^ 63" and nn: "0 \<le> sum0 + (raw_length v + 1)"
    using raw_cost_nonneg [of raw] raw_length_nonneg [of v] by linarith+
  then have "add64 sum0 (raw_length v + 1) = sum0 + (raw_length v + 1)"
    by (simp add: add64_def int64_range_def)
  with Cons.IH [OF nn] Cons.prems show ?case by (simp add: cost)
qed

text \<open>What the row loop keeps is a prefix of the rows, as long as both budgets allow.\<close>

lemma row_loop_spec:
  assumes "row_loop rows bytes raws = (out, rows', bytes', over)"
    and "sum_list (map raw_cost raws) < 2 ^ 62" and "0 \<le> rows" and "rows < 2 ^ 63"
    and "- (2 ^ 62) \<le> bytes" and "bytes < 2 ^ 63"
  shows "out = map values_of (take (length out) raws) \<and> length out \<le> length raws \<and>
     rows' = rows - int (length out) \<and> 0 \<le> rows' \<and>
     bytes' = bytes - sum_list (map raw_cost (take (length out) raws)) \<and>
     (out \<noteq> [] \<longrightarrow> 0 \<le> bytes') \<and>
     (\<not> over \<longrightarrow> length out = length raws) \<and>
     (over \<longrightarrow> length out < length raws \<and> (rows' \<le> 0 \<or> raw_cost (raws ! length out) > bytes'))"
  using assms
proof (induction raws arbitrary: rows bytes out)
  case (Cons raw rest)
  have small: "raw_cost raw + sum_list (map raw_cost rest) < 2 ^ 62" using Cons.prems by simp
  then have sum0: "row_size 0 raw = raw_cost raw"
    using row_size_eq [of 0 raw] costs_nonneg(2) [of rest] by simp
  show ?case
  proof (cases "rows \<le> 0 \<or> raw_cost raw > bytes")
    case True
    with Cons.prems sum0 show ?thesis by auto
  next
    case False
    then have "int64_range (rows - 1)" and "int64_range (bytes - raw_cost raw)"
      unfolding int64_range_def using Cons.prems raw_cost_nonneg [of raw] by linarith+
    then have arith: "sub64 rows 1 = rows - 1" "sub64 bytes (raw_cost raw) = bytes - raw_cost raw"
      by (simp_all add: sub64_eq)
    obtain out1 where rec: "row_loop (rows - 1) (bytes - raw_cost raw) rest = (out1, rows', bytes', over)"
      and out: "out = values_of raw # out1"
      using Cons.prems(1) False by (auto simp: sum0 arith split: prod.splits)
    have pre: "sum_list (map raw_cost rest) < 2 ^ 62" "0 \<le> rows - 1" "rows - 1 < 2 ^ 63"
      "- (2 ^ 62) \<le> bytes - raw_cost raw" "bytes - raw_cost raw < 2 ^ 63"
      using False small Cons.prems(3-6) raw_cost_nonneg [of raw] costs_nonneg(2) [of rest] by auto
    have nn: "0 \<le> bytes - raw_cost raw" using False by simp
    from Cons.IH [OF rec pre] nn show ?thesis
      by (cases "out1 = []") (auto simp: out)
  qed
qed simp

section \<open>Properties\<close>

text \<open>The conditions under which the 64-bit arithmetic of \<open>query\<close> is exact.\<close>

definition budgets_ok :: "reply \<Rightarrow> int \<Rightarrow> int \<Rightarrow> bool" where
  "budgets_ok r rows bytes \<longleftrightarrow>
     in_memory r \<and> 0 \<le> rows \<and> rows < 2 ^ 63 \<and> 0 \<le> bytes \<and> bytes < 2 ^ 63"

text \<open>One lemma that unfolds \<open>query\<close> over what the row loop did.\<close>

lemma query_cases:
  assumes "budgets_ok r rows bytes" and "QueryErr r = None"
  obtains n rows' bytes' over where
    "row_loop rows (header_loop bytes (FieldDescriptions r)) (RawRows r) =
       (map values_of (take n (RawRows r)), rows', bytes', over)"
    "n \<le> length (RawRows r)" "rows' = rows - int n" "0 \<le> rows'"
    "bytes' = bytes - sum_list (map column_cost (FieldDescriptions r))
       - sum_list (map raw_cost (take n (RawRows r)))"
    "0 < n \<longrightarrow> 0 \<le> bytes'"
    "\<not> over \<Longrightarrow> n = length (RawRows r)"
    "over \<Longrightarrow> n < length (RawRows r) \<and> (rows' \<le> 0 \<or> raw_cost (RawRows r ! n) > bytes')"
proof -
  let ?c = "sum_list (map column_cost (FieldDescriptions r))"
  let ?w = "sum_list (map raw_cost (RawRows r))"
  from assms(1) have ok: "?c + ?w < 2 ^ 62" "0 \<le> rows" "rows < 2 ^ 63" "0 \<le> bytes" "bytes < 2 ^ 63"
    by (simp_all add: budgets_ok_def in_memory_def reply_cost_def)
  have nn: "0 \<le> ?c" "0 \<le> ?w" by (rule costs_nonneg)+
  then have hdr: "header_loop bytes (FieldDescriptions r) = bytes - ?c"
    using ok by (intro header_loop_eq) auto
  have pre: "?w < 2 ^ 62" "- (2 ^ 62) \<le> bytes - ?c" "bytes - ?c < 2 ^ 63"
    using ok nn by auto
  obtain out rows' bytes' over
    where loop: "row_loop rows (bytes - ?c) (RawRows r) = (out, rows', bytes', over)"
    by (cases "row_loop rows (bytes - ?c) (RawRows r)") auto
  note spec = row_loop_spec [OF loop pre(1) ok(2,3) pre(2,3)]
  show ?thesis
    by (rule that [of "length out" rows' bytes' over])
      (use spec loop hdr in \<open>auto simp: take_map\<close>)
qed

lemma take_Suc_cost:
  "n < length rs \<Longrightarrow>
     sum_list (map raw_cost (take n rs)) + raw_cost (rs ! n) \<le> sum_list (map raw_cost rs)"
proof -
  assume n: "n < length rs"
  have "rs = take n rs @ rs ! n # drop (Suc n) rs" using n by (rule id_take_nth_drop)
  then have "sum_list (map raw_cost rs) =
      sum_list (map raw_cost (take n rs)) + raw_cost (rs ! n) + sum_list (map raw_cost (drop (Suc n) rs))"
    by (metis (no_types, lifting) add.assoc list.simps(9) map_append sum_list.Cons sum_list_append)
  then show ?thesis using costs_nonneg(2) [of "drop (Suc n) rs"] by linarith
qed

lemma query_exact:
  "budgets_ok r rows bytes \<Longrightarrow> outc = query r start now rows bytes \<Longrightarrow>
     (Failure outc = None \<longleftrightarrow>
        QueryErr r = None \<and> RowsErr r = None \<and>
        int (length (RawRows r)) \<le> rows \<and> reply_cost r \<le> bytes) \<and>
     (Failure outc = None \<longrightarrow>
        Columns (Answer outc) = FieldDescriptions r \<and>
        Rows (Answer outc) = map values_of (RawRows r) \<and>
        CommandTag (Answer outc) = Tag r \<and> RowsAffected (Answer outc) = TagRows r \<and>
        \<not> Truncated (Answer outc) \<and> \<not> Closed outc \<and>
        RowsLeft outc = rows - int (length (RawRows r)) \<and>
        BytesLeft outc = bytes - result_cost (Answer outc))"
proof -
  assume ok: "budgets_ok r rows bytes" and outc: "outc = query r start now rows bytes"
  show ?thesis
  proof (cases "QueryErr r")
    case (Some e)
    then show ?thesis by (simp add: outc query_def Let_def)
  next
    case None
    from ok None show ?thesis
    proof (cases rule: query_cases)
      case (1 n rows' bytes' over)
      have cost: "result_cost (a\<lparr>Columns := FieldDescriptions r, Rows := map values_of (RawRows r)\<rparr>) = reply_cost r" for a
        by (simp add: result_cost_def reply_cost_def o_def)
      show ?thesis
      proof (cases over)
        case True
        with 1 have "n < length (RawRows r)" and "rows' \<le> 0 \<or> raw_cost (RawRows r ! n) > bytes'"
          by auto
        with take_Suc_cost [of n "RawRows r"] 1(3-5)
        have "\<not> (int (length (RawRows r)) \<le> rows \<and> reply_cost r \<le> bytes)"
          by (auto simp: reply_cost_def)
        with True None 1(1) show ?thesis by (simp add: outc query_def Let_def)
      next
        case False
        with 1(7) have n: "n = length (RawRows r)" by simp
        have fits: "bytes' < 0 \<longleftrightarrow> \<not> reply_cost r \<le> bytes" and "int (length (RawRows r)) \<le> rows"
          and "bytes' = bytes - reply_cost r"
          using 1(3-5) by (auto simp: n reply_cost_def)
        with False None 1(1,3) show ?thesis
          by (cases "RowsErr r")
            (simp_all add: outc query_def Let_def n empty_result_def result_cost_def reply_cost_def o_def)
      qed
    qed
  qed
qed

text \<open>
  C32: \<open>query\<close> succeeds exactly when PostgreSQL reported no error and the whole answer fits the two
  budgets; then it returns every column and every row, NULL as nil and everything else as its text,
  and takes exactly the answer's cost off the budgets.
\<close>

theorem query_success:
  "budgets_ok r rows bytes \<Longrightarrow> outc = query r start now rows bytes \<Longrightarrow>
     (Failure outc = None \<longleftrightarrow>
        QueryErr r = None \<and> RowsErr r = None \<and>
        int (length (RawRows r)) \<le> rows \<and> reply_cost r \<le> bytes) \<and>
     (Failure outc = None \<longrightarrow>
        Columns (Answer outc) = FieldDescriptions r \<and>
        Rows (Answer outc) = map values_of (RawRows r) \<and>
        CommandTag (Answer outc) = Tag r \<and> RowsAffected (Answer outc) = TagRows r \<and>
        \<not> Truncated (Answer outc) \<and> \<not> Closed outc \<and>
        RowsLeft outc = rows - int (length (RawRows r)) \<and>
        BytesLeft outc = bytes - result_cost (Answer outc))"
  by (rule query_exact)

lemma query_cut:
  "budgets_ok r rows bytes \<Longrightarrow> outc = query r start now rows bytes \<Longrightarrow>
     (Truncated (Answer outc) \<longleftrightarrow>
        QueryErr r = None \<and> (int (length (RawRows r)) > rows \<or> reply_cost r > bytes) \<and>
        (RawRows r = [] \<longrightarrow> RowsErr r = None)) \<and>
     (Truncated (Answer outc) \<longrightarrow> is_err (Failure outc) ErrResultLimit) \<and>
     (\<exists>n \<le> length (RawRows r). Rows (Answer outc) = map values_of (take n (RawRows r))) \<and>
     int (length (Rows (Answer outc))) \<le> rows \<and>
     (Rows (Answer outc) \<noteq> [] \<longrightarrow> result_cost (Answer outc) \<le> bytes) \<and>
     (Closed outc \<longleftrightarrow> Truncated (Answer outc) \<and> RawRows r \<noteq> []) \<and>
     Duration (Answer outc) = sub64 now start"
proof -
  assume ok: "budgets_ok r rows bytes" and outc: "outc = query r start now rows bytes"
  show ?thesis
  proof (cases "QueryErr r")
    case (Some e)
    with ok show ?thesis
      by (auto simp: outc query_def Let_def empty_result_def budgets_ok_def intro!: exI [of _ 0])
  next
    case None
    from ok None show ?thesis
    proof (cases rule: query_cases)
      case (1 n rows' bytes' over)
      have len: "int n \<le> rows" using 1(3,4) by simp
      have prefix: "\<exists>m \<le> length (RawRows r). map values_of (take n (RawRows r)) = map values_of (take m (RawRows r))"
        using 1(2) by blast
      have cost: "0 < n \<Longrightarrow> sum_list (map column_cost (FieldDescriptions r))
          + sum_list (map raw_cost (take n (RawRows r))) \<le> bytes"
        using 1(5,6) by simp
      show ?thesis
      proof (cases over)
        case True
        with 1(8) have n: "n < length (RawRows r)" and "rows' \<le> 0 \<or> raw_cost (RawRows r ! n) > bytes'"
          by auto
        with take_Suc_cost [of n "RawRows r"] 1(3-5)
        have "int (length (RawRows r)) > rows \<or> reply_cost r > bytes"
          by (auto simp: reply_cost_def)
        moreover have "RawRows r \<noteq> []" using n by auto
        ultimately show ?thesis using True None 1(1,2) len prefix cost
          by (simp add: outc query_def Let_def empty_result_def budget_exceeded_def result_cost_def o_def)
      next
        case False
        with 1(7) have n: "n = length (RawRows r)" by simp
        have fits: "bytes' < 0 \<longleftrightarrow> reply_cost r > bytes" and "int (length (RawRows r)) \<le> rows"
          and "RawRows r = [] \<or> reply_cost r \<le> bytes"
          using 1(3-5) 1(6) by (auto simp: n reply_cost_def)
        with False None 1(1) len prefix cost show ?thesis
          by (cases "RowsErr r"; cases "bytes' < 0"; cases "RawRows r = []")
            (simp_all add: outc query_def Let_def n empty_result_def result_cost_def reply_cost_def o_def)
      qed
    qed
  qed
qed

text \<open>
  \<open>Truncated\<close> is set exactly when the answer was cut by a budget, then the error is
  \<open>ErrResultLimit\<close>; whatever happens, the rows kept are a prefix of PostgreSQL's rows, no more of
  them than the row budget, and within the byte budget as soon as there is one; and the connection
  is closed exactly when a row was over budget.
\<close>

theorem query_truncation:
  "budgets_ok r rows bytes \<Longrightarrow> outc = query r start now rows bytes \<Longrightarrow>
     (Truncated (Answer outc) \<longleftrightarrow>
        QueryErr r = None \<and> (int (length (RawRows r)) > rows \<or> reply_cost r > bytes) \<and>
        (RawRows r = [] \<longrightarrow> RowsErr r = None)) \<and>
     (Truncated (Answer outc) \<longrightarrow> is_err (Failure outc) ErrResultLimit) \<and>
     (\<exists>n \<le> length (RawRows r). Rows (Answer outc) = map values_of (take n (RawRows r))) \<and>
     int (length (Rows (Answer outc))) \<le> rows \<and>
     (Rows (Answer outc) \<noteq> [] \<longrightarrow> result_cost (Answer outc) \<le> bytes) \<and>
     (Closed outc \<longleftrightarrow> Truncated (Answer outc) \<and> RawRows r \<noteq> []) \<and>
     Duration (Answer outc) = sub64 now start"
  by (rule query_cut)

section \<open>A concrete answer\<close>

definition sample_reply :: reply where
  "sample_reply = \<lparr>QueryErr = None, FieldDescriptions = [\<lparr>Name = ''n'', DataTypeOID = 23\<rparr>],
     RawRows = [[Some ''1''], [None]], RowsErr = None, Tag = ''SELECT 2'', TagRows = 2\<rparr>"

lemma sample_budgets: "0 \<le> rows \<Longrightarrow> rows < 2 ^ 63 \<Longrightarrow> 0 \<le> bytes \<Longrightarrow> bytes < 2 ^ 63 \<Longrightarrow>
    budgets_ok sample_reply rows bytes"
  by (simp add: budgets_ok_def in_memory_def sample_reply_def reply_cost_def column_cost_def
      raw_cost_def raw_length_def)

theorem query_success_witness:
  "Failure (query sample_reply 5 9 2 8) = None \<and>
   Rows (Answer (query sample_reply 5 9 2 8)) = [[StringValue ''1''], [NilValue]] \<and>
   Failure (query sample_reply 5 9 2 7) \<noteq> None"
proof -
  have "budgets_ok sample_reply 2 8" and "budgets_ok sample_reply 2 7"
    by (simp_all add: sample_budgets)
  from query_success [OF this(1) refl, of 5 9] query_success [OF this(2) refl, of 5 9]
  show ?thesis
    by (simp add: sample_reply_def reply_cost_def column_cost_def raw_cost_def raw_length_def values_of_def)
qed

theorem query_truncation_witness:
  "Truncated (Answer (query sample_reply 5 9 1 100)) \<and> Closed (query sample_reply 5 9 1 100) \<and>
   is_err (Failure (query sample_reply 5 9 1 100)) ErrResultLimit"
proof -
  have "budgets_ok sample_reply 1 100" by (simp add: sample_budgets)
  from query_truncation [OF this refl, of 5 9] show ?thesis
    by (simp add: sample_reply_def)
qed

end
