(* ===== verification/Dependencies.thy ===== *)
theory Dependencies
  imports Errors
begin

text \<open>
  The dependency query run before an islet's schema is dropped and before a batch
  (\<open>dependencySQL\<close> in \<open>internal/engine/dependencies.go\<close>). The catalogs it reads are the record
  \<open>catalog\<close>: the rows of \<open>pg_depend\<close>, the OIDs of the namespaces of a name, and
  \<open>pg_identify_object\<close> as a function. The two recursive common table expressions are a closure
  under edges, computed here by a function that ends because it runs out of new objects.
\<close>

section \<open>Catalogs\<close>

text \<open>An object address: the class (a catalog) and the OID. \<open>PgOther\<close> is every class the query does not name.\<close>

datatype class_name =
    PgNamespace | PgAttrdef | PgRewrite | PgTrigger | PgPolicy | PgConstraint | PgOther nat

type_synonym address = "class_name \<times> nat"

record depend =
  classid :: class_name
  objid :: nat
  refclassid :: class_name
  refobjid :: nat
  deptype :: char

text \<open>The columns \<open>schema\<close> and \<open>identity\<close> of \<open>pg_identify_object\<close>, the first of which may be NULL.\<close>

record identity =
  object_schema :: "string option"
  object_identity :: string

record catalog =
  pg_depend :: "depend list"
  namespaces :: "(string \<times> nat) list"
  identify_object :: "address \<Rightarrow> identity"

section \<open>The query\<close>

text \<open>
  \<open>edges\<close>: from a referenced object to what depends on it, and, for internal dependencies
  (\<open>deptype='i'\<close>), also from the dependent object to its owner.
\<close>

definition edges :: "catalog \<Rightarrow> (address \<times> address) list" where
  "edges c =
     map (\<lambda>d. ((refclassid d, refobjid d), (classid d, objid d))) (pg_depend c) @
     map (\<lambda>d. ((classid d, objid d), (refclassid d, refobjid d)))
       (filter (\<lambda>d. deptype d = CHR ''i'') (pg_depend c))"

definition schema_addresses :: "catalog \<Rightarrow> string \<Rightarrow> address list" where
  "schema_addresses c s = map (\<lambda>(n, i). (PgNamespace, i)) (filter (\<lambda>(n, i). n = s) (namespaces c))"

text \<open>\<open>affected\<close>: the recursive term joins what is known with the edges until nothing is new.\<close>

definition new_targets :: "(address \<times> address) list \<Rightarrow> address list \<Rightarrow> address list" where
  "new_targets es known =
     map snd (filter (\<lambda>(a, b). List.member known a \<and> \<not> List.member known b) es)"

lemma new_targets_iff:
  "b \<in> set (new_targets es known) \<longleftrightarrow> (\<exists>a \<in> set known. (a, b) \<in> set es) \<and> b \<notin> set known"
  by (force simp: new_targets_def)

function affected :: "(address \<times> address) list \<Rightarrow> address list \<Rightarrow> address list" where
  "affected es known =
     (if new_targets es known = [] then known else affected es (known @ new_targets es known))"
  by pat_completeness auto
termination
proof (relation "measure (\<lambda>(es, known). card (set (map snd es) - set known))")
  fix es known
  assume new: "new_targets es known \<noteq> []"
  then obtain b where b: "b \<in> set (new_targets es known)" by (cases "new_targets es known") auto
  then have "b \<in> set (map snd es)" and "b \<notin> set known"
    by (force simp: new_targets_iff)+
  with b have "set (map snd es) - set (known @ new_targets es known) \<subset> set (map snd es) - set known"
    by auto
  then show "((es, known @ new_targets es known), es, known)
      \<in> measure (\<lambda>(es, known). card (set (map snd es) - set known))"
    by (simp add: psubset_card_mono)
qed simp

declare affected.simps [simp del]

text \<open>
  \<open>LIKE 'pg_toast%'\<close>, where the underscore matches any one character, and the \<open>WHERE\<close> clause, with
  the comparisons on a NULL schema not true.
\<close>

definition like_pg_toast :: "string \<Rightarrow> bool" where
  "like_pg_toast s \<longleftrightarrow> length s \<ge> 8 \<and> take 2 s = ''pg'' \<and> take 5 (drop 3 s) = ''toast''"

definition local_class :: "class_name \<Rightarrow> bool" where
  "local_class c \<longleftrightarrow> c = PgNamespace \<or> c = PgAttrdef \<or> c = PgRewrite \<or> c = PgTrigger \<or>
     c = PgPolicy \<or> c = PgConstraint"

definition external :: "catalog \<Rightarrow> string \<Rightarrow> address \<Rightarrow> bool" where
  "external c s a =
     (case object_schema (identify_object c a) of
        Some n \<Rightarrow> n \<noteq> s \<and> \<not> like_pg_toast n
      | None \<Rightarrow> \<not> local_class (fst a))"

text \<open>The rows of \<open>SELECT i.identity ... LIMIT 1\<close>: one of the external objects, or none.\<close>

definition dependency_query :: "catalog \<Rightarrow> string \<Rightarrow> string option" where
  "dependency_query c s =
     (case filter (external c s) (affected (edges c) (schema_addresses c s)) of
        [] \<Rightarrow> None
      | a # _ \<Rightarrow> Some (object_identity (identify_object c a)))"

section \<open>The closure is the transitive one\<close>

lemma affected_set: "set (affected es known) = (set es)\<^sup>* `` set known"
proof (induction es known rule: affected.induct)
  case (1 es known)
  show ?case
  proof (cases "new_targets es known = []")
    case True
    have closed: "b \<in> set known" if "a \<in> set known" "(a, b) \<in> set es" for a b
    proof (rule ccontr)
      assume "b \<notin> set known"
      with that have "b \<in> set (new_targets es known)" by (auto simp: new_targets_iff)
      with True show False by simp
    qed
    have "b \<in> set known" if "(a, b) \<in> (set es)\<^sup>*" "a \<in> set known" for a b
      using that by (induction rule: rtrancl_induct) (auto intro: closed)
    with True show ?thesis by (subst affected.simps) auto
  next
    case False
    have step: "b \<in> (set es)\<^sup>* `` set known" if "b \<in> set (new_targets es known)" for b
      using that by (auto simp: new_targets_iff)
    have sub: "set (new_targets es known) \<subseteq> (set es)\<^sup>* `` set known"
      using step by blast
    have "(set es)\<^sup>* `` ((set es)\<^sup>* `` set known) = (set es)\<^sup>* `` set known"
      by (simp add: relcomp_Image [symmetric])
    then have "(set es)\<^sup>* `` set (new_targets es known) \<subseteq> (set es)\<^sup>* `` set known"
      using Image_mono [OF subset_refl sub, of "(set es)\<^sup>*"] by simp
    then have "(set es)\<^sup>* `` set (known @ new_targets es known) = (set es)\<^sup>* `` set known"
      by (auto simp: Image_Un)
    with 1 [OF False] False show ?thesis by (subst affected.simps) simp
  qed
qed

text \<open>
  C31: the dependency query finds nothing exactly when no object reachable from the schema, along
  dependencies and back along internal ones, lies outside the schema; otherwise the object it
  names is such an object. So a schema that passes is dropped without touching another one.
\<close>

theorem dependency_query_exact:
  "(dependency_query c s = None \<longleftrightarrow>
      (\<forall>a n. (s, n) \<in> set (namespaces c) \<and> ((PgNamespace, n), a) \<in> (set (edges c))\<^sup>* \<longrightarrow>
         (case object_schema (identify_object c a) of
            Some n \<Rightarrow> n = s \<or> like_pg_toast n | None \<Rightarrow> local_class (fst a)))) \<and>
   (\<forall>i. dependency_query c s = Some i \<longrightarrow>
      (\<exists>a n. (s, n) \<in> set (namespaces c) \<and> ((PgNamespace, n), a) \<in> (set (edges c))\<^sup>* \<and>
         external c s a \<and> i = object_identity (identify_object c a)))"
proof -
  let ?A = "affected (edges c) (schema_addresses c s)"
  have reach: "a \<in> set ?A \<longleftrightarrow>
      (\<exists>n. (s, n) \<in> set (namespaces c) \<and> ((PgNamespace, n), a) \<in> (set (edges c))\<^sup>*)" for a
    by (force simp: affected_set schema_addresses_def)
  have ext: "\<not> external c s a \<longleftrightarrow> (case object_schema (identify_object c a) of
            Some n \<Rightarrow> n = s \<or> like_pg_toast n | None \<Rightarrow> local_class (fst a))" for a
    by (auto simp: external_def split: option.splits)
  have none: "dependency_query c s = None \<longleftrightarrow> (\<forall>a \<in> set ?A. \<not> external c s a)"
    by (cases "filter (external c s) ?A") (force simp: dependency_query_def filter_empty_conv filter_eq_Cons_iff)+
  have some: "\<exists>a \<in> set ?A. external c s a \<and> i = object_identity (identify_object c a)"
    if "dependency_query c s = Some i" for i
    using that by (auto simp: dependency_query_def split: list.splits dest!: filter_eq_ConsD)
  show ?thesis
    using some by (intro conjI allI impI) (auto simp: none reach ext [symmetric], blast+)
qed

definition sample_catalog :: catalog where
  "sample_catalog =
     \<lparr>pg_depend = [\<lparr>classid = PgOther 1, objid = 10, refclassid = PgNamespace, refobjid = 7, deptype = CHR ''n''\<rparr>,
                   \<lparr>classid = PgOther 1, objid = 11, refclassid = PgOther 1, refobjid = 10, deptype = CHR ''n''\<rparr>],
      namespaces = [(''islet'', 7), (''public'', 8)],
      identify_object = (\<lambda>a. if a = (PgOther 1, 10) then \<lparr>object_schema = Some ''islet'', object_identity = ''islet.t''\<rparr>
        else if a = (PgOther 1, 11) then \<lparr>object_schema = Some ''public'', object_identity = ''public.v''\<rparr>
        else \<lparr>object_schema = None, object_identity = ''''\<rparr>)\<rparr>"

theorem dependency_query_exact_witness:
  "dependency_query sample_catalog ''islet'' \<noteq> None"
proof -
  have e: "((PgNamespace, 7), (PgOther 1, 10)) \<in> set (edges sample_catalog)"
    "((PgOther 1, 10), (PgOther 1, 11)) \<in> set (edges sample_catalog)"
    by (simp_all add: edges_def sample_catalog_def)
  have r: "((PgNamespace, 7), (PgOther 1, 11)) \<in> (set (edges sample_catalog))\<^sup>*"
    using e by (meson r_into_rtrancl rtrancl_trans)
  have "\<not> (case object_schema (identify_object sample_catalog (PgOther 1, 11)) of
      Some n \<Rightarrow> n = ''islet'' \<or> like_pg_toast n | None \<Rightarrow> local_class (fst (PgOther 1, 11::nat)))"
    and "(''islet'', 7) \<in> set (namespaces sample_catalog)"
    by (simp_all add: sample_catalog_def like_pg_toast_def)
  with r show ?thesis
    using conjunct1 [OF dependency_query_exact, of sample_catalog "''islet''"] by blast
qed

end
