(* ===== verification/Database.thy ===== *)
theory Database
  imports Identifiers Result Dependencies
begin

text \<open>
  The part of PostgreSQL that the module's SQL talks about, and the calls that carry it: the table
  \<open>pgislet_internal.islets\<close>, the schemas, roles and privileges the lifecycle statements create and
  drop, the effect of each of those statements, and \<open>pgx\<close>'s pool and transactions. Everything the
  sources cannot decide is a field of the record \<open>env\<close>: which call fails and how, whether a failed
  commit took effect, what other sessions do between two transactions, which row is locked, what
  the random source and the clock give, what the catalogs hold, and what a user's statement
  answers and does.
\<close>

section \<open>Tables, schemas, roles and privileges\<close>

text \<open>A row of \<open>pgislet_internal.islets\<close>; \<open>id\<close> is the key the row is stored under.\<close>

record islet_row =
  schema_name :: string
  role_name :: string
  row_password :: string
  row_state :: string
  row_generation :: int
  init_token :: "string option"
  row_created :: int
  row_updated :: int

type_synonym table = "(string \<times> islet_row) list"

datatype privilege =
    UsageOn string
  | CreateIn string
  | ConnectTo string
  | CreateOn string
  | TemporaryOn string
  | ExecuteOn string

record role_attrs =
  Login :: bool
  Superuser :: bool
  CreateDB :: bool
  CreateRoles :: bool
  Inherit :: bool
  Replication :: bool
  BypassRLS :: bool
  role_password :: string
  settings :: "string \<rightharpoonup> string"

text \<open>
  What \<open>New\<close> finds of an installation: the version of the server, the current database and user, the
  owners of the module's own schemas, the row of \<open>pgislet_internal.version\<close>, whether the table of islets exists, and which
  of the functions of \<open>pgislet_api\<close> do.
\<close>

record installation =
  ServerVersion :: int
  CurrentDatabase :: string
  CurrentUser :: string
  SchemaOwner :: "string \<rightharpoonup> string"
  InternalVersion :: "int option"
  HasRegistry :: bool
  HasFunctions :: "string set"

text \<open>
  \<open>schemas\<close> gives each existing schema its contents, as far as they matter here the list of the
  statements that made them; \<open>grants\<close> are the privileges on schemas, databases and functions, by
  grantee; \<open>owners\<close> are the roles that own an object outside their islet's schema.
\<close>

record db =
  islets :: table
  schemas :: "string \<rightharpoonup> string list"
  roles :: "string \<rightharpoonup> role_attrs"
  grants :: "(string \<times> privilege) set"
  owners :: "string set"
  inst :: installation

text \<open>\<open>SELECT ... WHERE id=$1\<close>.\<close>

definition row_of :: "db \<Rightarrow> string \<Rightarrow> islet_row option" where
  "row_of d i = map_of (islets d) i"

section \<open>Statements\<close>

text \<open>
  The management statements of \<open>lifecycle.go\<close>, one constructor for each form. \<open>CreateRole\<close> stands
  for the one set of attributes the source writes, \<open>LOGIN\<close> and six negative ones.
\<close>

datatype command =
    CreateRole string string
  | AlterRoleSet string string string
  | CreateSchema string
  | RevokeSchema string string
  | GrantSchema string string
  | GrantConnect string string
  | GrantUsage string string
  | GrantExecute "string list" string
  | DropSchemaCascade string
  | RevokeDatabase string string
  | RevokeFunctions "string list" string
  | DropRole string

definition public_role :: string where
  "public_role = ''public''"

definition on_schema :: "string \<Rightarrow> privilege \<Rightarrow> bool" where
  "on_schema s p \<longleftrightarrow> p = UsageOn s \<or> p = CreateIn s"

definition revoke :: "(string \<Rightarrow> privilege \<Rightarrow> bool) \<Rightarrow> db \<Rightarrow> db" where
  "revoke P d = d\<lparr>grants := Set.filter (\<lambda>(r, p). \<not> P r p) (grants d)\<rparr>"

definition grant :: "string \<Rightarrow> privilege list \<Rightarrow> db \<Rightarrow> db" where
  "grant r ps d = d\<lparr>grants := set (map (Pair r) ps) \<union> grants d\<rparr>"

text \<open>A statement on a role that does not exist is an error; PUBLIC always exists.\<close>

definition with_role :: "string \<Rightarrow> db \<Rightarrow> db \<Rightarrow> go_error + db" where
  "with_role r d d' = (if r \<noteq> public_role \<and> roles d r = None then Inl (sqlstate ''42704'') else Inr d')"

definition with_schema :: "string \<Rightarrow> db \<Rightarrow> go_error + db \<Rightarrow> go_error + db" where
  "with_schema s d x = (if schemas d s = None then Inl (sqlstate ''3F000'') else x)"

text \<open>A role that holds a privilege or owns an object cannot be dropped (\<open>2BP01\<close>).\<close>

definition role_in_use :: "string \<Rightarrow> db \<Rightarrow> bool" where
  "role_in_use r d \<longleftrightarrow> (\<exists>g \<in> grants d. fst g = r) \<or> r \<in> owners d"

fun run_command :: "command \<Rightarrow> db \<Rightarrow> go_error + db" where
  "run_command (CreateRole r p) d =
     (if roles d r \<noteq> None then Inl (sqlstate ''42710'')
      else Inr (d\<lparr>roles := (roles d)(r \<mapsto>
             \<lparr>Login = True, Superuser = False, CreateDB = False, CreateRoles = False, Inherit = False,
              Replication = False, BypassRLS = False, role_password = p, settings = Map.empty\<rparr>)\<rparr>))"
| "run_command (AlterRoleSet r name value) d =
     (case roles d r of
        None \<Rightarrow> Inl (sqlstate ''42704'')
      | Some a \<Rightarrow> Inr (d\<lparr>roles := (roles d)(r \<mapsto> a\<lparr>settings := (settings a)(name \<mapsto> value)\<rparr>)\<rparr>))"
| "run_command (CreateSchema s) d =
     (if schemas d s \<noteq> None then Inl (sqlstate ''42P06'')
      else Inr (d\<lparr>schemas := (schemas d)(s \<mapsto> [])\<rparr>))"
| "run_command (RevokeSchema s r) d =
     with_schema s d (with_role r d (revoke (\<lambda>r' p. r' = r \<and> on_schema s p) d))"
| "run_command (GrantSchema s r) d = with_schema s d (with_role r d (grant r [UsageOn s, CreateIn s] d))"
| "run_command (GrantConnect c r) d = with_role r d (grant r [ConnectTo c] d)"
| "run_command (GrantUsage s r) d = with_schema s d (with_role r d (grant r [UsageOn s] d))"
| "run_command (GrantExecute fs r) d = with_role r d (grant r (map ExecuteOn fs) d)"
| "run_command (DropSchemaCascade s) d =
     with_schema s d (Inr (revoke (\<lambda>r p. on_schema s p) (d\<lparr>schemas := (schemas d)(s := None)\<rparr>)))"
| "run_command (RevokeDatabase c r) d = with_role r d (revoke (\<lambda>r' p. r' = r \<and> p = ConnectTo c) d)"
| "run_command (RevokeFunctions fs r) d =
     with_role r d (revoke (\<lambda>r' p. r' = r \<and> (\<exists>f \<in> set fs. p = ExecuteOn f)) d)"
| "run_command (DropRole r) d =
     (if roles d r = None then Inl (sqlstate ''42704'')
      else if role_in_use r d then Inl (sqlstate ''2BP01'')
      else Inr (d\<lparr>roles := (roles d)(r := None)\<rparr>))"

text \<open>Several statements sent at once: the first that fails is the error of all of them.\<close>

fun run_commands :: "command list \<Rightarrow> db \<Rightarrow> go_error + db" where
  "run_commands [] d = Inr d"
| "run_commands (c # cs) d = (case run_command c d of Inl e \<Rightarrow> Inl e | Inr d' \<Rightarrow> run_commands cs d')"

text \<open>The statements on the table: its key and its two \<open>UNIQUE\<close> columns, and updates by key.\<close>

definition insert_row :: "string \<Rightarrow> islet_row \<Rightarrow> db \<Rightarrow> go_error + db" where
  "insert_row i r d =
     (if list_ex (\<lambda>(j, s). j = i \<or> schema_name s = schema_name r \<or> role_name s = role_name r) (islets d)
      then Inl (sqlstate ''23505'')
      else Inr (d\<lparr>islets := islets d @ [(i, r)]\<rparr>))"

definition update_row :: "string \<Rightarrow> (islet_row \<Rightarrow> islet_row) \<Rightarrow> db \<Rightarrow> db" where
  "update_row i f d = d\<lparr>islets := map (\<lambda>(j, r). (j, if j = i then f r else r)) (islets d)\<rparr>"

definition delete_row :: "string \<Rightarrow> db \<Rightarrow> db" where
  "delete_row i d = d\<lparr>islets := filter (\<lambda>(j, r). j \<noteq> i) (islets d)\<rparr>"

text \<open>\<open>NULLIF(x,'')\<close>.\<close>

definition nullif_empty :: "string \<Rightarrow> string option" where
  "nullif_empty s = (if s = [] then None else Some s)"

section \<open>Facts about the statements\<close>

lemma map_of_filter_key: "map_of (filter (\<lambda>(j, r). j \<noteq> i) xs) k = (if k = i then None else map_of xs k)"
  by (induction xs) auto

lemma map_of_update_key:
  "map_of (map (\<lambda>(j, r). (j, if j = i then f r else r)) xs) k =
     (if k = i then map_option f (map_of xs k) else map_of xs k)"
  by (induction xs) auto

lemma row_of_update [simp]:
  "row_of (update_row i f d) k = (if k = i then map_option f (row_of d k) else row_of d k)"
  by (simp add: row_of_def update_row_def map_of_update_key)

lemma row_of_delete [simp]: "row_of (delete_row i d) k = (if k = i then None else row_of d k)"
  by (simp add: row_of_def delete_row_def map_of_filter_key)

lemma row_of_insert:
  assumes "insert_row i r d = Inr d'"
  shows "row_of d i = None \<and> row_of d' = (row_of d)(i \<mapsto> r)"
proof -
  from assms have no: "i \<notin> fst ` set (islets d)" and d': "d' = d\<lparr>islets := islets d @ [(i, r)]\<rparr>"
    by (auto simp: insert_row_def list_ex_iff split: if_splits)
  from no have "map_of (islets d) i = None" by (simp add: map_of_eq_None_iff)
  then show ?thesis
    by (auto simp: row_of_def d' map_add_def fun_eq_iff split: option.splits)
qed

lemma table_frame [simp]:
  "schemas (update_row i f d) = schemas d" "roles (update_row i f d) = roles d"
  "grants (update_row i f d) = grants d" "owners (update_row i f d) = owners d" "inst (update_row i f d) = inst d"
  "schemas (delete_row i d) = schemas d" "roles (delete_row i d) = roles d"
  "grants (delete_row i d) = grants d" "owners (delete_row i d) = owners d" "inst (delete_row i d) = inst d"
  by (simp_all add: update_row_def delete_row_def)

lemma insert_row_frame:
  "insert_row i r d = Inr d' \<Longrightarrow>
     schemas d' = schemas d \<and> roles d' = roles d \<and> grants d' = grants d \<and> owners d' = owners d \<and> inst d' = inst d"
  by (auto simp: insert_row_def split: if_splits)

lemma revoke_sel [simp]:
  "islets (revoke P d) = islets d" "schemas (revoke P d) = schemas d" "roles (revoke P d) = roles d"
  "owners (revoke P d) = owners d" "inst (revoke P d) = inst d" "(r, p) \<in> grants (revoke P d) \<longleftrightarrow> (r, p) \<in> grants d \<and> \<not> P r p"
  by (auto simp: revoke_def)

lemma grant_sel [simp]:
  "islets (grant r ps d) = islets d" "schemas (grant r ps d) = schemas d" "roles (grant r ps d) = roles d"
  "owners (grant r ps d) = owners d" "inst (grant r ps d) = inst d"
  "(q, p) \<in> grants (grant r ps d) \<longleftrightarrow> (q = r \<and> p \<in> set ps) \<or> (q, p) \<in> grants d"
  by (auto simp: grant_def)

lemma with_Inr [simp]:
  "with_role r d d' = Inr x \<longleftrightarrow> (r = public_role \<or> roles d r \<noteq> None) \<and> x = d'"
  "with_schema s d y = Inr x \<longleftrightarrow> schemas d s \<noteq> None \<and> y = Inr x"
  by (auto simp: with_role_def with_schema_def)

text \<open>No management statement touches the table or the owners, and statements compose.\<close>

lemma run_command_frame: "run_command c d = Inr d' \<Longrightarrow> islets d' = islets d \<and> owners d' = owners d \<and> inst d' = inst d"
  by (cases c) (auto simp: with_role_def with_schema_def split: if_splits option.splits)

lemma run_commands_frame: "run_commands cs d = Inr d' \<Longrightarrow> islets d' = islets d \<and> owners d' = owners d \<and> inst d' = inst d"
  by (induction cs arbitrary: d) (auto dest!: run_command_frame split: sum.splits)

lemma run_commands_append:
  "run_commands (xs @ ys) d = (case run_commands xs d of Inl e \<Rightarrow> Inl e | Inr d' \<Rightarrow> run_commands ys d')"
  by (induction xs arbitrary: d) (auto split: sum.splits)

text \<open>The errors of the statements are PostgreSQL's.\<close>

lemma sqlstate_pg [simp]: "pgconn_error (sqlstate c)" "\<not> errors_is (sqlstate c) k" "as_pg (sqlstate c) \<noteq> None"
  by (simp_all add: pgconn_error_def sqlstate_def)

lemma run_command_error: "run_command c d = Inl e \<Longrightarrow> \<exists>code. e = sqlstate code"
  by (cases c) (auto simp: with_role_def with_schema_def split: if_splits option.splits)

lemma run_commands_error: "run_commands cs d = Inl e \<Longrightarrow> \<exists>code. e = sqlstate code"
  by (induction cs arbitrary: d) (auto dest: run_command_error split: sum.splits)

end
