(* ===== verification/Session.thy ===== *)
theory Session
  imports Database
begin

text \<open>
  Connections and transactions (\<open>internal/engine/connection.go\<close> and the \<open>pgx\<close> calls of the
  engine). A manager's call runs against a \<open>world\<close>: the committed database and the number of server
  calls made so far, by which the environment \<open>env\<close> decides what each of them meets. A transaction
  is a value of its own: the database as it sees it, the last savepoint, and whether the connection
  still takes statements. Other sessions act when a transaction begins and before each statement
  outside one; within a transaction the rows it has read are locked.
\<close>

section \<open>The environment\<close>

text \<open>A value given to a sequence: its schema, its name and the value.\<close>

type_synonym advance = "string \<times> string \<times> int"

record env =
  Fault :: "nat \<Rightarrow> err"
  CommitFault :: "nat \<Rightarrow> (go_error \<times> bool) option"
  Others :: "nat \<Rightarrow> db \<Rightarrow> db"
  Busy :: "nat \<Rightarrow> bool"
  Rand :: "nat \<Rightarrow> go_error + nat list"
  Clock :: "nat \<Rightarrow> nat \<Rightarrow> int"
  Catalog :: "nat \<Rightarrow> db \<Rightarrow> catalog"
  ProcNames :: "nat \<Rightarrow> string \<Rightarrow> db \<Rightarrow> string list"
  Run :: "nat \<Rightarrow> string \<Rightarrow> string \<Rightarrow> db \<Rightarrow> reply \<times> db"
  Advances :: "nat \<Rightarrow> string \<Rightarrow> string \<Rightarrow> db \<Rightarrow> advance list"

text \<open>
  What a rollback takes back is in \<open>store\<close>. What it does not, the values that the statements of this
  process gave to sequences (\<open>nextval\<close>, \<open>setval\<close>), is the log \<open>advanced\<close>.
\<close>

record world =
  store :: db
  tick :: nat
  advanced :: "advance list"

datatype status = Healthy | Aborted | Broken

record tx =
  View :: db
  Saved :: "db option"
  Status :: status

definition bump :: "world \<Rightarrow> world" where
  "bump w = w\<lparr>tick := tick w + 1\<rparr>"

lemma store_bump [simp]: "store (bump w) = store w" "advanced (bump w) = advanced w"
  by (simp_all add: bump_def)

text \<open>\<open>Clock ev n k\<close> is the \<open>k\<close>th reading of a clock in call \<open>n\<close>. Other sessions commit.\<close>

definition interfere :: "env \<Rightarrow> world \<Rightarrow> world" where
  "interfere ev w = w\<lparr>store := Others ev (tick w) (store w)\<rparr>"

text \<open>
  After an error PostgreSQL reports, the transaction is aborted and takes only a rollback; after
  any other (an expired context, a lost connection) \<open>pgx\<close> has closed the connection.
\<close>

definition status_after :: "go_error \<Rightarrow> status" where
  "status_after e = (if pgconn_error e then Aborted else Broken)"

text \<open>What a statement gets without reaching the server, on an aborted or a broken transaction.\<close>

definition in_failed_tx :: go_error where
  "in_failed_tx = sqlstate ''25P02''"

definition conn_closed :: go_error where
  "conn_closed = Errorf ''conn closed''"

section \<open>Statements in a transaction\<close>

text \<open>
  One call in a transaction: the statement is a function from the view to an error of PostgreSQL or
  to a result and the new view.
\<close>

definition tx_call ::
  "env \<Rightarrow> (nat \<Rightarrow> db \<Rightarrow> go_error + ('a \<times> db)) \<Rightarrow> tx \<Rightarrow> world \<Rightarrow> (go_error + 'a) \<times> tx \<times> world" where
  "tx_call ev f t w =
     (case Status t of
        Broken \<Rightarrow> (Inl conn_closed, t, bump w)
      | Aborted \<Rightarrow> (Inl in_failed_tx, t, bump w)
      | Healthy \<Rightarrow>
          (case Fault ev (tick w) of
             Some e \<Rightarrow> (Inl e, t\<lparr>Status := status_after e\<rparr>, bump w)
           | None \<Rightarrow>
               (case f (tick w) (View t) of
                  Inl e \<Rightarrow> (Inl e, t\<lparr>Status := status_after e\<rparr>, bump w)
                | Inr (a, v) \<Rightarrow> (Inr a, t\<lparr>View := v\<rparr>, bump w))))"

definition exec_error :: "(go_error + unit) \<times> tx \<times> world \<Rightarrow> err \<times> tx \<times> world" where
  "exec_error x = (case x of (r, t, w) \<Rightarrow> ((case r of Inl e \<Rightarrow> Some e | Inr _ \<Rightarrow> None), t, w))"

text \<open>\<open>tx.Exec\<close> of management statements, and of a statement given by its effect.\<close>

definition tx_exec :: "env \<Rightarrow> command list \<Rightarrow> tx \<Rightarrow> world \<Rightarrow> err \<times> tx \<times> world" where
  "tx_exec ev cs t w =
     exec_error (tx_call ev (\<lambda>_ v. case run_commands cs v of Inl e \<Rightarrow> Inl e | Inr v' \<Rightarrow> Inr ((), v')) t w)"

definition tx_change :: "env \<Rightarrow> (int \<Rightarrow> db \<Rightarrow> go_error + db) \<Rightarrow> tx \<Rightarrow> world \<Rightarrow> err \<times> tx \<times> world" where
  "tx_change ev f t w =
     exec_error (tx_call ev (\<lambda>n v. case f (Clock ev n 0) v of Inl e \<Rightarrow> Inl e | Inr v' \<Rightarrow> Inr ((), v')) t w)"

text \<open>\<open>SAVEPOINT cleanup\<close> and \<open>ROLLBACK TO SAVEPOINT cleanup\<close>, which also leaves the aborted state.\<close>

definition savepoint :: "env \<Rightarrow> tx \<Rightarrow> world \<Rightarrow> err \<times> tx \<times> world" where
  "savepoint ev t w =
     (case exec_error (tx_call ev (\<lambda>_ v. Inr ((), v)) t w) of
        (None, t', w') \<Rightarrow> (None, t'\<lparr>Saved := Some (View t')\<rparr>, w')
      | x \<Rightarrow> x)"

definition rollback_to :: "env \<Rightarrow> tx \<Rightarrow> world \<Rightarrow> err \<times> tx \<times> world" where
  "rollback_to ev t w =
     (case Saved t of
        None \<Rightarrow> (Some (sqlstate ''3B001''), t\<lparr>Status := (if Status t = Broken then Broken else Aborted)\<rparr>, bump w)
      | Some v \<Rightarrow>
          if Status t = Broken then (Some conn_closed, t, bump w)
          else (case Fault ev (tick w) of
                  Some e \<Rightarrow> (Some e, t\<lparr>Status := status_after e\<rparr>, bump w)
                | None \<Rightarrow> (None, t\<lparr>View := v, Status := Healthy\<rparr>, bump w)))"

section \<open>Begin, commit, rollback\<close>

definition begin_tx :: "env \<Rightarrow> world \<Rightarrow> (go_error + tx) \<times> world" where
  "begin_tx ev w0 =
     (let w = interfere ev w0
      in case Fault ev (tick w) of
           Some e \<Rightarrow> (Inl e, bump w)
         | None \<Rightarrow> (Inr \<lparr>View = store w, Saved = None, Status = Healthy\<rparr>, bump w))"

text \<open>
  \<open>tx.Commit\<close>: on an aborted transaction the server answers \<open>ROLLBACK\<close> and \<open>pgx\<close> returns
  \<open>ErrTxCommitRollback\<close>. A commit that PostgreSQL refuses has no effect; one that fails otherwise
  (the answer is lost) may have had its effect or not.
\<close>

definition tx_commit :: "env \<Rightarrow> tx \<Rightarrow> world \<Rightarrow> err \<times> world" where
  "tx_commit ev t w =
     (case Status t of
        Broken \<Rightarrow> (Some conn_closed, bump w)
      | Aborted \<Rightarrow> (Some (Sentinel TxCommitRollback), bump w)
      | Healthy \<Rightarrow>
          (case CommitFault ev (tick w) of
             None \<Rightarrow> (None, bump (w\<lparr>store := View t\<rparr>))
           | Some (e, applied) \<Rightarrow>
               (Some e, bump (if applied \<and> \<not> pgconn_error e then w\<lparr>store := View t\<rparr> else w))))"

text \<open>\<open>commit\<close>.\<close>

definition commit :: "env \<Rightarrow> tx \<Rightarrow> world \<Rightarrow> err \<times> world" where
  "commit ev t w =
     (case tx_commit ev t w of
        (None, w') \<Rightarrow> (None, w')
      | (Some e, w') \<Rightarrow>
          if pgconn_error e then (classify (Some e), w')
          else (Some (wrap ErrOutcomeUnknown (Some e)), w'))"

text \<open>
  \<open>rollback\<close> and \<open>closeRuntime\<close>, deferred: what the transaction did and did not commit is dropped,
  and their own errors are ignored.
\<close>

definition rollback :: "world \<Rightarrow> world" where
  "rollback w = bump w"

definition close_runtime :: "world \<Rightarrow> world" where
  "close_runtime w = bump w"

section \<open>Statements outside a transaction\<close>

text \<open>
  \<open>pool.QueryRow\<close> of a query, which reads the committed database, and \<open>pool.Exec\<close> of an update, a
  transaction of its own.
\<close>

definition pool_query :: "env \<Rightarrow> (nat \<Rightarrow> db \<Rightarrow> 'a) \<Rightarrow> world \<Rightarrow> (go_error + 'a) \<times> world" where
  "pool_query ev f w =
     ((case Fault ev (tick w) of Some e \<Rightarrow> Inl e | None \<Rightarrow> Inr (f (tick w) (store w))), bump w)"

definition pool_exec :: "env \<Rightarrow> (int \<Rightarrow> db \<Rightarrow> db) \<Rightarrow> world \<Rightarrow> err \<times> world" where
  "pool_exec ev f w0 =
     (let w = interfere ev w0
      in case Fault ev (tick w) of
           Some e \<Rightarrow> (Some e, bump w)
         | None \<Rightarrow>
             tx_commit ev \<lparr>View = f (Clock ev (tick w) 0) (store w), Saved = None, Status = Healthy\<rparr> w)"

section \<open>Laws\<close>

lemma status_after_not_healthy [simp]: "status_after e \<noteq> Healthy"
  by (simp add: status_after_def)

text \<open>No statement of an open transaction reaches the committed database.\<close>

lemma tx_call_law:
  assumes "tx_call ev f t w = (r, t', w')"
  shows "store w' = store w \<and> Saved t' = Saved t \<and>
     (case r of
        Inr a \<Rightarrow> Status t = Healthy \<and> Status t' = Healthy \<and> f (tick w) (View t) = Inr (a, View t')
      | Inl e \<Rightarrow> View t' = View t \<and> Status t' \<noteq> Healthy)"
  using assms
  by (auto simp: tx_call_def split: status.splits option.splits sum.splits)

lemma exec_error_call:
  assumes "exec_error (tx_call ev f t w) = (e, t', w')"
  shows "store w' = store w \<and> Saved t' = Saved t \<and>
     (e = None \<longrightarrow> Status t = Healthy \<and> Status t' = Healthy \<and> f (tick w) (View t) = Inr ((), View t')) \<and>
     (e \<noteq> None \<longrightarrow> View t' = View t \<and> Status t' \<noteq> Healthy)"
proof -
  obtain r t0 w0 where c: "tx_call ev f t w = (r, t0, w0)"
    by (cases "tx_call ev f t w") auto
  show ?thesis
    using assms tx_call_law [OF c] by (cases r) (auto simp: exec_error_def c)
qed

text \<open>Only a user's statement moves sequences.\<close>

lemma tx_call_advanced: "tx_call ev f t w = (r, t', w') \<Longrightarrow> advanced w' = advanced w"
  by (auto simp: tx_call_def split: status.splits option.splits sum.splits)

lemma exec_error_advanced: "exec_error (tx_call ev f t w) = (e, t', w') \<Longrightarrow> advanced w' = advanced w"
  by (cases "tx_call ev f t w") (auto simp: exec_error_def dest: tx_call_advanced)

lemma begin_tx_advanced: "begin_tx ev w = (r, w') \<Longrightarrow> advanced w' = advanced w"
  by (auto simp: begin_tx_def interfere_def Let_def split: option.splits)

lemma commit_advanced: "commit ev t w = (e, w') \<Longrightarrow> advanced w' = advanced w"
  by (auto simp: commit_def tx_commit_def split: status.splits option.splits if_splits prod.splits)

lemma pool_query_advanced: "pool_query ev f w = (r, w') \<Longrightarrow> advanced w' = advanced w"
  by (auto simp: pool_query_def)

lemma tx_exec_law:
  assumes "tx_exec ev cs t w = (e, t', w')"
  shows "store w' = store w \<and> Saved t' = Saved t \<and>
     (e = None \<longrightarrow> Status t = Healthy \<and> Status t' = Healthy \<and> run_commands cs (View t) = Inr (View t')) \<and>
     (e \<noteq> None \<longrightarrow> View t' = View t \<and> Status t' \<noteq> Healthy)"
  using exec_error_call [OF assms [unfolded tx_exec_def]] by (auto split: sum.splits)

lemma tx_change_law:
  assumes "tx_change ev f t w = (e, t', w')"
  shows "store w' = store w \<and> Saved t' = Saved t \<and>
     (e = None \<longrightarrow> Status t = Healthy \<and> Status t' = Healthy \<and> f (Clock ev (tick w) 0) (View t) = Inr (View t')) \<and>
     (e \<noteq> None \<longrightarrow> View t' = View t \<and> Status t' \<noteq> Healthy)"
  using exec_error_call [OF assms [unfolded tx_change_def]] by (auto split: sum.splits)

lemma savepoint_law:
  assumes "savepoint ev t w = (e, t', w')"
  shows "store w' = store w \<and> View t' = View t \<and>
     (e = None \<longrightarrow> Status t' = Healthy \<and> Saved t' = Some (View t)) \<and>
     (e \<noteq> None \<longrightarrow> Status t' \<noteq> Healthy)"
proof -
  obtain e0 t0 w0 where c: "exec_error (tx_call ev (\<lambda>_ v. Inr ((), v)) t w) = (e0, t0, w0)"
    by (cases "exec_error (tx_call ev (\<lambda>_ v. Inr ((), v)) t w)") auto
  show ?thesis
    using assms exec_error_call [OF c] by (cases e0) (auto simp: savepoint_def c)
qed

lemma rollback_to_law:
  assumes "rollback_to ev t w = (e, t', w')"
  shows "store w' = store w \<and>
     (e = None \<longrightarrow> Status t' = Healthy \<and> Saved t = Some (View t')) \<and>
     (e \<noteq> None \<longrightarrow> Status t' \<noteq> Healthy)"
  using assms by (auto simp: rollback_to_def split: option.splits if_splits)

lemma begin_tx_law:
  assumes "begin_tx ev w = (r, w')"
  shows "store w' = Others ev (tick w) (store w) \<and>
     (\<forall>t. r = Inr t \<longrightarrow> View t = store w' \<and> Status t = Healthy \<and> Saved t = None)"
  using assms by (auto simp: begin_tx_def interfere_def Let_def split: option.splits)

lemma tx_commit_law:
  assumes "tx_commit ev t w = (e, w')"
  shows "store w' \<in> {store w, View t} \<and> (Status t \<noteq> Healthy \<longrightarrow> store w' = store w) \<and>
     (e = None \<longrightarrow> Status t = Healthy \<and> store w' = View t) \<and>
     (\<forall>x. e = Some x \<longrightarrow> pgconn_error x \<longrightarrow> store w' = store w)"
  using assms by (auto simp: tx_commit_def split: status.splits option.splits if_splits)

text \<open>
  \<open>commit\<close> tells the three outcomes apart: nil is a commit, \<open>ErrOutcomeUnknown\<close> leaves both
  possibilities, and any other error means that nothing was committed.
\<close>

lemma commit_law:
  assumes "commit ev t w = (e, w')"
  shows "store w' \<in> {store w, View t} \<and> (Status t \<noteq> Healthy \<longrightarrow> store w' = store w) \<and>
     (e = None \<longrightarrow> Status t = Healthy \<and> store w' = View t) \<and>
     (e \<noteq> None \<longrightarrow> \<not> is_err e ErrOutcomeUnknown \<longrightarrow> store w' = store w)"
proof -
  obtain e0 w0 where c: "tx_commit ev t w = (e0, w0)" by fastforce
  note law = tx_commit_law [OF c]
  show ?thesis
  proof (cases e0)
    case None
    with assms c law show ?thesis by (simp add: commit_def)
  next
    case (Some x)
    with assms c have w': "w' = w0" by (auto simp: commit_def split: if_splits)
    have "e \<noteq> None" using assms c Some by (auto simp: commit_def classify_Some split: if_splits)
    moreover have "pgconn_error x \<or> is_err e ErrOutcomeUnknown"
      using assms c Some by (auto simp: commit_def split: if_splits)
    ultimately show ?thesis using law Some w' by auto
  qed
qed

lemma pool_query_store [simp]: "store (snd (pool_query ev f w)) = store w"
  by (simp add: pool_query_def)

lemma pool_query_law: "pool_query ev f w = (r, w') \<Longrightarrow>
    store w' = store w \<and> (\<forall>a. r = Inr a \<longrightarrow> a = f (tick w) (store w))"
  by (auto simp: pool_query_def split: option.splits)

lemma pool_exec_law:
  assumes "pool_exec ev f w = (e, w')"
  shows "\<exists>d c. d = Others ev (tick w) (store w) \<and> store w' \<in> {d, f c d} \<and> (e = None \<longrightarrow> store w' = f c d)"
proof -
  let ?d = "Others ev (tick w) (store w)"
  let ?w = "interfere ev w"
  have d: "store ?w = ?d" and n: "tick ?w = tick w" by (simp_all add: interfere_def)
  show ?thesis
  proof (cases "Fault ev (tick w)")
    case None
    with assms n have "tx_commit ev \<lparr>View = f (Clock ev (tick w) 0) ?d, Saved = None, Status = Healthy\<rparr> ?w = (e, w')"
      by (simp add: pool_exec_def Let_def d)
    from tx_commit_law [OF this] show ?thesis by (auto simp: d)
  next
    case (Some x)
    with assms n show ?thesis by (auto simp: pool_exec_def Let_def d)
  qed
qed

section \<open>Rules\<close>

text \<open>
  A property of a program that starts with a call follows from the property of its branches, under
  what the call is known to have done. The collection \<open>txn_rules\<close> walks through an operation with
  \<open>rule\<close> steps, one for each call in the source.
\<close>

lemma tx_exec_rule [txn_rules]:
  assumes "\<And>e t' w'. store w' = store w \<Longrightarrow> Saved t' = Saved t \<Longrightarrow> View t' = View t \<Longrightarrow>
      Status t' \<noteq> Healthy \<Longrightarrow> Q (A e t' w')"
    and "\<And>t' w'. store w' = store w \<Longrightarrow> Saved t' = Saved t \<Longrightarrow> Status t' = Healthy \<Longrightarrow>
      run_commands cs (View t) = Inr (View t') \<Longrightarrow> Q (B t' w')"
  shows "Q (case tx_exec ev cs t w of (Some e, t, w) \<Rightarrow> A e t w | (None, t, w) \<Rightarrow> B t w)"
proof -
  obtain r t' w' where c: "tx_exec ev cs t w = (r, t', w')" by (cases "tx_exec ev cs t w") auto
  show ?thesis using tx_exec_law [OF c] assms by (cases r) (simp_all add: c)
qed

lemma tx_change_rule [txn_rules]:
  assumes "\<And>e t' w'. store w' = store w \<Longrightarrow> Saved t' = Saved t \<Longrightarrow> View t' = View t \<Longrightarrow>
      Status t' \<noteq> Healthy \<Longrightarrow> Q (A e t' w')"
    and "\<And>t' w' now. store w' = store w \<Longrightarrow> Saved t' = Saved t \<Longrightarrow> Status t' = Healthy \<Longrightarrow>
      f now (View t) = Inr (View t') \<Longrightarrow> Q (B t' w')"
  shows "Q (case tx_change ev f t w of (Some e, t, w) \<Rightarrow> A e t w | (None, t, w) \<Rightarrow> B t w)"
proof -
  obtain r t' w' where c: "tx_change ev f t w = (r, t', w')" by (cases "tx_change ev f t w") auto
  show ?thesis using tx_change_law [OF c] assms(1) assms(2) [of w' t' "Clock ev (tick w) 0"]
    by (cases r) (simp_all add: c)
qed

lemma savepoint_rule [txn_rules]:
  assumes "\<And>e t' w'. store w' = store w \<Longrightarrow> View t' = View t \<Longrightarrow> Status t' \<noteq> Healthy \<Longrightarrow> Q (A e t' w')"
    and "\<And>t' w'. store w' = store w \<Longrightarrow> View t' = View t \<Longrightarrow> Status t' = Healthy \<Longrightarrow>
      Saved t' = Some (View t) \<Longrightarrow> Q (B t' w')"
  shows "Q (case savepoint ev t w of (Some e, t, w) \<Rightarrow> A e t w | (None, t, w) \<Rightarrow> B t w)"
proof -
  obtain r t' w' where c: "savepoint ev t w = (r, t', w')" by (cases "savepoint ev t w") auto
  show ?thesis using savepoint_law [OF c] assms by (cases r) (simp_all add: c)
qed

lemma rollback_to_rule [txn_rules]:
  assumes "\<And>e t' w'. store w' = store w \<Longrightarrow> Status t' = Healthy \<longrightarrow> Saved t = Some (View t') \<Longrightarrow> Q (A t' w')"
  shows "Q (case rollback_to ev t w of (_, t, w) \<Rightarrow> A t w)"
proof -
  obtain r t' w' where c: "rollback_to ev t w = (r, t', w')" by (cases "rollback_to ev t w") auto
  show ?thesis using rollback_to_law [OF c] assms by (cases r) (simp_all add: c)
qed

lemma tx_call_rule:
  assumes "\<And>e t' w'. store w' = store w \<Longrightarrow> Saved t' = Saved t \<Longrightarrow> View t' = View t \<Longrightarrow>
      Status t' \<noteq> Healthy \<Longrightarrow> Q (A (Inl e) t' w')"
    and "\<And>a t' w' n. store w' = store w \<Longrightarrow> Saved t' = Saved t \<Longrightarrow> Status t' = Healthy \<Longrightarrow>
      f n (View t) = Inr (a, View t') \<Longrightarrow> Q (A (Inr a) t' w')"
  shows "Q (case tx_call ev f t w of (r, t, w) \<Rightarrow> A r t w)"
proof -
  obtain r t' w' where c: "tx_call ev f t w = (r, t', w')" by (cases "tx_call ev f t w") auto
  show ?thesis using tx_call_law [OF c] assms(1) assms(2) [of w' t' "tick w"]
    by (cases r) (simp_all add: c)
qed

lemma tx_call_branch_rule [txn_rules]:
  assumes "\<And>e t' w'. store w' = store w \<Longrightarrow> Saved t' = Saved t \<Longrightarrow> View t' = View t \<Longrightarrow>
      Status t' \<noteq> Healthy \<Longrightarrow> Q (A e t' w')"
    and "\<And>a t' w' n. store w' = store w \<Longrightarrow> Saved t' = Saved t \<Longrightarrow> Status t' = Healthy \<Longrightarrow>
      f n (View t) = Inr (a, View t') \<Longrightarrow> Q (B a t' w')"
  shows "Q (case tx_call ev f t w of (Inl e, t, w) \<Rightarrow> A e t w | (Inr a, t, w) \<Rightarrow> B a t w)"
proof -
  obtain r t' w' where c: "tx_call ev f t w = (r, t', w')" by (cases "tx_call ev f t w") auto
  show ?thesis using tx_call_law [OF c] assms(1) assms(2) [of w' t' "tick w"]
    by (cases r) (simp_all add: c)
qed

lemma commit_rule [txn_rules]:
  assumes "\<And>e w'. store w' = store w \<Longrightarrow> e \<noteq> None \<Longrightarrow> Q (A e w')"
    and "\<And>e w'. store w' = View t \<Longrightarrow> Status t = Healthy \<Longrightarrow> e = None \<or> is_err e ErrOutcomeUnknown \<Longrightarrow> Q (A e w')"
  shows "Q (case commit ev t w of (e, w) \<Rightarrow> A e w)"
proof -
  obtain e w' where c: "commit ev t w = (e, w')" by (cases "commit ev t w") auto
  from commit_law [OF c] have "store w' = store w \<and> e \<noteq> None \<or>
      store w' = View t \<and> Status t = Healthy \<and> (e = None \<or> is_err e ErrOutcomeUnknown)"
    by auto
  then show ?thesis using assms by (auto simp: c)
qed

text \<open>An unknown outcome comes from a commit that failed.\<close>

lemma commit_known_rule:
  assumes "\<And>e w'. store w' = store w \<Longrightarrow> e \<noteq> None \<Longrightarrow> Q (A e w')"
    and "\<And>e w'. store w' = View t \<Longrightarrow> Status t = Healthy \<Longrightarrow>
      e = None \<or> is_err e ErrOutcomeUnknown \<and> (\<exists>n. CommitFault ev n \<noteq> None) \<Longrightarrow> Q (A e w')"
  shows "Q (case commit ev t w of (e, w) \<Rightarrow> A e w)"
proof -
  obtain e w' where c: "commit ev t w = (e, w')" by (cases "commit ev t w") auto
  show ?thesis
  proof (cases "e = None \<or> CommitFault ev (tick w) \<noteq> None")
    case True
    with commit_law [OF c] have "store w' = store w \<and> e \<noteq> None \<or>
        store w' = View t \<and> Status t = Healthy \<and>
        (e = None \<or> is_err e ErrOutcomeUnknown \<and> (\<exists>n. CommitFault ev n \<noteq> None))"
      by auto
    then show ?thesis unfolding c prod.case using assms by blast
  next
    case False
    then have "e \<noteq> None \<and> CommitFault ev (tick w) = None"
      by (simp only: de_Morgan_disj not_not simp_thms)
    note e = conjunct1 [OF this] and known = conjunct2 [OF this]
    have "store w' = store w"
    proof (cases "Status t")
      case Healthy
      with c e known show ?thesis by (simp add: commit_def tx_commit_def)
    qed (use commit_law [OF c] in simp_all)
    with False assms(1) show ?thesis by (simp add: c)
  qed
qed

end
