(* ===== verification/Gateway.thy ===== *)
theory Gateway
  imports Session
begin

text \<open>
  The two SQL functions a runtime role may call (\<open>gatewaySQL\<close> and \<open>finishSQL\<close> in
  \<open>internal/engine/bootstrap.go\<close>): \<open>enter\<close> locks the islet's row and decides whether the session may
  go on, \<open>finish\<close> ends an initialization. Their conditions are SQL's, with NULL as a third truth
  value.
\<close>

section \<open>Three-valued conditions\<close>

type_synonym sql_bool = "bool option"

definition sql_eq :: "'a option \<Rightarrow> 'a option \<Rightarrow> sql_bool" where
  "sql_eq x y = (case (x, y) of (Some a, Some b) \<Rightarrow> Some (a = b) | _ \<Rightarrow> None)"

definition sql_not :: "sql_bool \<Rightarrow> sql_bool" where
  "sql_not x = map_option Not x"

definition sql_and :: "sql_bool \<Rightarrow> sql_bool \<Rightarrow> sql_bool" where
  "sql_and x y =
     (if x = Some False \<or> y = Some False then Some False
      else if x = None \<or> y = None then None else Some True)"

definition sql_or :: "sql_bool \<Rightarrow> sql_bool \<Rightarrow> sql_bool" where
  "sql_or x y = sql_not (sql_and (sql_not x) (sql_not y))"

definition is_null :: "'a option \<Rightarrow> sql_bool" where
  "is_null x = Some (x = None)"

text \<open>\<open>IF\<close> takes its branch when the condition is true, \<open>IS NOT TRUE\<close> is its negation.\<close>

definition is_true :: "sql_bool \<Rightarrow> bool" where
  "is_true x \<longleftrightarrow> x = Some True"

lemmas sql_defs = sql_eq_def sql_not_def sql_and_def sql_or_def is_null_def is_true_def

section \<open>enter and finish\<close>

definition enter_allowed :: "islet_row \<Rightarrow> string option \<Rightarrow> sql_bool" where
  "enter_allowed r p_token =
     sql_or (sql_and (Some (row_state r = ''active'')) (is_null p_token))
       (sql_and (sql_and (Some (row_state r = ''initializing'')) (sql_not (is_null p_token)))
          (sql_eq (init_token r) p_token))"

text \<open>\<open>busy\<close> says that another transaction holds the row's lock (\<open>FOR UPDATE NOWAIT\<close>, SQLSTATE 55P03).\<close>

definition enter ::
  "bool \<Rightarrow> string \<Rightarrow> string \<Rightarrow> int option \<Rightarrow> string option \<Rightarrow> db \<Rightarrow> go_error + unit" where
  "enter busy session_user p_id p_generation p_token d =
     (case row_of d p_id of
        None \<Rightarrow> Inl (sqlstate ''PI001'')
      | Some r \<Rightarrow>
          if session_user \<noteq> role_name r then Inl (sqlstate ''PI001'')
          else if busy then Inl (sqlstate ''55P03'')
          else if is_true (sql_not (sql_eq (Some (row_generation r)) p_generation))
          then Inl (sqlstate ''PI002'')
          else if row_state r = ''failed'' then Inl (sqlstate ''PI004'')
          else if \<not> is_true (enter_allowed r p_token) then Inl (sqlstate ''PI003'')
          else Inr ())"

definition finish ::
  "bool \<Rightarrow> string \<Rightarrow> int \<Rightarrow> string \<Rightarrow> int option \<Rightarrow> string option \<Rightarrow> db \<Rightarrow> go_error + db" where
  "finish busy session_user now p_id p_generation p_token d =
     (if p_token = None then Inl (sqlstate ''PI003'')
      else case enter busy session_user p_id p_generation p_token d of
             Inl e \<Rightarrow> Inl e
           | Inr () \<Rightarrow>
               Inr (update_row p_id
                 (\<lambda>r. r\<lparr>row_state := ''active'', init_token := None, row_updated := now\<rparr>) d))"

section \<open>Calling them\<close>

definition enter_fn :: string where
  "enter_fn = ''pgislet_api.enter(text,bigint,text)''"

definition finish_fn :: string where
  "finish_fn = ''pgislet_api.finish(text,bigint,text)''"

definition api_schema :: string where
  "api_schema = ''pgislet_api''"

text \<open>A call needs \<open>USAGE\<close> on the schema and \<open>EXECUTE\<close> on the function (SQLSTATE 42501).\<close>

definition may_call :: "string \<Rightarrow> string \<Rightarrow> db \<Rightarrow> bool" where
  "may_call r f d \<longleftrightarrow> (r, UsageOn api_schema) \<in> grants d \<and> (r, ExecuteOn f) \<in> grants d"

definition call_enter ::
  "bool \<Rightarrow> string \<Rightarrow> string \<Rightarrow> int \<Rightarrow> string option \<Rightarrow> db \<Rightarrow> go_error + db" where
  "call_enter busy role i g token d =
     (if \<not> may_call role enter_fn d then Inl (sqlstate ''42501'')
      else case enter busy role i (Some g) token d of Inl e \<Rightarrow> Inl e | Inr () \<Rightarrow> Inr d)"

text \<open>\<open>finish\<close> is called in the transaction that called \<open>enter\<close>, which holds the row's lock.\<close>

definition call_finish ::
  "string \<Rightarrow> int \<Rightarrow> string \<Rightarrow> int \<Rightarrow> string \<Rightarrow> db \<Rightarrow> go_error + db" where
  "call_finish role now i g token d =
     (if \<not> may_call role finish_fn d then Inl (sqlstate ''42501'')
      else finish False role now i (Some g) (Some token) d)"

section \<open>What they decide\<close>

lemma enter_allowed_iff:
  "is_true (enter_allowed r p_token) \<longleftrightarrow>
     (row_state r = ''active'' \<and> p_token = None) \<or>
     (row_state r = ''initializing'' \<and> p_token \<noteq> None \<and> init_token r = p_token)"
  by (cases p_token; cases "init_token r") (auto simp: enter_allowed_def sql_defs)

lemma stale_iff: "is_true (sql_not (sql_eq (Some a) b)) \<longleftrightarrow> b \<noteq> None \<and> b \<noteq> Some a"
  by (cases b) (auto simp: sql_defs)

text \<open>
  C23: the gateway lets a session in exactly when the islet exists and belongs to the session's role,
  its row is not locked, the generation given is the current one, and the islet is active with no
  token given or initializing with its own token given; a failed islet, an unknown one, an old
  generation and a wrong token each have their SQLSTATE, and \<open>finish\<close> changes nothing but the
  state, the token and the time of that row, which it makes active.
\<close>

theorem gateway_decides:
  "(enter busy u i (Some g) tok d = Inr () \<longleftrightarrow>
      (\<exists>r. row_of d i = Some r \<and> role_name r = u \<and> \<not> busy \<and> row_generation r = g \<and>
         (row_state r = ''active'' \<and> tok = None \<or>
          row_state r = ''initializing'' \<and> tok \<noteq> None \<and> init_token r = tok))) \<and>
   (finish busy u now i (Some g) tok d = Inr d' \<longleftrightarrow>
      tok \<noteq> None \<and> enter busy u i (Some g) tok d = Inr () \<and>
      d' = update_row i (\<lambda>r. r\<lparr>row_state := ''active'', init_token := None, row_updated := now\<rparr>) d) \<and>
   (\<forall>e. enter busy u i (Some g) tok d = Inl e \<longrightarrow>
      (case row_of d i of
         None \<Rightarrow> classify (Some e) = Some (IsletError ErrNotFound (Some e) (-1))
       | Some r \<Rightarrow>
           classify (Some e) = Some (IsletError
             (if role_name r \<noteq> u then ErrNotFound
              else if busy then ErrBusy
              else if row_generation r \<noteq> g then ErrStaleGeneration
              else if row_state r = ''failed'' then ErrFailed else ErrUnavailable) (Some e) (-1))))"
proof -
  have "is_true (enter_allowed r tok) \<Longrightarrow> row_state r \<noteq> ''failed''" for r
    by (auto simp: enter_allowed_iff)
  then show ?thesis
    by (auto simp: enter_def finish_def stale_iff enter_allowed_iff sqlstate_def code_kind_def wrap_def
        split: option.splits sum.splits unit.splits)
qed

definition sample_row :: islet_row where
  "sample_row = \<lparr>schema_name = ''s'', role_name = ''r'', row_password = ''p'', row_state = ''initializing'',
     row_generation = 3, init_token = Some ''t'', row_created = 0, row_updated = 0\<rparr>"

definition sample_installation :: installation where
  "sample_installation = \<lparr>ServerVersion = 180001, CurrentDatabase = ''app'', CurrentUser = ''admin'',
     SchemaOwner = [''public'' \<mapsto> ''admin''], InternalVersion = None, HasRegistry = False, HasFunctions = {}\<rparr>"

definition sample_db :: db where
  "sample_db = \<lparr>islets = [(''i'', sample_row)], schemas = Map.empty, roles = Map.empty, grants = {},
     owners = {}, inst = sample_installation\<rparr>"

theorem gateway_decides_witness:
  "enter False ''r'' ''i'' (Some 3) (Some ''t'') sample_db = Inr () \<and>
   classify (Some (sqlstate ''PI003'')) = Some (IsletError ErrUnavailable (Some (sqlstate ''PI003'')) (-1))"
proof -
  have row: "row_of sample_db ''i'' = Some sample_row"
    by (simp add: row_of_def sample_db_def)
  note g = gateway_decides [of False "''r''" "''i''" 3 _ sample_db]
  from row have 1: "enter False ''r'' ''i'' (Some 3) (Some ''t'') sample_db = Inr ()"
    by (subst conjunct1 [OF g]) (simp add: sample_row_def)
  from row have "enter False ''r'' ''i'' (Some 3) None sample_db = Inl (sqlstate ''PI003'')"
    by (simp add: enter_def stale_iff enter_allowed_iff sample_row_def)
  with conjunct2 [OF conjunct2 [OF g], of None] row
  have "classify (Some (sqlstate ''PI003'')) = Some (IsletError ErrUnavailable (Some (sqlstate ''PI003'')) (-1))"
    by (simp add: sample_row_def)
  with 1 show ?thesis by blast
qed

text \<open>The facts the callers use.\<close>

lemma call_enter_law:
  "call_enter busy role i g token d = Inr d' \<Longrightarrow>
     d' = d \<and> (\<exists>r. row_of d i = Some r \<and> role_name r = role \<and> row_generation r = g \<and>
       (row_state r = ''active'' \<and> token = None \<or>
        row_state r = ''initializing'' \<and> token \<noteq> None \<and> init_token r = token))"
  by (auto simp: call_enter_def enter_def stale_iff enter_allowed_iff
      split: if_splits option.splits sum.splits unit.splits)

lemma call_enter_error: "call_enter busy role i g token d = Inl e \<Longrightarrow> \<exists>code. e = sqlstate code"
  by (auto simp: call_enter_def enter_def split: if_splits option.splits sum.splits unit.splits)

lemma call_finish_law:
  "call_finish role now i g token d = Inr d' \<Longrightarrow>
     d' = update_row i (\<lambda>r. r\<lparr>row_state := ''active'', init_token := None, row_updated := now\<rparr>) d \<and>
     (\<exists>r. row_of d i = Some r \<and> role_name r = role \<and> row_generation r = g \<and>
        row_state r = ''initializing'' \<and> init_token r = Some token)"
  by (auto simp: call_finish_def finish_def enter_def stale_iff enter_allowed_iff
      split: if_splits option.splits sum.splits unit.splits)

end
