(* ===== verification/Registry.thy ===== *)
theory Registry
  imports Gateway
begin

text \<open>
  Islets as the manager sees them (\<open>internal/engine/types.go\<close>, \<open>registry.go\<close>, the \<open>Manager\<close> of
  \<open>manager.go\<close>), and the protocol every session keeps to: the relation \<open>change\<close> lists the atomic
  changes an islet goes through, \<open>registry_ok\<close> is what holds of the database between them. The
  operations of the other theories are shown to be sequences of such changes; the locale \<open>protocol\<close>
  turns a property of one change into a property of all of them.
\<close>

section \<open>Islets and the manager\<close>

record islet =
  ID :: string
  Generation :: int
  State :: string
  CreatedAt :: int
  UpdatedAt :: int

text \<open>The struct \<open>metadata\<close> embeds \<open>Islet\<close>.\<close>

record metadata = islet +
  md_schema :: string
  md_role :: string
  md_password :: string
  md_token :: string

definition no_islet :: islet where
  "no_islet = \<lparr>ID = [], Generation = 0, State = [], CreatedAt = 0, UpdatedAt = 0\<rparr>"

definition no_metadata :: metadata where
  "no_metadata = \<lparr>ID = [], Generation = 0, State = [], CreatedAt = 0, UpdatedAt = 0, md_schema = [],
     md_role = [], md_password = [], md_token = []\<rparr>"

text \<open>\<open>md.Islet\<close>.\<close>

definition islet_of :: "metadata \<Rightarrow> islet" where
  "islet_of md = islet.truncate md"

text \<open>
  The connection settings of \<open>pgx.ConnConfig\<close> the sources touch, and the manager; \<open>Sanitize\<close> is
  \<open>pgx.Identifier.Sanitize\<close> of a one-part identifier (\<open>ident\<close>).
\<close>

record conn_config =
  Database :: string
  User :: string
  Password :: string
  RuntimeParams :: "string \<rightharpoonup> string"
  ExecMode :: string

record manager =
  Runtime :: conn_config
  Settings :: config
  Reserved :: "string \<rightharpoonup> bool"
  Sanitize :: "string \<Rightarrow> string"

section \<open>Reading the registry\<close>

text \<open>The select list of \<open>metadataSQL\<close>, with \<open>COALESCE(init_token,'')\<close>.\<close>

definition metadata_of :: "string \<Rightarrow> islet_row \<Rightarrow> metadata" where
  "metadata_of i r =
     \<lparr>ID = i, Generation = row_generation r, State = row_state r, CreatedAt = row_created r,
      UpdatedAt = row_updated r, md_schema = schema_name r, md_role = role_name r,
      md_password = row_password r, md_token = (case init_token r of None \<Rightarrow> [] | Some t \<Rightarrow> t)\<rparr>"

lemma metadata_of_sel [simp]:
  "ID (metadata_of i r) = i" "Generation (metadata_of i r) = row_generation r"
  "State (metadata_of i r) = row_state r" "md_schema (metadata_of i r) = schema_name r"
  "md_role (metadata_of i r) = role_name r" "md_password (metadata_of i r) = row_password r"
  "md_token (metadata_of i r) = (case init_token r of None \<Rightarrow> [] | Some t \<Rightarrow> t)"
  by (simp_all add: metadata_of_def)

text \<open>\<open>Row.Scan\<close>: no row is \<open>ErrNoRows\<close>.\<close>

definition scan :: "go_error + 'a option \<Rightarrow> go_error + 'a" where
  "scan x = (case x of Inl e \<Rightarrow> Inl e | Inr None \<Rightarrow> Inl (Sentinel NoRows) | Inr (Some a) \<Rightarrow> Inr a)"

definition read_metadata :: "go_error + metadata option \<Rightarrow> metadata \<times> err" where
  "read_metadata row =
     (case scan row of
        Inl e \<Rightarrow> if e = Sentinel NoRows then (no_metadata, Some (Sentinel ErrNotFound))
                 else (no_metadata, classify (Some e))
      | Inr md \<Rightarrow> (md, classify None))"

definition select_metadata :: "string \<Rightarrow> db \<Rightarrow> metadata option" where
  "select_metadata i d = map_option (metadata_of i) (row_of d i)"

definition lookup :: "env \<Rightarrow> string \<Rightarrow> world \<Rightarrow> (metadata \<times> err) \<times> world" where
  "lookup ev i w0 =
     (case pool_query ev (\<lambda>_. select_metadata i) (interfere ev w0) of
        (row, w) \<Rightarrow> (read_metadata row, w))"

text \<open>\<open>Manager.Open\<close>.\<close>

definition open_islet :: "env \<Rightarrow> string \<Rightarrow> world \<Rightarrow> (islet \<times> err) \<times> world" where
  "open_islet ev i w = (case lookup ev i w of ((md, e), w') \<Rightarrow> ((islet_of md, e), w'))"

text \<open>\<open>checkDependencies\<close>, on what \<open>QueryRow\<close> gave.\<close>

definition dependency_error :: "go_error + string option \<Rightarrow> err" where
  "dependency_error row =
     (case scan row of
        Inl e \<Rightarrow> if e = Sentinel NoRows then None else Some e
      | Inr object \<Rightarrow> Some (wrap ErrExternalDependency (Some (Errorf (''cleanup would affect '' @ object)))))"

section \<open>What holds of the database\<close>

definition internal_schema :: string where
  "internal_schema = ''pgislet_internal''"

text \<open>The schemas that are the server's own.\<close>

definition system_schema :: "string \<Rightarrow> bool" where
  "system_schema s \<longleftrightarrow> take 3 s = ''pg_'' \<or> s = ''information_schema''"

text \<open>\<open>PUBLIC\<close> can reach no other schema: \<open>New\<close> asks for that, and every session keeps to it.\<close>

definition secluded :: "db \<Rightarrow> bool" where
  "secluded d \<longleftrightarrow>
     (\<forall>s p. schemas d s \<noteq> None \<longrightarrow> \<not> system_schema s \<longrightarrow> on_schema s p \<longrightarrow> (public_role, p) \<notin> grants d)"

definition unprivileged :: "role_attrs \<Rightarrow> bool" where
  "unprivileged a \<longleftrightarrow> Login a \<and> \<not> Superuser a \<and> \<not> CreateDB a \<and> \<not> CreateRoles a \<and> \<not> Inherit a \<and>
     \<not> Replication a \<and> \<not> BypassRLS a"

text \<open>The privileges of the role of islet \<open>i\<close> in the database \<open>c\<close>.\<close>

definition islet_privileges :: "string \<Rightarrow> string \<Rightarrow> privilege set" where
  "islet_privileges c i =
     {UsageOn (schema_of i), CreateIn (schema_of i), ConnectTo c, UsageOn api_schema,
      ExecuteOn enter_fn, ExecuteOn finish_fn}"

definition state_ok :: "islet_row \<Rightarrow> bool" where
  "state_ok r \<longleftrightarrow>
     (row_state r \<in> {''active'', ''failed''} \<and> init_token r = None) \<or>
     (row_state r = ''initializing'' \<and> (\<exists>t. t \<noteq> [] \<and> init_token r = Some t))"

definition row_ok :: "string \<Rightarrow> db \<Rightarrow> string \<Rightarrow> islet_row \<Rightarrow> bool" where
  "row_ok c d i r \<longleftrightarrow>
     schema_name r = schema_of i \<and> role_name r = role_of i \<and>
     0 < row_generation r \<and> row_generation r < 2 ^ 63 \<and> state_ok r \<and>
     schemas d (schema_of i) \<noteq> None \<and>
     (\<exists>a. roles d (role_of i) = Some a \<and> unprivileged a \<and> role_password a = row_password r) \<and>
     Pair (role_of i) ` islet_privileges c i \<subseteq> grants d"

definition grant_ok :: "string \<Rightarrow> db \<Rightarrow> string \<Rightarrow> privilege \<Rightarrow> bool" where
  "grant_ok c d g p \<longleftrightarrow>
     (\<forall>i. g = role_of i \<longrightarrow> row_of d i \<noteq> None \<and> p \<in> islet_privileges c i) \<and>
     (\<forall>i. on_schema (schema_of i) p \<longrightarrow> g = role_of i)"

definition registry_ok :: "string \<Rightarrow> db \<Rightarrow> bool" where
  "registry_ok c d \<longleftrightarrow>
     distinct (map fst (islets d)) \<and>
     (\<forall>i r. row_of d i = Some r \<longrightarrow> row_ok c d i r) \<and>
     (\<forall>i. row_of d i = None \<longrightarrow> schemas d (schema_of i) = None \<and> roles d (role_of i) = None) \<and>
     (\<forall>g p. (g, p) \<in> grants d \<longrightarrow> grant_ok c d g p) \<and>
     schemas d api_schema \<noteq> None \<and> secluded d"

lemma registry_okD:
  assumes "registry_ok c d"
  shows "distinct (map fst (islets d))"
    and "row_of d i = Some r \<Longrightarrow> row_ok c d i r"
    and "row_of d i = None \<Longrightarrow> schemas d (schema_of i) = None"
    and "row_of d i = None \<Longrightarrow> roles d (role_of i) = None"
    and "(g, p) \<in> grants d \<Longrightarrow> grant_ok c d g p"
    and "schemas d api_schema \<noteq> None"
    and "secluded d"
  using assms by (auto simp: registry_ok_def)

lemma names_apart [simp]: "schema_of i \<noteq> api_schema" "api_schema \<noteq> schema_of i"
  "role_of i \<noteq> public_role" "public_role \<noteq> role_of i"
  by (simp_all add: schema_of_def role_of_def api_schema_def public_role_def)

lemma internal_apart [simp]: "internal_schema \<noteq> api_schema" "api_schema \<noteq> internal_schema"
  "internal_schema \<noteq> schema_of i" "schema_of i \<noteq> internal_schema"
  by (simp_all add: internal_schema_def api_schema_def schema_of_def)

lemma on_schema_simps [simp]:
  "on_schema s (UsageOn t) \<longleftrightarrow> s = t" "on_schema s (CreateIn t) \<longleftrightarrow> s = t"
  "\<not> on_schema s (ConnectTo c)" "\<not> on_schema s (CreateOn c)" "\<not> on_schema s (TemporaryOn c)"
  "\<not> on_schema s (ExecuteOn f)"
  by (auto simp: on_schema_def)

section \<open>The protocol\<close>

definition mark :: "string \<Rightarrow> string option \<Rightarrow> int \<Rightarrow> islet_row \<Rightarrow> islet_row" where
  "mark st tok u r = r\<lparr>row_state := st, init_token := tok, row_updated := u\<rparr>"

text \<open>The schema dropped with all privileges on it, and made anew for the role.\<close>

definition wiped :: "string \<Rightarrow> string \<Rightarrow> db \<Rightarrow> db" where
  "wiped s u d =
     grant u [UsageOn s, CreateIn s]
       (revoke (\<lambda>r p. on_schema s p) (d\<lparr>schemas := (schemas d)(s \<mapsto> [])\<rparr>))"

definition purged :: "string \<Rightarrow> string \<Rightarrow> db \<Rightarrow> db" where
  "purged s u d =
     revoke (\<lambda>r p. r = u \<or> on_schema s p)
       (d\<lparr>schemas := (schemas d)(s := None), roles := (roles d)(u := None)\<rparr>)"

definition provisioned :: "string \<Rightarrow> string \<Rightarrow> role_attrs \<Rightarrow> db \<Rightarrow> db" where
  "provisioned c i a d =
     d\<lparr>schemas := (schemas d)(schema_of i \<mapsto> []), roles := (roles d)(role_of i \<mapsto> a),
       grants := Pair (role_of i) ` islet_privileges c i \<union> grants d\<rparr>"

definition same_islets :: "db \<Rightarrow> db \<Rightarrow> bool" where
  "same_islets d d' \<longleftrightarrow>
     islets d' = islets d \<and> schemas d' api_schema = schemas d api_schema \<and>
     (\<forall>i. schemas d' (schema_of i) = schemas d (schema_of i)) \<and>
     (\<forall>i. roles d' (role_of i) = roles d (role_of i)) \<and>
     (\<forall>i p. (role_of i, p) \<in> grants d' \<longleftrightarrow> (role_of i, p) \<in> grants d) \<and>
     (\<forall>g i p. on_schema (schema_of i) p \<longrightarrow> (g, p) \<in> grants d' \<longleftrightarrow> (g, p) \<in> grants d) \<and>
     (secluded d \<longrightarrow> secluded d')"

definition fresh_row :: "string \<Rightarrow> role_attrs \<Rightarrow> islet_row \<Rightarrow> bool" where
  "fresh_row i a r \<longleftrightarrow>
     schema_name r = schema_of i \<and> role_name r = role_of i \<and> role_password a = row_password r \<and>
     row_generation r = 1 \<and> state_ok r \<and> row_state r \<noteq> ''failed''"

text \<open>
  The atomic changes: an islet is created; its schema is emptied under the next generation, to be
  initialized again or not; it is marked failed; its initialization ends; it is deleted; a user's
  statements change its schema; or something happens that concerns no islet.
\<close>

inductive change :: "string \<Rightarrow> db \<Rightarrow> db \<Rightarrow> bool" for c :: string where
  created: "schemas d (schema_of i) = None \<Longrightarrow> roles d (role_of i) = None \<Longrightarrow> unprivileged a \<Longrightarrow>
    fresh_row i a r \<Longrightarrow> insert_row i r (provisioned c i a d) = Inr d' \<Longrightarrow> change c d d'"
| emptied: "row_of d i = Some r \<Longrightarrow> row_generation r + 1 < 2 ^ 63 \<Longrightarrow>
    (st = ''active'' \<and> tok = None) \<or> (st = ''initializing'' \<and> (\<exists>t. t \<noteq> [] \<and> tok = Some t)) \<Longrightarrow>
    change c d (update_row i (\<lambda>r. (mark st tok u r)\<lparr>row_generation := row_generation r + 1\<rparr>)
                  (wiped (schema_name r) (role_name r) d))"
| failed: "row_of d i = Some r \<Longrightarrow> change c d (update_row i (mark ''failed'' None u) d)"
| finished: "row_of d i = Some r \<Longrightarrow> row_state r = ''initializing'' \<Longrightarrow>
    change c d (update_row i (mark ''active'' None u) d)"
| deleted: "row_of d i = Some r \<Longrightarrow> row_state r \<noteq> ''initializing'' \<Longrightarrow>
    change c d (delete_row i (purged (schema_name r) (role_name r) d))"
| ran: "row_of d i = Some r \<Longrightarrow> row_state r \<noteq> ''failed'' \<Longrightarrow>
    change c d (d\<lparr>schemas := (schemas d)(schema_name r \<mapsto> x)\<rparr>)"
| outside: "same_islets d d' \<Longrightarrow> change c d d'"

text \<open>Any number of changes.\<close>

abbreviation changes :: "string \<Rightarrow> db \<Rightarrow> db \<Rightarrow> bool" where
  "changes c \<equiv> (change c)\<^sup>*\<^sup>*"

end
