(* ===== verification/Protocol.thy ===== *)
theory Protocol
  imports Registry
begin

text \<open>
  What the changes of \<open>Registry\<close> keep: every change keeps \<open>registry_ok\<close>, generations of an islet only
  grow while it exists, and nothing but its own changes touches an islet. The locale \<open>protocol\<close>
  states what it takes for a relation between databases to hold across any number of changes, and
  its interpretations are the relations the other theories use.
\<close>

section \<open>The invariant is kept\<close>

lemma keys_update [simp]: "map fst (islets (update_row i f d)) = map fst (islets d)"
  by (simp add: update_row_def o_def case_prod_beta')

lemma distinct_delete: "distinct (map fst (islets d)) \<Longrightarrow> distinct (map fst (islets (delete_row i d)))"
  by (simp add: delete_row_def distinct_map_filter)

text \<open>A change of islets' schemas that gives \<open>PUBLIC\<close> nothing leaves it where it was.\<close>

lemma secluded_islets:
  assumes "secluded d" and ok: "\<And>g p. (g, p) \<in> grants d' \<Longrightarrow> grant_ok c d' g p"
    and "\<And>s. schemas d' s \<noteq> None \<Longrightarrow> schemas d s \<noteq> None \<or> (\<exists>i. s = schema_of i)"
    and "\<And>p. (public_role, p) \<in> grants d' \<Longrightarrow> (public_role, p) \<in> grants d \<or> (\<exists>i. on_schema (schema_of i) p)"
  shows "secluded d'"
  unfolding secluded_def
proof (intro allI impI notI)
  fix s p
  assume s: "schemas d' s \<noteq> None" "\<not> system_schema s" and p: "on_schema s p" and g: "(public_role, p) \<in> grants d'"
  have "\<not> on_schema (schema_of i) p" for i
    using ok [OF g] by (auto simp: grant_ok_def dest: not_sym)
  with assms(3) [OF s(1)] assms(4) [OF g] p have "schemas d s \<noteq> None" "(public_role, p) \<in> grants d" by auto
  with assms(1) s p show False by (auto simp: secluded_def)
qed

lemma registry_ok_update:
  assumes "registry_ok c d" and "row_of d i = Some r" and "row_ok c d i (f r)"
  shows "registry_ok c (update_row i f d)"
proof -
  have rows: "row_ok c (update_row i f d) j s \<longleftrightarrow> row_ok c d j s" for j s
    by (simp add: row_ok_def)
  have grants: "grant_ok c (update_row i f d) g p \<longleftrightarrow> grant_ok c d g p" for g p
    by (auto simp: grant_ok_def)
  have "secluded (update_row i f d) \<longleftrightarrow> secluded d" by (simp add: secluded_def)
  with assms show ?thesis
    unfolding registry_ok_def rows grants keys_update table_frame by (auto split: if_splits)
qed

lemma row_ok_privileges:
  "row_ok c d i r \<Longrightarrow> p \<in> islet_privileges c i \<Longrightarrow> (role_of i, p) \<in> grants d"
  by (auto simp: row_ok_def)

lemma wiped_sel [simp]:
  "islets (wiped s u d) = islets d" "row_of (wiped s u d) = row_of d"
  "schemas (wiped s u d) = (schemas d)(s \<mapsto> [])" "roles (wiped s u d) = roles d"
  "owners (wiped s u d) = owners d" "inst (wiped s u d) = inst d"
  "(g, p) \<in> grants (wiped s u d) \<longleftrightarrow> (if on_schema s p then g = u else (g, p) \<in> grants d)"
  by (auto simp: wiped_def row_of_def on_schema_def)

lemma registry_ok_wiped:
  assumes ok: "registry_ok c d" and row: "row_of d i = Some r"
  shows "registry_ok c (wiped (schema_of i) (role_of i) d)"
proof -
  let ?d = "wiped (schema_of i) (role_of i) d"
  have "row_ok c ?d j s" if "row_of d j = Some s" for j s
  proof -
    from registry_okD(2) [OF ok that] have s: "row_ok c d j s" .
    have "(role_of j, p) \<in> grants ?d" if "p \<in> islet_privileges c j" for p
      using row_ok_privileges [OF s that] that by (auto simp: islet_privileges_def)
    with s show ?thesis by (auto simp: row_ok_def)
  qed
  moreover have "grant_ok c ?d g p" if "(g, p) \<in> grants ?d" for g p
  proof (cases "on_schema (schema_of i) p")
    case True
    with that row show ?thesis by (auto simp: grant_ok_def islet_privileges_def on_schema_def)
  next
    case False
    with that have "grant_ok c d g p" using registry_okD(5) [OF ok] by simp
    then show ?thesis by (simp add: grant_ok_def)
  qed
  moreover from this have "secluded ?d"
    by (intro secluded_islets [where c = c, OF registry_okD(7) [OF ok]]) (auto split: if_splits)
  ultimately show ?thesis
    using ok by (auto simp: registry_ok_def row)
qed

lemma purged_sel [simp]:
  "islets (purged s u d) = islets d" "row_of (purged s u d) = row_of d"
  "schemas (purged s u d) = (schemas d)(s := None)" "roles (purged s u d) = (roles d)(u := None)"
  "owners (purged s u d) = owners d" "inst (purged s u d) = inst d"
  "(g, p) \<in> grants (purged s u d) \<longleftrightarrow> (g, p) \<in> grants d \<and> g \<noteq> u \<and> \<not> on_schema s p"
  by (auto simp: purged_def row_of_def)

lemma registry_ok_deleted:
  assumes ok: "registry_ok c d"
  shows "registry_ok c (delete_row i (purged (schema_of i) (role_of i) d))"
proof -
  let ?d = "delete_row i (purged (schema_of i) (role_of i) d)"
  have "row_ok c ?d j s" if "row_of d j = Some s" "j \<noteq> i" for j s
    using registry_okD(2) [OF ok that(1)] that(2)
    by (force simp: row_ok_def islet_privileges_def api_schema_def schema_of_def)
  moreover have "grant_ok c ?d g p" if "(g, p) \<in> grants ?d" for g p
    using registry_okD(5) [OF ok, of g p] that by (auto simp: grant_ok_def)
  moreover have "distinct (map fst (islets ?d))"
    using registry_okD(1) [OF ok] distinct_delete [of "purged (schema_of i) (role_of i) d" i] by simp
  moreover have "secluded ?d" using registry_okD(7) [OF ok] by (simp add: secluded_def)
  ultimately show ?thesis
    using ok by (simp add: registry_ok_def)
qed

lemma provisioned_sel [simp]:
  "islets (provisioned c i a d) = islets d" "row_of (provisioned c i a d) = row_of d"
  "schemas (provisioned c i a d) = (schemas d)(schema_of i \<mapsto> [])"
  "roles (provisioned c i a d) = (roles d)(role_of i \<mapsto> a)" "owners (provisioned c i a d) = owners d" "inst (provisioned c i a d) = inst d"
  "(g, p) \<in> grants (provisioned c i a d) \<longleftrightarrow> (g = role_of i \<and> p \<in> islet_privileges c i) \<or> (g, p) \<in> grants d"
  by (auto simp: provisioned_def row_of_def)

lemma insert_row_distinct:
  assumes ins: "insert_row i r d = Inr d'" and "distinct (map fst (islets d))"
  shows "distinct (map fst (islets d'))"
proof -
  from row_of_insert [OF ins] have "i \<notin> fst ` set (islets d)"
    by (simp add: row_of_def map_of_eq_None_iff)
  with assms show ?thesis by (auto simp: insert_row_def split: if_splits)
qed

lemma registry_ok_created:
  assumes ok: "registry_ok c d" and "unprivileged a" and "fresh_row i a r"
    and ins: "insert_row i r (provisioned c i a d) = Inr d'"
  shows "registry_ok c d'"
proof -
  from row_of_insert [OF ins] have none: "row_of d i = None" and rows: "row_of d' = (row_of d)(i \<mapsto> r)"
    by simp_all
  from insert_row_frame [OF ins] have sch: "schemas d' = (schemas d)(schema_of i \<mapsto> [])"
    and rol: "roles d' = (roles d)(role_of i \<mapsto> a)" and gr: "grants d' = grants (provisioned c i a d)"
    by simp_all
  have "row_ok c d' i r"
    using assms(2,3) by (auto simp: row_ok_def fresh_row_def sch rol gr)
  moreover have "row_ok c d' j s" if "row_of d j = Some s" "j \<noteq> i" for j s
    using registry_okD(2) [OF ok that(1)] that(2) by (auto simp: row_ok_def sch rol gr)
  moreover have "grant_ok c d' g p" if "(g, p) \<in> grants d'" for g p
  proof (cases "g = role_of i \<and> p \<in> islet_privileges c i")
    case True
    then show ?thesis by (auto simp: grant_ok_def rows islet_privileges_def)
  next
    case False
    with that have "grant_ok c d g p" using registry_okD(5) [OF ok] by (auto simp: gr)
    then show ?thesis by (auto simp: grant_ok_def rows)
  qed
  moreover from this have "secluded d'"
    by (intro secluded_islets [where c = c, OF registry_okD(7) [OF ok]]) (auto simp: sch gr split: if_splits)
  moreover have "distinct (map fst (islets d'))"
    using registry_okD(1) [OF ok] insert_row_distinct [OF ins] by simp
  moreover have "schemas d' (schema_of j) = None \<and> roles d' (role_of j) = None" if "row_of d' j = None" for j
    using that registry_okD(3,4) [OF ok, of j] by (auto simp: rows sch rol split: if_splits)
  ultimately show ?thesis
    using registry_okD(6) [OF ok] by (auto simp: registry_ok_def rows sch)
qed

lemma registry_ok_outside:
  assumes ok: "registry_ok c d" and same: "same_islets d d'"
  shows "registry_ok c d'"
proof -
  from same have rows: "row_of d' = row_of d" by (auto simp: same_islets_def row_of_def)
  have "row_ok c d' j s" if "row_of d j = Some s" for j s
    using registry_okD(2) [OF ok that] same by (auto simp: row_ok_def same_islets_def)
  moreover have "grant_ok c d' g p" if g: "(g, p) \<in> grants d'" for g p
    unfolding grant_ok_def rows
  proof (intro conjI allI impI)
    fix i assume "g = role_of i"
    with g same have "grant_ok c d g p" using registry_okD(5) [OF ok] by (auto simp: same_islets_def)
    with \<open>g = role_of i\<close> show "row_of d i \<noteq> None" and "p \<in> islet_privileges c i"
      by (simp_all add: grant_ok_def)
  next
    fix i assume "on_schema (schema_of i) p"
    with g same have "grant_ok c d g p" using registry_okD(5) [OF ok] by (auto simp: same_islets_def)
    with \<open>on_schema (schema_of i) p\<close> show "g = role_of i" by (simp add: grant_ok_def)
  qed
  ultimately show ?thesis
    using ok same by (auto simp: registry_ok_def rows same_islets_def)
qed

lemma registry_ok_ran:
  assumes "registry_ok c d" and "row_of d i = Some r"
  shows "registry_ok c (d\<lparr>schemas := (schemas d)(schema_of i \<mapsto> x)\<rparr>)"
proof -
  let ?d = "d\<lparr>schemas := (schemas d)(schema_of i \<mapsto> x)\<rparr>"
  have rows: "row_of ?d = row_of d" by (auto simp: row_of_def)
  have "row_ok c ?d j s" if "row_ok c d j s" for j s
    using that by (auto simp: row_ok_def)
  moreover have g: "grant_ok c ?d g p \<longleftrightarrow> grant_ok c d g p" for g p
    by (simp add: grant_ok_def rows)
  moreover have "secluded ?d"
    using registry_okD(5) [OF assms(1)]
    by (intro secluded_islets [where c = c, OF registry_okD(7) [OF assms(1)]]) (auto simp: g split: if_splits)
  ultimately show ?thesis
    using assms by (auto simp: registry_ok_def rows)
qed

lemma change_registry_ok:
  assumes "change c d d'" and "registry_ok c d"
  shows "registry_ok c d'"
  using assms
proof (cases rule: change.cases)
  case (created i a r)
  then show ?thesis using assms(2) registry_ok_created by blast
next
  case (emptied i r st tok u)
  note row = registry_okD(2) [OF assms(2) emptied(2)]
  then have names: "schema_name r = schema_of i" "role_name r = role_of i" by (simp_all add: row_ok_def)
  let ?d = "wiped (schema_of i) (role_of i) d"
  have wok: "registry_ok c ?d" using assms(2) emptied(2) by (rule registry_ok_wiped)
  from emptied(2) have "row_of ?d i = Some r" by simp
  moreover from registry_okD(2) [OF wok this]
  have "row_ok c ?d i ((mark st tok u r)\<lparr>row_generation := row_generation r + 1\<rparr>)"
    using emptied(3,4) by (auto simp: row_ok_def mark_def state_ok_def)
  ultimately show ?thesis
    unfolding emptied(1) names by (rule registry_ok_update [OF wok])
next
  case (failed i r u)
  from registry_okD(2) [OF assms(2) failed(2)] have "row_ok c d i (mark ''failed'' None u r)"
    by (auto simp: row_ok_def mark_def state_ok_def)
  with failed show ?thesis using registry_ok_update [OF assms(2)] by blast
next
  case (finished i r u)
  from registry_okD(2) [OF assms(2) finished(2)] have "row_ok c d i (mark ''active'' None u r)"
    by (auto simp: row_ok_def mark_def state_ok_def)
  with finished show ?thesis using registry_ok_update [OF assms(2)] by blast
next
  case (deleted i r)
  from registry_okD(2) [OF assms(2) deleted(2)] show ?thesis
    unfolding deleted(1) using registry_ok_deleted [OF assms(2)] by (simp add: row_ok_def)
next
  case (ran i r x)
  from registry_okD(2) [OF assms(2) ran(2)] show ?thesis
    unfolding ran(1) using registry_ok_ran [OF assms(2) ran(2)] by (simp add: row_ok_def)
next
  case outside
  then show ?thesis using assms(2) registry_ok_outside by blast
qed

lemma changes_registry_ok: "changes c d d' \<Longrightarrow> registry_ok c d \<Longrightarrow> registry_ok c d'"
  by (induction rule: rtranclp_induct) (auto intro: change_registry_ok)

section \<open>Relations that hold across any number of changes\<close>

text \<open>
  The contract between a step relation and a property of pairs of databases: the property is
  reflexive and transitive and every step satisfies it. What it gives is the property of whole runs.
\<close>

locale protocol =
  fixes step :: "db \<Rightarrow> db \<Rightarrow> bool" and R :: "db \<Rightarrow> db \<Rightarrow> bool"
  assumes R_refl: "R d d"
    and R_trans: "R a b \<Longrightarrow> R b d \<Longrightarrow> R a d"
    and R_step: "step a b \<Longrightarrow> R a b"
begin

lemma run: "step\<^sup>*\<^sup>* a b \<Longrightarrow> R a b"
  by (induction rule: rtranclp_induct) (auto intro: R_refl R_trans R_step)

lemma run_sub: "(\<And>a b. q a b \<Longrightarrow> step\<^sup>*\<^sup>* a b) \<Longrightarrow> q\<^sup>*\<^sup>* a b \<Longrightarrow> R a b"
  by (rule run) (metis (mono_tags) predicate2I predicate2D rtranclp_mono rtranclp_idemp)

end

text \<open>Changes made while the database is in order, and those of them after which islet \<open>i\<close> exists.\<close>

definition ok_change :: "string \<Rightarrow> db \<Rightarrow> db \<Rightarrow> bool" where
  "ok_change c d d' \<longleftrightarrow> registry_ok c d \<and> change c d d'"

definition living_change :: "string \<Rightarrow> string \<Rightarrow> db \<Rightarrow> db \<Rightarrow> bool" where
  "living_change c i d d' \<longleftrightarrow> change c d d' \<and> row_of d i \<noteq> None \<and> row_of d' i \<noteq> None"

text \<open>
  How far an islet is within its generation: initializing, active, failed. A later row of the same
  islet has the same names, password and birthday, and either a later generation or a state that is
  not behind.
\<close>

definition stage :: "islet_row \<Rightarrow> nat" where
  "stage r = (if row_state r = ''initializing'' then 0 else if row_state r = ''active'' then 1 else 2)"

definition later_row :: "islet_row \<Rightarrow> islet_row \<Rightarrow> bool" where
  "later_row r r' \<longleftrightarrow>
     schema_name r' = schema_name r \<and> role_name r' = role_name r \<and>
     row_password r' = row_password r \<and> row_created r' = row_created r \<and>
     (row_generation r < row_generation r' \<or>
      row_generation r = row_generation r' \<and> stage r \<le> stage r')"

definition ages :: "string \<Rightarrow> db \<Rightarrow> db \<Rightarrow> bool" where
  "ages i d d' \<longleftrightarrow> d = d' \<or> (\<exists>r r'. row_of d i = Some r \<and> row_of d' i = Some r' \<and> later_row r r')"

lemma later_row_refl: "later_row r r"
  by (simp add: later_row_def)

lemma later_row_trans: "later_row a b \<Longrightarrow> later_row b d \<Longrightarrow> later_row a d"
  by (auto simp: later_row_def)

lemma change_later:
  assumes "change c d d'" and "row_of d i = Some r" and "row_of d' i = Some r'"
  shows "later_row r r'"
  using assms
proof (cases rule: change.cases)
  case (created j a s)
  from row_of_insert [OF created(5)] assms(2,3) show ?thesis
    by (auto split: if_splits simp: later_row_refl)
next
  case (ran j s x)
  then have "row_of d' = row_of d" by (simp add: row_of_def fun_eq_iff)
  with assms(2,3) show ?thesis by (simp add: later_row_refl)
next
  case outside
  then have "row_of d' = row_of d" by (simp add: row_of_def fun_eq_iff same_islets_def)
  with assms(2,3) show ?thesis by (simp add: later_row_refl)
qed (use assms(2,3) in \<open>auto simp: later_row_def mark_def stage_def split: if_splits\<close>)

interpretation intact: protocol "ok_change c" "\<lambda>d d'. registry_ok c d \<longrightarrow> registry_ok c d'" for c
  by unfold_locales (auto simp: ok_change_def intro: change_registry_ok)

interpretation life: protocol "living_change c i" "ages i" for c i
proof unfold_locales
  fix d show "ages i d d" by (simp add: ages_def)
next
  fix a b d assume "ages i a b" "ages i b d"
  then show "ages i a d" by (auto simp: ages_def intro: later_row_trans)
next
  fix a b assume "living_change c i a b"
  then show "ages i a b" by (auto simp: living_change_def ages_def intro: change_later)
qed

text \<open>
  As long as an islet exists, its generation never goes down, its schema, role, password and
  creation time never change, and within one generation its state only moves forward, from
  initializing to active to failed: only a new generation makes a failed islet usable again.
\<close>

theorem islet_ages:
  "(living_change c i)\<^sup>*\<^sup>* d d' \<Longrightarrow> row_of d i = Some r \<Longrightarrow>
     \<exists>r'. row_of d' i = Some r' \<and>
       row_generation r \<le> row_generation r' \<and>
       schema_name r' = schema_name r \<and> role_name r' = role_name r \<and>
       row_password r' = row_password r \<and> row_created r' = row_created r \<and>
       (row_generation r = row_generation r' \<longrightarrow>
          (row_state r = ''failed'' \<longrightarrow> row_state r' \<notin> {''active'', ''initializing''}) \<and>
          (row_state r = ''active'' \<longrightarrow> row_state r' \<noteq> ''initializing''))"
  using life.run [of c i d d'] by (auto simp: ages_def later_row_def stage_def split: if_splits)

theorem islet_ages_witness:
  "\<exists>r'. row_of (update_row ''i'' (mark ''failed'' None 9) sample_db) ''i'' = Some r' \<and>
     row_generation sample_row \<le> row_generation r' \<and> row_state r' = ''failed''"
proof -
  have row: "row_of sample_db ''i'' = Some sample_row" by (simp add: row_of_def sample_db_def)
  then have "living_change c ''i'' sample_db (update_row ''i'' (mark ''failed'' None 9) sample_db)" for c
    by (auto simp: living_change_def intro: change.failed)
  from islet_ages [OF r_into_rtranclp, of _ "''i''", OF this row] show ?thesis
    by (auto simp: row mark_def)
qed

end
