(* ===== verification/Lifecycle.thy ===== *)
theory Lifecycle
  imports Protocol
begin

text \<open>
  The lifecycle operations (\<open>internal/engine/lifecycle.go\<close>): \<open>create\<close>, \<open>reset\<close> (\<open>Reset\<close>,
  \<open>Recover\<close>), \<open>Delete\<close> and what they share. Each is a transaction: the statements are those of the
  source in its order, each failure returns as the source returns, and the deferred rollback ends
  what was not committed. \<open>ctx\<close> is the environment's: a deadline is a fault of the call it stops.
\<close>

section \<open>Statements\<close>

text \<open>\<open>ident\<close>, with \<open>pgx.Identifier.Sanitize\<close> as the manager's parameter.\<close>

definition ident :: "manager \<Rightarrow> string \<Rightarrow> string" where
  "ident m s = Sanitize m s"

definition role_sql :: "manager \<Rightarrow> metadata \<Rightarrow> command list" where
  "role_sql m md =
     [CreateRole (md_role md) (md_password md),
      AlterRoleSet (md_role md) ''search_path'' (ident m (md_schema md) @ '',pg_catalog''),
      AlterRoleSet (md_role md) ''statement_timeout'' (timeout_setting (StatementTimeout (Settings m))),
      AlterRoleSet (md_role md) ''lock_timeout'' (timeout_setting (LockTimeout (Settings m))),
      AlterRoleSet (md_role md) ''idle_in_transaction_session_timeout''
        (timeout_setting (IdleTransactionTimeout (Settings m)))]"

definition schema_sql :: "metadata \<Rightarrow> command list" where
  "schema_sql md =
     [CreateSchema (md_schema md), RevokeSchema (md_schema md) public_role,
      GrantSchema (md_schema md) (md_role md)]"

definition grant_sql :: "manager \<Rightarrow> metadata \<Rightarrow> command list" where
  "grant_sql m md =
     [GrantConnect (Database (Runtime m)) (md_role md), GrantUsage api_schema (md_role md),
      GrantExecute [enter_fn, finish_fn] (md_role md)]"

definition drop_sql :: "manager \<Rightarrow> metadata \<Rightarrow> command list" where
  "drop_sql m md =
     [DropSchemaCascade (md_schema md), RevokeDatabase (Database (Runtime m)) (md_role md),
      RevokeSchema api_schema (md_role md), RevokeFunctions [enter_fn, finish_fn] (md_role md),
      DropRole (md_role md)]"

text \<open>\<open>createSchema\<close>.\<close>

definition create_schema :: "env \<Rightarrow> metadata \<Rightarrow> tx \<Rightarrow> world \<Rightarrow> err \<times> tx \<times> world" where
  "create_schema ev md t w = tx_exec ev (schema_sql md) t w"

text \<open>\<open>INSERT INTO pgislet_internal.islets ... RETURNING created_at,updated_at\<close>.\<close>

definition insert_islet :: "env \<Rightarrow> metadata \<Rightarrow> nat \<Rightarrow> db \<Rightarrow> go_error + ((int \<times> int) option \<times> db)" where
  "insert_islet ev md n d =
     (let r = \<lparr>schema_name = md_schema md, role_name = md_role md, row_password = md_password md,
               row_state = State md, row_generation = 1, init_token = nullif_empty (md_token md),
               row_created = Clock ev n 0, row_updated = Clock ev n 1\<rparr>
      in case insert_row (ID md) r d of
           Inl e \<Rightarrow> Inl e
         | Inr d' \<Rightarrow> Inr (Some (row_created r, row_updated r), d'))"

text \<open>
  \<open>UPDATE ... SET state=$2,generation=generation+1,init_token=NULLIF($3,'') ... RETURNING\<close>: an
  overflow of \<open>bigint\<close> is SQLSTATE 22003.
\<close>

definition next_row :: "string \<Rightarrow> string \<Rightarrow> int \<Rightarrow> islet_row \<Rightarrow> islet_row" where
  "next_row st token u r = (mark st (nullif_empty token) u r)\<lparr>row_generation := row_generation r + 1\<rparr>"

definition advance ::
  "env \<Rightarrow> string \<Rightarrow> string \<Rightarrow> string \<Rightarrow> nat \<Rightarrow> db \<Rightarrow> go_error + ((int \<times> string \<times> int) option \<times> db)" where
  "advance ev i st token n d =
     (case row_of d i of
        None \<Rightarrow> Inr (None, d)
      | Some r \<Rightarrow>
          if row_generation r + 1 \<ge> 2 ^ 63 then Inl (sqlstate ''22003'')
          else let r' = next_row st token (Clock ev n 0) r
               in Inr (Some (row_generation r', row_state r', row_updated r'),
                       update_row i (next_row st token (Clock ev n 0)) d))"

section \<open>Transactions of the operations\<close>

text \<open>\<open>pool.Begin\<close>, the body, and the deferred \<open>rollback\<close>.\<close>

definition with_tx :: "env \<Rightarrow> (go_error \<Rightarrow> 'a) \<Rightarrow> (tx \<Rightarrow> world \<Rightarrow> 'a \<times> world) \<Rightarrow> world \<Rightarrow> 'a \<times> world" where
  "with_tx ev fail body w =
     (case begin_tx ev w of
        (Inl e, w) \<Rightarrow> (fail e, w)
      | (Inr t, w) \<Rightarrow> (case body t w of (a, w) \<Rightarrow> (a, rollback w)))"

definition lifecycle_err :: "go_error \<Rightarrow> err" where
  "lifecycle_err e = Some (wrap ErrLifecycle (Some e))"

text \<open>\<open>lockMetadata\<close>: \<open>FOR UPDATE NOWAIT\<close> on a row another transaction has locked is SQLSTATE 55P03.\<close>

definition select_for_update :: "env \<Rightarrow> string \<Rightarrow> nat \<Rightarrow> db \<Rightarrow> go_error + (metadata option \<times> db)" where
  "select_for_update ev i n d =
     (case select_metadata i d of
        None \<Rightarrow> Inr (None, d)
      | Some md \<Rightarrow> if Busy ev n then Inl (sqlstate ''55P03'') else Inr (Some md, d))"

definition lock_metadata :: "env \<Rightarrow> islet \<Rightarrow> tx \<Rightarrow> world \<Rightarrow> (metadata \<times> err) \<times> tx \<times> world" where
  "lock_metadata ev h t w =
     (case tx_call ev (select_for_update ev (ID h)) t w of
        (row, t, w) \<Rightarrow>
          (case read_metadata row of
             (md, Some e) \<Rightarrow> ((md, Some e), t, w)
           | (md, None) \<Rightarrow>
               if Generation md \<noteq> Generation h then ((md, Some (Sentinel ErrStaleGeneration)), t, w)
               else ((md, None), t, w)))"

text \<open>\<open>checkDependencies\<close> on the transaction.\<close>

definition check_dependencies :: "env \<Rightarrow> string \<Rightarrow> tx \<Rightarrow> world \<Rightarrow> err \<times> tx \<times> world" where
  "check_dependencies ev s t w =
     (case tx_call ev (\<lambda>n d. Inr (dependency_query (Catalog ev n d) s, d)) t w of
        (row, t, w) \<Rightarrow> (dependency_error row, t, w))"

text \<open>\<open>failLifecycle\<close>.\<close>

definition fail_lifecycle :: "env \<Rightarrow> tx \<Rightarrow> metadata \<Rightarrow> err \<Rightarrow> world \<Rightarrow> go_error \<times> world" where
  "fail_lifecycle ev t md cause w =
     (case tx_change ev (\<lambda>now d. Inr (update_row (ID md) (mark ''failed'' None now) d)) t w of
        (Some e, t, w) \<Rightarrow> (wrap ErrLifecycle (errors_join [cause, Some e]), w)
      | (None, t, w) \<Rightarrow>
          (case commit ev t w of (e, w) \<Rightarrow> (wrap ErrLifecycle (errors_join [cause, e]), w)))"

section \<open>create\<close>

definition create_tx :: "env \<Rightarrow> manager \<Rightarrow> metadata \<Rightarrow> tx \<Rightarrow> world \<Rightarrow> (islet \<times> err) \<times> world" where
  "create_tx ev m md t w =
     (case tx_exec ev (role_sql m md) t w of
        (Some e, t, w) \<Rightarrow> ((no_islet, lifecycle_err e), w)
      | (None, t, w) \<Rightarrow>
     (case create_schema ev md t w of
        (Some e, t, w) \<Rightarrow> ((no_islet, lifecycle_err e), w)
      | (None, t, w) \<Rightarrow>
     (case tx_exec ev (grant_sql m md) t w of
        (Some e, t, w) \<Rightarrow> ((no_islet, lifecycle_err e), w)
      | (None, t, w) \<Rightarrow>
     (case tx_call ev (insert_islet ev md) t w of
        (row, t, w) \<Rightarrow>
          (case scan row of
             Inl e \<Rightarrow> ((no_islet, lifecycle_err e), w)
           | Inr (created, updated) \<Rightarrow>
               (case commit ev t w of
                  (e, w) \<Rightarrow> ((islet_of (md\<lparr>CreatedAt := created, UpdatedAt := updated\<rparr>), e), w)))))))"

definition create_islet :: "env \<Rightarrow> manager \<Rightarrow> bool \<Rightarrow> world \<Rightarrow> (islet \<times> err) \<times> world" where
  "create_islet ev m initializing w =
     (case opaque (Rand ev (tick w)) of
        (_, Some e) \<Rightarrow> ((no_islet, Some e), bump w)
      | (i, None) \<Rightarrow>
     (case opaque (Rand ev (tick (bump w))) of
        (_, Some e) \<Rightarrow> ((no_islet, Some e), bump (bump w))
      | (password, None) \<Rightarrow>
     (case (if initializing then opaque (Rand ev (tick (bump (bump w)))) else ([], None)) of
        (_, Some e) \<Rightarrow> ((no_islet, Some e), bump (bump (bump w)))
      | (token, None) \<Rightarrow>
          (let state = (if initializing then ''initializing'' else ''active'');
               md = \<lparr>ID = i, Generation = 1, State = state, CreatedAt = 0, UpdatedAt = 0,
                     md_schema = schema_of i, md_role = role_of i, md_password = password,
                     md_token = token\<rparr>
           in with_tx ev (\<lambda>e. (no_islet, lifecycle_err e)) (create_tx ev m md) (bump (bump (bump w)))))))"

text \<open>\<open>Create\<close>.\<close>

definition Create :: "env \<Rightarrow> manager \<Rightarrow> world \<Rightarrow> (islet \<times> err) \<times> world" where
  "Create ev m w = create_islet ev m False w"

section \<open>reset\<close>

definition drop_and_create :: "env \<Rightarrow> metadata \<Rightarrow> tx \<Rightarrow> world \<Rightarrow> err \<times> tx \<times> world" where
  "drop_and_create ev md t w =
     (case tx_exec ev [DropSchemaCascade (md_schema md)] t w of
        (None, t, w) \<Rightarrow> create_schema ev md t w
      | (Some e, t, w) \<Rightarrow> (Some e, t, w))"

definition reset_tx ::
  "env \<Rightarrow> islet \<Rightarrow> bool \<Rightarrow> bool \<Rightarrow> tx \<Rightarrow> world \<Rightarrow> (islet \<times> err) \<times> world" where
  "reset_tx ev h initialize recovering t w =
     (case lock_metadata ev h t w of
        ((md, Some e), t, w) \<Rightarrow> ((no_islet, Some e), w)
      | ((md, None), t, w) \<Rightarrow>
     (if State md = ''initializing'' \<and> \<not> recovering then ((no_islet, Some (Sentinel ErrUnavailable)), w)
      else
     (case check_dependencies ev (md_schema md) t w of
        (Some e, t, w) \<Rightarrow> (case fail_lifecycle ev t md (Some e) w of (e, w) \<Rightarrow> ((no_islet, Some e), w))
      | (None, t, w) \<Rightarrow>
     (case savepoint ev t w of
        (Some e, t, w) \<Rightarrow> ((no_islet, Some e), w)
      | (None, t, w) \<Rightarrow>
     (case drop_and_create ev md t w of
        (Some e, t, w) \<Rightarrow>
          (case rollback_to ev t w of
             (_, t, w) \<Rightarrow> (case fail_lifecycle ev t md (Some e) w of (e, w) \<Rightarrow> ((no_islet, Some e), w)))
      | (None, t, w) \<Rightarrow>
     (case (if initialize then opaque (Rand ev (tick w)) else ([], None)) of
        (_, Some e) \<Rightarrow> ((no_islet, Some e), bump w)
      | (token, None) \<Rightarrow>
     (case tx_call ev (advance ev (ID h) (if initialize then ''initializing'' else ''active'') token)
             t (bump w) of
        (row, t, w) \<Rightarrow>
          (case scan row of
             Inl e \<Rightarrow> ((no_islet, lifecycle_err e), w)
           | Inr (g, st, updated) \<Rightarrow>
               (case commit ev t w of
                  (e, w) \<Rightarrow>
                    ((islet_of (md\<lparr>Generation := g, State := st, UpdatedAt := updated\<rparr>), e), w))))))))))"

definition reset :: "env \<Rightarrow> islet \<Rightarrow> bool \<Rightarrow> bool \<Rightarrow> world \<Rightarrow> (islet \<times> err) \<times> world" where
  "reset ev h initialize recovering w =
     with_tx ev (\<lambda>e. (no_islet, lifecycle_err e)) (reset_tx ev h initialize recovering) w"

definition Reset :: "env \<Rightarrow> islet \<Rightarrow> world \<Rightarrow> (islet \<times> err) \<times> world" where
  "Reset ev h w = reset ev h False False w"

definition Recover :: "env \<Rightarrow> islet \<Rightarrow> world \<Rightarrow> (islet \<times> err) \<times> world" where
  "Recover ev h w = reset ev h False True w"

section \<open>Delete\<close>

definition delete_tx :: "env \<Rightarrow> manager \<Rightarrow> islet \<Rightarrow> tx \<Rightarrow> world \<Rightarrow> err \<times> world" where
  "delete_tx ev m h t w =
     (case lock_metadata ev h t w of
        ((md, e), t, w) \<Rightarrow>
     (if is_err e ErrNotFound then (None, w)
      else if e \<noteq> None then (e, w)
      else if State md = ''initializing'' then (Some (Sentinel ErrUnavailable), w)
      else
     (case check_dependencies ev (md_schema md) t w of
        (Some e, t, w) \<Rightarrow> (case fail_lifecycle ev t md (Some e) w of (e, w) \<Rightarrow> (Some e, w))
      | (None, t, w) \<Rightarrow>
     (case savepoint ev t w of
        (Some e, t, w) \<Rightarrow> (Some e, w)
      | (None, t, w) \<Rightarrow>
     (case tx_exec ev (drop_sql m md) t w of
        (Some e, t, w) \<Rightarrow>
          (case rollback_to ev t w of
             (_, t, w) \<Rightarrow> (case fail_lifecycle ev t md (Some e) w of (e, w) \<Rightarrow> (Some e, w)))
      | (None, t, w) \<Rightarrow>
     (case tx_change ev (\<lambda>_ d. Inr (delete_row (ID h) d)) t w of
        (Some e, t, w) \<Rightarrow> (lifecycle_err e, w)
      | (None, t, w) \<Rightarrow> commit ev t w))))))"

definition Delete :: "env \<Rightarrow> manager \<Rightarrow> islet \<Rightarrow> world \<Rightarrow> err \<times> world" where
  "Delete ev m h w = with_tx ev lifecycle_err (delete_tx ev m h) w"

end
