(* ===== verification/Policy.thy ===== *)
theory Policy
  imports Errors
begin

text \<open>
  The SQL policy (\<open>internal/policy/policy.go\<close>): \<open>Check\<close> parses one statement with PostgreSQL's
  grammar, decodes the parse tree from JSON and walks it; function bodies given as text are parsed
  and walked in turn. The parser (\<open>pg_query\<close>, another module) and \<open>json.Unmarshal\<close> are the two
  fields of a \<open>frontend\<close>, an argument of every definition that parses.

  A decoded object is the list of its pairs, in the order in which Go's \<open>range\<close> visits it: Go leaves
  that order open, so it is part of what the frontend returns and every theorem holds for each order.
\<close>

section \<open>Decoded JSON\<close>

datatype json =
    JNull
  | JBool bool
  | JNum string
  | JStr string
  | JArr "json list"
  | JObj "(string \<times> json) list"

type_synonym obj = "(string \<times> json) list"

text \<open>The type assertions \<open>v.(map[string]any)\<close> and \<open>v.([]any)\<close>, whose failure gives nil, and indexing.\<close>

definition as_obj :: "json \<Rightarrow> obj" where
  "as_obj v = (case v of JObj kvs \<Rightarrow> kvs | _ \<Rightarrow> [])"

definition as_arr :: "json \<Rightarrow> json list" where
  "as_arr v = (case v of JArr xs \<Rightarrow> xs | _ \<Rightarrow> [])"

definition index :: "obj \<Rightarrow> string \<Rightarrow> json" where
  "index m k = (case map_of m k of None \<Rightarrow> JNull | Some v \<Rightarrow> v)"

text \<open>\<open>str\<close>, \<open>stringNode\<close> and \<open>names\<close>.\<close>

definition str :: "json \<Rightarrow> string" where
  "str v = (case v of JStr s \<Rightarrow> s | _ \<Rightarrow> [])"

definition string_node :: "json \<Rightarrow> string" where
  "string_node v = str (index (as_obj (index (as_obj v) ''String'')) ''sval'')"

definition names :: "json \<Rightarrow> string list" where
  "names v = map string_node (as_arr v)"

section \<open>The allow-lists\<close>

text \<open>
  \<open>set\<close> splits a text into words. The literals of the source are the words below joined by blanks,
  so a list stands for the text \<open>join '' '' words\<close>.
\<close>

definition go_set :: "string \<Rightarrow> string \<Rightarrow> bool" where
  "go_set s = (\<lambda>v. List.member (go_fields s) v)"

definition statement_words :: "string list" where
  "statement_words =
   [''ReturnStmt'', ''SelectStmt'', ''InsertStmt'', ''UpdateStmt'', ''DeleteStmt'', ''MergeStmt'',
    ''CreateStmt'', ''AlterTableStmt'', ''IndexStmt'', ''ViewStmt'', ''CreateTableAsStmt'',
    ''RefreshMatViewStmt'', ''CreateSeqStmt'', ''AlterSeqStmt'', ''CompositeTypeStmt'',
    ''CreateEnumStmt'', ''AlterEnumStmt'', ''CreateDomainStmt'', ''AlterDomainStmt'',
    ''CreateFunctionStmt'', ''AlterFunctionStmt'', ''CreateTrigStmt'', ''CreatePolicyStmt'',
    ''AlterPolicyStmt'', ''DropStmt'', ''TruncateStmt'', ''CommentStmt'', ''ExplainStmt'',
    ''RenameStmt'', ''CallStmt'']"

definition object_words :: "string list" where
  "object_words =
   [''OBJECT_TABLE'', ''OBJECT_INDEX'', ''OBJECT_VIEW'', ''OBJECT_MATVIEW'', ''OBJECT_SEQUENCE'',
    ''OBJECT_TYPE'', ''OBJECT_DOMAIN'', ''OBJECT_FUNCTION'', ''OBJECT_PROCEDURE'',
    ''OBJECT_ROUTINE'', ''OBJECT_TRIGGER'', ''OBJECT_POLICY'', ''OBJECT_COLUMN'',
    ''OBJECT_TABCONSTRAINT'', ''OBJECT_ATTRIBUTE'']"

definition alteration_words :: "string list" where
  "alteration_words =
   [''AT_AddColumn'', ''AT_AddColumnToView'', ''AT_ColumnDefault'', ''AT_CookedColumnDefault'',
    ''AT_DropNotNull'', ''AT_SetNotNull'', ''AT_SetStatistics'', ''AT_SetOptions'',
    ''AT_ResetOptions'', ''AT_SetStorage'', ''AT_SetCompression'', ''AT_DropColumn'',
    ''AT_AddIndex'', ''AT_ReAddIndex'', ''AT_AddConstraint'', ''AT_ReAddConstraint'',
    ''AT_ReAddDomainConstraint'', ''AT_AlterConstraint'', ''AT_ValidateConstraint'',
    ''AT_DropConstraint'', ''AT_AlterColumnType'', ''AT_AlterColumnGenericOptions'',
    ''AT_ChangePersistence'', ''AT_SetRelOptions'', ''AT_ResetRelOptions'',
    ''AT_ReplaceRelOptions'', ''AT_EnableTrig'', ''AT_EnableAlwaysTrig'',
    ''AT_EnableReplicaTrig'', ''AT_DisableTrig'', ''AT_EnableTrigAll'', ''AT_DisableTrigAll'',
    ''AT_EnableTrigUser'', ''AT_DisableTrigUser'', ''AT_AddInherit'', ''AT_DropInherit'',
    ''AT_AddOf'', ''AT_DropOf'', ''AT_ReplicaIdentity'', ''AT_EnableRowSecurity'',
    ''AT_DisableRowSecurity'', ''AT_ForceRowSecurity'', ''AT_NoForceRowSecurity'',
    ''AT_GenericOptions'', ''AT_AttachPartition'', ''AT_DetachPartition'', ''AT_AddIdentity'',
    ''AT_SetIdentity'', ''AT_DropIdentity'', ''AT_SetExpression'', ''AT_DropExpression'',
    ''AT_SetLogged'']"

definition builtin_words :: "string list" where
  "builtin_words =
   [''abs'', ''acos'', ''acosh'', ''asin'', ''asinh'', ''atan'', ''atan2'', ''atanh'', ''ceil'',
    ''ceiling'', ''cbrt'', ''cos'', ''cosh'', ''cot'', ''degrees'', ''div'', ''exp'',
    ''factorial'', ''floor'', ''gcd'', ''greatest'', ''lcm'', ''least'', ''ln'', ''log'',
    ''log10'', ''mod'', ''pi'', ''power'', ''radians'', ''round'', ''scale'', ''sign'', ''sin'',
    ''sinh'', ''sqrt'', ''tan'', ''tanh'', ''trim_scale'', ''trunc'', ''width_bucket'',
    ''random'', ''setseed'', ''min'', ''max'', ''sum'', ''avg'', ''count'', ''every'',
    ''bool_and'', ''bool_or'', ''bit_and'', ''bit_or'', ''bit_xor'', ''array_agg'',
    ''string_agg'', ''json_agg'', ''jsonb_agg'', ''json_object_agg'', ''jsonb_object_agg'',
    ''stddev'', ''stddev_pop'', ''stddev_samp'', ''variance'', ''var_pop'', ''var_samp'',
    ''percentile_cont'', ''percentile_disc'', ''mode'', ''rank'', ''dense_rank'', ''row_number'',
    ''percent_rank'', ''cume_dist'', ''ntile'', ''lag'', ''lead'', ''first_value'',
    ''last_value'', ''nth_value'', ''lower'', ''upper'', ''length'', ''char_length'',
    ''character_length'', ''octet_length'', ''bit_length'', ''concat'', ''concat_ws'', ''format'',
    ''left'', ''right'', ''lpad'', ''rpad'', ''ltrim'', ''rtrim'', ''btrim'', ''trim'',
    ''substring'', ''substr'', ''overlay'', ''position'', ''strpos'', ''replace'', ''reverse'',
    ''repeat'', ''split_part'', ''starts_with'', ''ascii'', ''chr'', ''initcap'', ''translate'',
    ''md5'', ''sha224'', ''sha256'', ''sha384'', ''sha512'', ''encode'', ''decode'',
    ''quote_ident'', ''quote_literal'', ''quote_nullable'', ''regexp_count'', ''regexp_instr'',
    ''regexp_like'', ''regexp_match'', ''regexp_matches'', ''regexp_replace'',
    ''regexp_split_to_array'', ''regexp_split_to_table'', ''regexp_substr'', ''to_ascii'',
    ''to_hex'', ''to_bin'', ''normalize'', ''is_normalized'', ''to_char'', ''to_date'',
    ''to_number'', ''to_timestamp'', ''date_part'', ''date_trunc'', ''date_bin'', ''age'',
    ''make_date'', ''make_time'', ''make_timestamp'', ''make_timestamptz'', ''make_interval'',
    ''extract'', ''now'', ''transaction_timestamp'', ''statement_timestamp'', ''clock_timestamp'',
    ''timeofday'', ''isfinite'', ''justify_days'', ''justify_hours'', ''justify_interval'',
    ''timezone'', ''overlaps'', ''generate_series'', ''generate_subscripts'', ''unnest'',
    ''array_append'', ''array_prepend'', ''array_cat'', ''array_dims'', ''array_fill'',
    ''array_length'', ''array_lower'', ''array_upper'', ''array_ndims'', ''array_position'',
    ''array_positions'', ''array_remove'', ''array_replace'', ''array_to_string'',
    ''cardinality'', ''string_to_array'', ''string_to_table'', ''trim_array'', ''array_sample'',
    ''array_shuffle'', ''json_build_array'', ''jsonb_build_array'', ''json_build_object'',
    ''jsonb_build_object'', ''json_object'', ''jsonb_object'', ''to_json'', ''to_jsonb'',
    ''row_to_json'', ''array_to_json'', ''json_array_length'', ''jsonb_array_length'',
    ''json_each'', ''jsonb_each'', ''json_each_text'', ''jsonb_each_text'', ''json_extract_path'',
    ''jsonb_extract_path'', ''json_extract_path_text'', ''jsonb_extract_path_text'',
    ''json_object_keys'', ''jsonb_object_keys'', ''json_populate_record'',
    ''jsonb_populate_record'', ''json_populate_recordset'', ''jsonb_populate_recordset'',
    ''json_to_record'', ''jsonb_to_record'', ''json_to_recordset'', ''jsonb_to_recordset'',
    ''json_array_elements'', ''jsonb_array_elements'', ''json_array_elements_text'',
    ''jsonb_array_elements_text'', ''json_strip_nulls'', ''jsonb_strip_nulls'', ''json_typeof'',
    ''jsonb_typeof'', ''jsonb_set'', ''jsonb_set_lax'', ''jsonb_insert'', ''jsonb_pretty'',
    ''jsonb_path_exists'', ''jsonb_path_match'', ''jsonb_path_query'', ''jsonb_path_query_array'',
    ''jsonb_path_query_first'', ''jsonb_path_exists_tz'', ''jsonb_path_match_tz'',
    ''jsonb_path_query_tz'', ''jsonb_path_query_array_tz'', ''jsonb_path_query_first_tz'',
    ''nextval'', ''currval'', ''lastval'', ''setval'', ''gen_random_uuid'', ''uuidv4'',
    ''uuidv7'', ''uuid_extract_timestamp'', ''uuid_extract_version'', ''pg_typeof'',
    ''pg_column_size'', ''pg_size_pretty'', ''pg_backend_pid'', ''pg_sleep'', ''pg_sleep_for'',
    ''pg_sleep_until'', ''current_database'', ''current_schema'', ''current_schemas'',
    ''current_setting'', ''version'', ''obj_description'', ''col_description'',
    ''has_schema_privilege'', ''has_table_privilege'', ''has_function_privilege'',
    ''has_database_privilege'', ''has_sequence_privilege'', ''has_type_privilege'',
    ''has_column_privilege'', ''has_any_column_privilege'', ''to_regclass'', ''to_regtype'',
    ''to_regproc'', ''to_regprocedure'', ''to_regnamespace'', ''to_regrole'',
    ''pg_get_serial_sequence'', ''pg_get_expr'', ''pg_get_viewdef'', ''pg_get_constraintdef'',
    ''pg_get_indexdef'', ''pg_get_functiondef'', ''pg_get_function_arguments'',
    ''pg_get_function_result'', ''pg_table_size'', ''pg_relation_size'',
    ''pg_total_relation_size'', ''pg_indexes_size'', ''pg_is_in_recovery'', ''inet_client_addr'',
    ''inet_client_port'', ''inet_server_addr'', ''inet_server_port'']"

definition statements :: "string \<Rightarrow> bool" where
  "statements = go_set (join '' '' statement_words)"

definition objects :: "string \<Rightarrow> bool" where
  "objects = go_set (join '' '' object_words)"

definition alterations :: "string \<Rightarrow> bool" where
  "alterations = go_set (join '' '' alteration_words)"

definition builtins :: "string \<Rightarrow> bool" where
  "builtins = go_set (join '' '' builtin_words)"

definition plain_word :: "string \<Rightarrow> bool" where
  "plain_word w \<longleftrightarrow> w \<noteq> [] \<and> space_free w"

lemma go_set_join: "list_all plain_word ws \<Longrightarrow> go_set (join '' '' ws) v \<longleftrightarrow> v \<in> set ws"
  by (simp add: go_set_def go_fields_join list_all_iff plain_word_def)

lemma statements_iff: "statements v \<longleftrightarrow> v \<in> set statement_words"
  unfolding statements_def
  by (rule go_set_join) (simp add: statement_words_def plain_word_def is_space_def)

lemma objects_iff: "objects v \<longleftrightarrow> v \<in> set object_words"
  unfolding objects_def
  by (rule go_set_join) (simp add: object_words_def plain_word_def is_space_def)

lemma alterations_iff: "alterations v \<longleftrightarrow> v \<in> set alteration_words"
  unfolding alterations_def
  by (rule go_set_join) (simp add: alteration_words_def plain_word_def is_space_def)

lemma builtins_iff: "builtins v \<longleftrightarrow> v \<in> set builtin_words"
  unfolding builtins_def
  by (rule go_set_join) (simp add: builtin_words_def plain_word_def is_space_def)

section \<open>The checker\<close>

text \<open>
  What the policy calls outside the repository: \<open>pgquery.ParseToJSON\<close> and \<open>json.Unmarshal\<close> into
  a \<open>map[string]any\<close>.
\<close>

record frontend =
  ParseToJSON :: "string \<Rightarrow> go_error + string"
  Unmarshal :: "string \<Rightarrow> go_error + obj"

text \<open>\<open>checker.local\<close>: what each known function name may do; a missing key reads as false.\<close>

type_synonym locals = "string \<Rightarrow> bool option"

definition last_name :: "string list \<Rightarrow> string" where
  "last_name parts = parts ! (length parts - 1)"

text \<open>\<open>checker.function\<close>.\<close>

definition check_function :: "string \<Rightarrow> locals \<Rightarrow> string list \<Rightarrow> err" where
  "check_function schema local parts =
     (if length parts = 0 \<or> length parts > 2 then Some (Errorf ''invalid function name'')
      else
        let name = last_name parts;
            namespace = (if length parts = 2 then parts ! 0 else [])
        in if namespace \<noteq> [] \<and> namespace \<noteq> ''pg_catalog'' \<and> namespace \<noteq> schema
           then Some (Errorf ''external function namespace is not allowed'')
           else if namespace \<noteq> ''pg_catalog'' \<and> local name = Some True then None
           else if namespace \<noteq> schema \<and> builtins name then None
           else Some (Errorf (''function '' @ join ''.'' parts @ '' is not in the SQL policy'')))"

text \<open>
  The key test at the head of the loop in \<open>walk\<close>: \<open>key[0]\<close> is an upper-case ASCII letter and the
  key ends in \<open>Stmt\<close>.
\<close>

definition upper :: "char \<Rightarrow> bool" where
  "upper c \<longleftrightarrow> of_char c \<ge> (65::nat) \<and> of_char c \<le> (90::nat)"

definition stmt_key :: "string \<Rightarrow> bool" where
  "stmt_key key \<longleftrightarrow> (case key of [] \<Rightarrow> False | c # _ \<Rightarrow> upper c) \<and> has_suffix key ''Stmt''"

definition not_local :: go_error where
  "not_local = Errorf ''object kind is not local''"

definition unlogged :: go_error where
  "unlogged = Errorf ''temporary and unlogged relations are not supported''"

text \<open>\<open>x == "t" || x == "u"\<close> on an interface value.\<close>

definition temp_or_unlogged :: "json \<Rightarrow> bool" where
  "temp_or_unlogged v \<longleftrightarrow> v = JStr ''t'' \<or> v = JStr ''u''"

text \<open>The \<open>switch key\<close> of \<open>walk\<close>, all cases but \<open>CreateFunctionStmt\<close>, which changes \<open>local\<close>.\<close>

definition switch_check :: "string \<Rightarrow> locals \<Rightarrow> string \<Rightarrow> obj \<Rightarrow> err" where
  "switch_check schema local key node =
     (if key = ''DropStmt'' then
        (if objects (str (index node ''removeType'')) then None else Some not_local)
      else if key = ''RenameStmt'' \<or> key = ''CommentStmt'' then
        (let field = (if key = ''CommentStmt'' then ''objtype'' else ''renameType'')
         in if objects (str (index node field)) then None else Some not_local)
      else if key = ''AlterTableStmt'' then
        (if objects (str (index node ''objtype'')) then None else Some not_local)
      else if key = ''AlterTableCmd'' then
        (if alterations (str (index node ''subtype'')) then None
         else Some (Errorf (''table alteration '' @ str (index node ''subtype'') @ '' is not allowed'')))
      else if key = ''RangeVar'' then
        (if temp_or_unlogged (index node ''relpersistence'') then Some unlogged else None)
      else if key = ''IndexStmt'' then
        (if index node ''concurrent'' = JBool True \<or> str (index node ''tableSpace'') \<noteq> []
         then Some (Errorf ''concurrent indexes and tablespaces are not supported'') else None)
      else if key = ''FuncCall'' \<or> key = ''CreateTrigStmt'' then
        check_function schema local (names (index node ''funcname''))
      else if key = ''DefElem'' then
        (if str (index node ''defname'') = ''set'' \<or> str (index node ''defname'') = ''support''
         then Some (Errorf ''function settings and support hooks are not allowed'') else None)
      else None)"

text \<open>The three tests after the \<open>switch\<close>.\<close>

definition tail_check :: "string \<Rightarrow> locals \<Rightarrow> string \<Rightarrow> json \<Rightarrow> err" where
  "tail_check schema local key value =
     (case (if key = ''funcname'' then check_function schema local (names value) else None) of
        Some e \<Rightarrow> Some e
      | None \<Rightarrow>
          if key = ''relpersistence'' \<and> temp_or_unlogged value then Some unlogged
          else if key = ''tablespacename'' \<and> str value \<noteq> []
          then Some (Errorf ''tablespaces are not supported'') else None)"

text \<open>The loop over the options in \<open>definition\<close>, from the current \<open>lang\<close> and \<open>body\<close>.\<close>

fun scan_options :: "json list \<Rightarrow> string \<Rightarrow> string \<Rightarrow> go_error + (string \<times> string)" where
  "scan_options [] lang body = Inr (lang, body)"
| "scan_options (option # opts) lang body =
     (let d = as_obj (index (as_obj option) ''DefElem'');
          defname = str (index d ''defname'')
      in if defname = ''language'' then scan_options opts (string_node (index d ''arg'')) body
         else if defname = ''as'' then
           (let items = as_arr (index (as_obj (index (as_obj (index d ''arg'')) ''List'')) ''items'')
            in if length items \<noteq> 1 then Inl (Errorf ''expected a SQL function body'')
               else scan_options opts lang (string_node (items ! 0)))
         else if defname = ''set'' \<or> defname = ''support'' then
           Inl (Errorf ''function configuration and support hooks are not allowed'')
         else scan_options opts lang body)"

text \<open>
  \<open>checker.definition\<close> up to its recursive call: the new \<open>local\<close>, and the text body that is still
  to be parsed (empty when there is none).
\<close>

definition define_function :: "string \<Rightarrow> locals \<Rightarrow> obj \<Rightarrow> go_error + (locals \<times> string)" where
  "define_function schema local node =
     (let parts = names (index node ''funcname'')
      in if length parts = 0 \<or> length parts > 2 \<or> (length parts = 2 \<and> parts ! 0 \<noteq> schema)
         then Inl (Errorf ''function must be islet-local'')
         else
           let name = last_name parts
           in if local name = Some False
              then Inl (Errorf ''function name conflicts with a catalog routine'')
              else
                let local' = local(name \<mapsto> True)
                in case scan_options (as_arr (index node ''options'')) [] [] of
                     Inl e \<Rightarrow> Inl e
                   | Inr (lang, body) \<Rightarrow>
                       if lang \<noteq> ''sql''
                       then Inl (Errorf ''only SQL language functions and procedures are supported'')
                       else if body \<noteq> [] then Inr (local', body)
                       else if index node ''sql_body'' = JNull
                       then Inl (Errorf ''SQL function body is required'')
                       else Inr (local', []))"

text \<open>\<open>ParseToJSON\<close> followed by \<open>Unmarshal\<close>, with the error of the first wrapped.\<close>

definition parse_tree :: "frontend \<Rightarrow> string \<Rightarrow> go_error + obj" where
  "parse_tree fe sql =
     (case ParseToJSON fe sql of
        Inl e \<Rightarrow> Inl (Wrapf ''parse SQL'' e)
      | Inr raw \<Rightarrow> Unmarshal fe raw)"

definition stmts :: "obj \<Rightarrow> json list" where
  "stmts tree = as_arr (index tree ''stmts'')"

text \<open>
  \<open>checker.parse\<close> and \<open>checker.walk\<close>. \<open>local\<close> is a Go map shared by the whole run, so it is
  threaded through; \<open>depth\<close> belongs to the receiver, a copy, so it only goes down. The recursion
  ends because the depth is bounded and a walk goes to smaller trees.
\<close>

function (sequential)
  parse :: "frontend \<Rightarrow> string \<Rightarrow> nat \<Rightarrow> locals \<Rightarrow> string \<Rightarrow> bool \<Rightarrow> go_error + locals" and
  walk :: "frontend \<Rightarrow> string \<Rightarrow> nat \<Rightarrow> locals \<Rightarrow> json \<Rightarrow> go_error + locals" and
  walk_list :: "frontend \<Rightarrow> string \<Rightarrow> nat \<Rightarrow> locals \<Rightarrow> json list \<Rightarrow> go_error + locals" and
  walk_fields :: "frontend \<Rightarrow> string \<Rightarrow> nat \<Rightarrow> locals \<Rightarrow> obj \<Rightarrow> go_error + locals"
where
  "parse fe schema depth local sql single =
     (if depth > 16 then Inl (Errorf ''function nesting exceeds 16'')
      else case parse_tree fe sql of
             Inl e \<Rightarrow> Inl e
           | Inr tree \<Rightarrow>
               if length (stmts tree) = 0 \<or> (single \<and> length (stmts tree) \<noteq> 1)
               then Inl (Errorf (''expected '' @
                      (if single then ''one statement'' else ''a nonempty SQL body'')))
               else walk fe schema depth local (JObj tree))"
| "walk fe schema depth local (JArr xs) = walk_list fe schema depth local xs"
| "walk fe schema depth local (JObj kvs) = walk_fields fe schema depth local kvs"
| "walk fe schema depth local _ = Inr local"
| "walk_list fe schema depth local [] = Inr local"
| "walk_list fe schema depth local (v # vs) =
     (case walk fe schema depth local v of
        Inl e \<Rightarrow> Inl e
      | Inr local' \<Rightarrow> walk_list fe schema depth local' vs)"
| "walk_fields fe schema depth local [] = Inr local"
| "walk_fields fe schema depth local ((key, value) # rest) =
     (if stmt_key key \<and> \<not> statements key
      then Inl (Errorf (''statement '' @ key @ '' is not allowed''))
      else case switch_check schema local key (as_obj value) of
        Some e \<Rightarrow> Inl e
      | None \<Rightarrow>
          (case (if key = ''CreateFunctionStmt''
                 then (case define_function schema local (as_obj value) of
                         Inl e \<Rightarrow> Inl e
                       | Inr (local', body) \<Rightarrow>
                           if body \<noteq> [] then parse fe schema (depth + 1) local' body False
                           else Inr local')
                 else Inr local) of
             Inl e \<Rightarrow> Inl e
           | Inr local' \<Rightarrow>
               (case tail_check schema local' key value of
                  Some e \<Rightarrow> Inl e
                | None \<Rightarrow>
                    (case walk fe schema depth local' value of
                       Inl e \<Rightarrow> Inl e
                     | Inr local'' \<Rightarrow> walk_fields fe schema depth local'' rest))))"
  by pat_completeness auto
termination
  by (relation "inv_image (less_than <*lex*> less_than <*lex*> less_than)
       (\<lambda>x. case x of
          Inl (Inl (fe, schema, depth, local, sql, single)) \<Rightarrow> if depth > 16 then (0, 0, 0) else (18 - depth, 1, 0)
        | Inl (Inr (fe, schema, depth, local, v)) \<Rightarrow> (max 1 (18 - depth), 0, Suc (size v))
        | Inr (Inl (fe, schema, depth, local, vs)) \<Rightarrow> (max 1 (18 - depth), 0, Suc (size_list size vs))
        | Inr (Inr (fe, schema, depth, local, kvs)) \<Rightarrow>
            (max 1 (18 - depth), 0, Suc (size_list (size_prod (\<lambda>_. 0) size) kvs)))")
     auto

text \<open>\<open>Check\<close>: \<open>maps.Copy\<close> makes a copy of the caller's map, which the model's maps are anyway.\<close>

definition check :: "frontend \<Rightarrow> string \<Rightarrow> string \<Rightarrow> locals \<Rightarrow> err" where
  "check fe sql schema local =
     (case parse fe schema 0 local sql True of Inl e \<Rightarrow> Some e | Inr _ \<Rightarrow> None)"

end
