(* ===== verification/Execute.thy ===== *)
theory Execute
  imports Lifecycle Policy
begin

text \<open>
  Running statements in an islet (\<open>internal/engine/execute.go\<close>) over a connection of its role
  (\<open>connectRuntime\<close> and \<open>runtimeConfig\<close> in \<open>connection.go\<close>): \<open>Execute\<close>, \<open>Batch\<close>, \<open>execute\<close> and
  \<open>localFunctions\<close>. A batch is one transaction: the gateway, the dependency query, then for each
  statement the islet's functions, the policy and the statement itself, then \<open>finish\<close> when
  initializing, then the commit. The parser behind the policy is the parameter \<open>fe\<close>.
\<close>

section \<open>Runtime connections\<close>

definition runtime_config :: "manager \<Rightarrow> metadata \<Rightarrow> conn_config" where
  "runtime_config m md =
     (Runtime m)\<lparr>User := md_role md, Password := md_password md,
       RuntimeParams :=
         [''search_path'' \<mapsto> ident m (md_schema md) @ '',pg_catalog'',
          ''standard_conforming_strings'' \<mapsto> ''on'',
          ''statement_timeout'' \<mapsto> timeout_setting (StatementTimeout (Settings m)),
          ''lock_timeout'' \<mapsto> timeout_setting (LockTimeout (Settings m)),
          ''idle_in_transaction_session_timeout'' \<mapsto>
            timeout_setting (IdleTransactionTimeout (Settings m)),
          ''application_name'' \<mapsto> ''pgislet-runtime''],
       ExecMode := ''QueryExecModeExec''\<rparr>"

text \<open>What the server does with a connection: password and \<open>CONNECT\<close> privilege.\<close>

definition authenticate :: "conn_config \<Rightarrow> db \<Rightarrow> err" where
  "authenticate cfg d =
     (case roles d (User cfg) of
        None \<Rightarrow> Some (sqlstate ''28P01'')
      | Some a \<Rightarrow>
          if \<not> Login a then Some (sqlstate ''28000'')
          else if role_password a \<noteq> Password cfg then Some (sqlstate ''28P01'')
          else if (User cfg, ConnectTo (Database cfg)) \<notin> grants d then Some (sqlstate ''42501'')
          else None)"

definition connect_runtime :: "env \<Rightarrow> manager \<Rightarrow> metadata \<Rightarrow> world \<Rightarrow> (go_error + conn_config) \<times> world" where
  "connect_runtime ev m md w =
     (let cfg = runtime_config m md;
          e = (case Fault ev (tick w) of Some e \<Rightarrow> Some e | None \<Rightarrow> authenticate cfg (store w))
      in case e of
           Some _ \<Rightarrow> (Inl (wrap ErrRuntimeConnection (classify e)), bump w)
         | None \<Rightarrow> (Inr cfg, bump w))"

section \<open>Local functions\<close>

text \<open>The reserved names map to false, the functions of the schema with other names to true.\<close>

definition local_map :: "locals \<Rightarrow> string list \<Rightarrow> locals" where
  "local_map reserved procs =
     fold (\<lambda>name local. if reserved name = None then local(name \<mapsto> True) else local) procs
       (\<lambda>name. map_option (\<lambda>_. False) (reserved name))"

definition local_functions ::
  "env \<Rightarrow> manager \<Rightarrow> string \<Rightarrow> tx \<Rightarrow> world \<Rightarrow> (go_error + locals) \<times> tx \<times> world" where
  "local_functions ev m s t w =
     tx_call ev (\<lambda>n d. Inr (local_map (Reserved m) (ProcNames ev n s d), d)) t w"

section \<open>Statements\<close>

definition error_reply :: "go_error \<Rightarrow> reply" where
  "error_reply e = \<lparr>QueryErr = Some e, FieldDescriptions = [], RawRows = [], RowsErr = None, Tag = [], TagRows = 0\<rparr>"

text \<open>What \<open>tx.Query\<close> gets for a user's statement under the role \<open>u\<close>, and what the statement does.\<close>

definition tx_reply :: "env \<Rightarrow> string \<Rightarrow> string \<Rightarrow> tx \<Rightarrow> world \<Rightarrow> reply \<times> db" where
  "tx_reply ev u sql t w =
     (case Status t of
        Broken \<Rightarrow> (error_reply conn_closed, View t)
      | Aborted \<Rightarrow> (error_reply in_failed_tx, View t)
      | Healthy \<Rightarrow>
          (case Fault ev (tick w) of
             Some e \<Rightarrow> (error_reply e, View t)
           | None \<Rightarrow> Run ev (tick w) u sql (View t)))"

definition reply_err :: "reply \<Rightarrow> err" where
  "reply_err r = (case QueryErr r of Some e \<Rightarrow> Some e | None \<Rightarrow> RowsErr r)"

text \<open>
  The sequences a statement moves that gets to the server; they stay moved whatever becomes of the
  transaction, and also when the answer is lost.
\<close>

definition moved :: "env \<Rightarrow> string \<Rightarrow> string \<Rightarrow> tx \<Rightarrow> world \<Rightarrow> world" where
  "moved ev u sql t w =
     (if Status t = Healthy then w\<lparr>advanced := advanced w @ Advances ev (tick w) u sql (View t)\<rparr> else w)"

lemma moved_sel [simp]: "store (moved ev u sql t w) = store w" "tick (moved ev u sql t w) = tick w"
  by (simp_all add: moved_def)

text \<open>\<open>Manager.query\<close> on the transaction; \<open>closeRuntime\<close> inside it breaks the connection.\<close>

definition tx_query ::
  "env \<Rightarrow> string \<Rightarrow> string \<Rightarrow> int \<Rightarrow> int \<Rightarrow> tx \<Rightarrow> world \<Rightarrow> outcome \<times> tx \<times> world" where
  "tx_query ev u sql rows bytes t w =
     (case tx_reply ev u sql t w of
        (r, v) \<Rightarrow>
          let out = query r (Clock ev (tick w) 0) (Clock ev (tick w) 1) rows bytes;
              st = (if Closed out then Broken
                    else case reply_err r of Some e \<Rightarrow> status_after e | None \<Rightarrow> Status t)
          in (out, t\<lparr>View := (if st = Healthy then v else View t), Status := st\<rparr>, bump (moved ev u sql t w)))"

text \<open>\<open>if e, ok := mapped.(*Error); ok { e.Statement = i }\<close>.\<close>

definition with_statement :: "nat \<Rightarrow> err \<Rightarrow> err" where
  "with_statement i e =
     (case e of Some (IsletError k c _) \<Rightarrow> Some (IsletError k c (int i)) | _ \<Rightarrow> e)"

text \<open>The loop over the statements, from the \<open>i\<close>th on, with the budgets that are left.\<close>

fun exec_loop ::
  "env \<Rightarrow> manager \<Rightarrow> frontend \<Rightarrow> metadata \<Rightarrow> string \<Rightarrow> nat \<Rightarrow> string list \<Rightarrow> int \<Rightarrow> int \<Rightarrow> tx \<Rightarrow> world
     \<Rightarrow> (result list \<times> err) \<times> tx \<times> world" where
  "exec_loop ev m fe md u i [] rows bytes t w = (([], None), t, w)"
| "exec_loop ev m fe md u i (sql # rest) rows bytes t w =
     (case local_functions ev m (md_schema md) t w of
        (Inl e, t, w) \<Rightarrow> (([], classify (Some e)), t, w)
      | (Inr local, t, w) \<Rightarrow>
          (case check fe sql (md_schema md) local of
             Some e \<Rightarrow> (([], Some (IsletError ErrPolicy (Some e) (int i))), t, w)
           | None \<Rightarrow>
               (case tx_query ev u sql rows bytes t w of
                  (out, t, w) \<Rightarrow>
                    (case Failure out of
                       Some e \<Rightarrow> (([Answer out], with_statement i (classify (Some e))), t, w)
                     | None \<Rightarrow>
                         (case exec_loop ev m fe md u (i + 1) rest (RowsLeft out) (BytesLeft out) t w of
                            ((results, e), t, w) \<Rightarrow> ((Answer out # results, e), t, w))))))"

section \<open>execute\<close>

definition enter_tx :: "env \<Rightarrow> string \<Rightarrow> metadata \<Rightarrow> string option \<Rightarrow> tx \<Rightarrow> world \<Rightarrow> err \<times> tx \<times> world" where
  "enter_tx ev u md token t w =
     exec_error (tx_call ev
       (\<lambda>n d. case call_enter (Busy ev n) u (ID md) (Generation md) token d of
                Inl e \<Rightarrow> Inl e | Inr d' \<Rightarrow> Inr ((), d')) t w)"

definition execute_tx ::
  "env \<Rightarrow> manager \<Rightarrow> frontend \<Rightarrow> metadata \<Rightarrow> string list \<Rightarrow> bool \<Rightarrow> conn_config \<Rightarrow> tx \<Rightarrow> world
     \<Rightarrow> (result list \<times> err) \<times> world" where
  "execute_tx ev m fe md sqls initializing conn t w =
     (let token = (if initializing then Some (md_token md) else None)
      in case enter_tx ev (User conn) md token t w of
        (Some e, t, w) \<Rightarrow> (([], classify (Some e)), w)
      | (None, t, w) \<Rightarrow>
     (case pool_query ev (\<lambda>n d. dependency_query (Catalog ev n d) (md_schema md)) w of
        (row, w) \<Rightarrow>
     (case dependency_error row of
        Some e \<Rightarrow> (([], Some e), w)
      | None \<Rightarrow>
     (case exec_loop ev m fe md (User conn) 0 sqls (MaxRows (Settings m)) (MaxResultBytes (Settings m)) t w of
        ((results, Some e), t, w) \<Rightarrow> ((results, Some e), w)
      | ((results, None), t, w) \<Rightarrow>
          if initializing then
            (case tx_change ev (\<lambda>now d. call_finish (User conn) now (ID md) (Generation md) (md_token md) d) t w of
               (Some e, t, w) \<Rightarrow> ((results, classify (Some e)), w)
             | (None, t, w) \<Rightarrow> (case commit ev t w of (e, w) \<Rightarrow> ((results, e), w)))
          else (case commit ev t w of (e, w) \<Rightarrow> ((results, e), w))))))"

definition execute ::
  "env \<Rightarrow> manager \<Rightarrow> frontend \<Rightarrow> metadata \<Rightarrow> string list \<Rightarrow> bool \<Rightarrow> world \<Rightarrow> (result list \<times> err) \<times> world" where
  "execute ev m fe md sqls initializing w =
     (case check_size (Settings m) sqls of
        Some e \<Rightarrow> (([], Some e), w)
      | None \<Rightarrow>
     (case connect_runtime ev m md w of
        (Inl e, w) \<Rightarrow> (([], Some e), w)
      | (Inr conn, w) \<Rightarrow>
     (case with_tx ev (\<lambda>e. ([], classify (Some e))) (execute_tx ev m fe md sqls initializing conn) w of
        (r, w) \<Rightarrow> (r, close_runtime w))))"

definition Batch ::
  "env \<Rightarrow> manager \<Rightarrow> frontend \<Rightarrow> islet \<Rightarrow> string list \<Rightarrow> world \<Rightarrow> (result list \<times> err) \<times> world" where
  "Batch ev m fe h sqls w =
     (case check_size (Settings m) sqls of
        Some e \<Rightarrow> (([], Some e), w)
      | None \<Rightarrow>
     (case lookup ev (ID h) w of
        ((md, Some e), w) \<Rightarrow> (([], Some e), w)
      | ((md, None), w) \<Rightarrow>
          if Generation md \<noteq> Generation h then (([], Some (Sentinel ErrStaleGeneration)), w)
          else execute ev m fe md sqls False w))"

definition Execute :: "env \<Rightarrow> manager \<Rightarrow> frontend \<Rightarrow> islet \<Rightarrow> string \<Rightarrow> world \<Rightarrow> (result \<times> err) \<times> world" where
  "Execute ev m fe h sql w =
     (case Batch ev m fe h [sql] w of
        ((results, e), w) \<Rightarrow> (((case results of r # _ \<Rightarrow> r | [] \<Rightarrow> empty_result), e), w))"

end
