(* ===== verification/LifecycleSafety.thy ===== *)
theory LifecycleSafety
  imports Lifecycle
begin

text \<open>
  What the lifecycle operations do to the database. The statements of each operation amount to one
  change of the protocol; every run of an operation ends with the database as other sessions left
  it, with that change, or (reset and delete) with the islet marked failed, and the error tells which.
\<close>

section \<open>The environment's part\<close>

text \<open>
  What is documented of the other parties: errors of the driver carry none of the module's
  sentinels and are not its own \<open>*Error\<close>, are not \<open>ErrNoRows\<close> and have none of the SQLSTATEs the gateway raises, \<open>rand.Read\<close> fills the bytes it was given, and other sessions,
  being managers of the same registry or strangers to it, make changes of the protocol.
\<close>

definition module_sentinels :: "sentinel list" where
  "module_sentinels =
     [ErrNotFound, ErrBusy, ErrUnavailable, ErrFailed, ErrStaleGeneration, ErrPolicy, ErrTimeout,
      ErrResultLimit, ErrSQLTooLarge, ErrRuntimeConnection, ErrInitialization, ErrLifecycle, ErrQuery,
      ErrOutcomeUnknown, ErrUnsupported, ErrExternalDependency]"

definition driver_error :: "go_error \<Rightarrow> bool" where
  "driver_error e \<longleftrightarrow>
     list_all (\<lambda>s. \<not> errors_is e s) module_sentinels \<and> \<not> errors_is e NoRows \<and>
     (case as_pg e of None \<Rightarrow> True | Some p \<Rightarrow> Code p \<notin> {''PI001'', ''PI002'', ''PI003'', ''PI004''}) \<and>
     (case e of IsletError k x n \<Rightarrow> False | _ \<Rightarrow> True)"

lemma driver_error_fixed [simp]:
  "driver_error conn_closed" "driver_error in_failed_tx"
  "driver_error (sqlstate code) \<longleftrightarrow> code \<notin> {''PI001'', ''PI002'', ''PI003'', ''PI004''}"
  by (simp_all add: driver_error_def conn_closed_def in_failed_tx_def sqlstate_def module_sentinels_def)

text \<open>Classifying such an error never makes it one of the registry's answers.\<close>

lemma classify_driver:
  "driver_error e \<Longrightarrow> k \<in> {ErrNotFound, ErrStaleGeneration, ErrUnavailable, ErrFailed} \<Longrightarrow>
     \<not> is_err (classify (Some e)) k"
  by (auto simp: driver_error_def classify_def module_sentinels_def code_kind_def split: option.splits)

definition env_ok :: "string \<Rightarrow> env \<Rightarrow> bool" where
  "env_ok c ev \<longleftrightarrow>
     (\<forall>n e. Fault ev n = Some e \<longrightarrow> driver_error e) \<and>
     (\<forall>n e b. CommitFault ev n = Some (e, b) \<longrightarrow> driver_error e) \<and>
     (\<forall>n bs. Rand ev n = Inr bs \<longrightarrow> random_bytes bs) \<and>
     (\<forall>n d. registry_ok c d \<longrightarrow> changes c d (Others ev n d))"

text \<open>The database a transaction began with: other sessions may have acted once more.\<close>

definition began :: "env \<Rightarrow> db \<Rightarrow> db \<Rightarrow> bool" where
  "began ev d d' \<longleftrightarrow> (\<exists>n. d' = Others ev n d)"

lemma began_changes: "env_ok c ev \<Longrightarrow> registry_ok c d \<Longrightarrow> began ev d d' \<Longrightarrow> changes c d d'"
  by (auto simp: env_ok_def began_def)

lemma began_ok: "env_ok c ev \<Longrightarrow> registry_ok c d \<Longrightarrow> began ev d d' \<Longrightarrow> registry_ok c d'"
  using began_changes changes_registry_ok by blast

text \<open>Other sessions may act before a transaction and again before it holds its locks.\<close>

definition found :: "env \<Rightarrow> db \<Rightarrow> db \<Rightarrow> bool" where
  "found ev d d' \<longleftrightarrow> d' = d \<or> began ev d d' \<or> (\<exists>d1. began ev d d1 \<and> (d' = d1 \<or> began ev d1 d'))"

lemma found_changes: "env_ok c ev \<Longrightarrow> registry_ok c d \<Longrightarrow> found ev d d' \<Longrightarrow> changes c d d'"
  unfolding found_def using began_changes began_ok by (metis rtranclp.rtrancl_refl rtranclp_trans)

section \<open>Rules for the operations' parts\<close>

lemma with_tx_rule:
  assumes "\<And>e w'. began ev (store w) (store w') \<Longrightarrow> advanced w' = advanced w \<Longrightarrow> Q (fail e, w')"
    and "\<And>t w1 a w'. began ev (store w) (store w1) \<Longrightarrow> View t = store w1 \<Longrightarrow> Status t = Healthy \<Longrightarrow>
      Saved t = None \<Longrightarrow> body t w1 = (a, w') \<Longrightarrow> advanced w1 = advanced w \<Longrightarrow> Q (a, rollback w')"
  shows "Q (with_tx ev fail body w)"
proof -
  obtain r w1 where c: "begin_tx ev w = (r, w1)" by (cases "begin_tx ev w") auto
  note law = begin_tx_law [OF c]
  then have b: "began ev (store w) (store w1)" by (auto simp: began_def)
  show ?thesis
  proof (cases r)
    case (Inl e)
    with assms(1) [OF b] c begin_tx_advanced [OF c] show ?thesis by (simp add: with_tx_def)
  next
    case (Inr t)
    obtain a w' where "body t w1 = (a, w')" by (cases "body t w1") auto
    with assms(2) [OF b, of t] Inr c law begin_tx_advanced [OF c] show ?thesis by (simp add: with_tx_def)
  qed
qed

lemma store_rollback [simp]: "store (rollback w) = store w" "advanced (rollback w) = advanced w"
  by (simp_all add: rollback_def)

lemma check_dependencies_rule [txn_rules]:
  assumes "\<And>e t' w'. store w' = store w \<Longrightarrow> View t' = View t \<Longrightarrow> Q (A e t' w')"
    and "\<And>t' w'. store w' = store w \<Longrightarrow> View t' = View t \<Longrightarrow> Q (B t' w')"
  shows "Q (case check_dependencies ev s t w of (Some e, t, w) \<Rightarrow> A e t w | (None, t, w) \<Rightarrow> B t w)"
proof -
  obtain r t' w' where c: "tx_call ev (\<lambda>n d. Inr (dependency_query (Catalog ev n d) s, d)) t w = (r, t', w')"
    by (cases "tx_call ev (\<lambda>n d. Inr (dependency_query (Catalog ev n d) s, d)) t w") auto
  have law: "store w' = store w" "View t' = View t"
    using tx_call_law [OF c] by (auto split: sum.splits)
  show ?thesis
    using assms law by (cases "dependency_error r") (simp_all add: check_dependencies_def c)
qed

text \<open>A row that \<open>lockMetadata\<close> returns is the current one of the handle's generation.\<close>

lemma read_metadata_errors:
  "read_metadata x = (md, e) \<Longrightarrow>
     (e = None \<longleftrightarrow> x = Inr (Some md)) \<and>
     (e \<noteq> None \<longrightarrow> md = no_metadata \<and>
        (\<forall>y. x = Inl y \<longrightarrow> e = (if y = Sentinel NoRows then Some (Sentinel ErrNotFound) else classify (Some y))) \<and>
        (x = Inr None \<longrightarrow> e = Some (Sentinel ErrNotFound)) \<and> (\<forall>z. x \<noteq> Inr (Some z)))"
  by (auto simp: read_metadata_def scan_def classify_Some split: sum.splits option.splits if_splits)

lemma tx_call_driver:
  assumes "env_ok c ev" and "\<And>n d x. f n d = Inl x \<Longrightarrow> driver_error x"
    and "tx_call ev f t w = (Inl e, t', w')"
  shows "driver_error e"
  using assms by (auto simp: tx_call_def env_ok_def split: status.splits option.splits sum.splits)

lemma lock_metadata_rule:
  assumes env: "env_ok c ev"
    and err: "\<And>md e t' w'. store w' = store w \<Longrightarrow> View t' = View t \<Longrightarrow>
      errors_is e ErrNotFound \<longrightarrow> row_of (View t) (ID h) = None \<Longrightarrow> Q (A md (Some e) t' w')"
    and row: "\<And>r t' w'. store w' = store w \<Longrightarrow> View t' = View t \<Longrightarrow> Saved t' = Saved t \<Longrightarrow> Status t' = Healthy \<Longrightarrow>
      row_of (View t) (ID h) = Some r \<Longrightarrow> row_generation r = Generation h \<Longrightarrow>
      Q (A (metadata_of (ID h) r) None t' w')"
  shows "Q (case lock_metadata ev h t w of ((md, e), t, w) \<Rightarrow> A md e t w)"
proof -
  obtain x t' w' where c: "tx_call ev (select_for_update ev (ID h)) t w = (x, t', w')"
    by (cases "tx_call ev (select_for_update ev (ID h)) t w") auto
  note law = tx_call_law [OF c]
  obtain md e where rd: "read_metadata x = (md, e)" by (cases "read_metadata x") auto
  note errs = read_metadata_errors [OF rd]
  have frame: "store w' = store w" "View t' = View t"
    using law by (auto simp: select_for_update_def split: sum.splits option.splits if_splits)
  have driver: "driver_error y" if "x = Inl y" for y
    by (rule tx_call_driver [OF env _ c [unfolded that]])
      (auto simp: select_for_update_def split: option.splits if_splits)
  show ?thesis
  proof (cases e)
    case (Some y)
    have "row_of (View t) (ID h) = None" if "errors_is y ErrNotFound"
    proof (cases x)
      case (Inl z)
      with driver have "z \<noteq> Sentinel NoRows" and "\<not> is_err (classify (Some z)) ErrNotFound"
        using classify_driver by (auto simp: driver_error_def)
      moreover from \<open>z \<noteq> Sentinel NoRows\<close> errs Some Inl have "e = classify (Some z)" by simp
      moreover have "is_err e ErrNotFound" using Some that by simp
      ultimately show ?thesis by simp
    next
      case (Inr o')
      with errs Some have "o' = None" by (cases o') simp_all
      with Inr law show ?thesis
        by (auto simp: select_for_update_def select_metadata_def split: option.splits if_splits)
    qed
    with Some frame err show ?thesis by (simp add: lock_metadata_def c rd)
  next
    case None
    with errs have x: "x = Inr (Some md)" by simp
    with law obtain r where r: "row_of (View t) (ID h) = Some r" "md = metadata_of (ID h) r"
      by (auto simp: select_for_update_def select_metadata_def split: option.splits if_splits)
    have ok: "Saved t' = Saved t" "Status t' = Healthy" using law x by simp_all
    show ?thesis
    proof (cases "row_generation r = Generation h")
      case True
      with None r row [OF frame ok r(1)] show ?thesis by (simp add: lock_metadata_def c rd)
    next
      case False
      with None r err [OF frame] show ?thesis by (simp add: lock_metadata_def c rd)
    qed
  qed
qed

lemma lock_metadata_rule2:
  assumes "env_ok c ev"
    and "\<And>e t' w'. store w' = store w \<Longrightarrow> View t' = View t \<Longrightarrow> Q (A e t' w')"
    and "\<And>r t' w'. store w' = store w \<Longrightarrow> View t' = View t \<Longrightarrow> Saved t' = Saved t \<Longrightarrow> Status t' = Healthy \<Longrightarrow>
      row_of (View t) (ID h) = Some r \<Longrightarrow> row_generation r = Generation h \<Longrightarrow>
      Q (B (metadata_of (ID h) r) t' w')"
  shows "Q (case lock_metadata ev h t w of ((md, Some e), t, w) \<Rightarrow> A e t w | ((md, None), t, w) \<Rightarrow> B md t w)"
proof -
  have "Q (case lock_metadata ev h t w of ((md, e), t, w) \<Rightarrow>
      (case e of Some x \<Rightarrow> A x t w | None \<Rightarrow> B md t w))"
    by (rule lock_metadata_rule [OF assms(1)]) (simp_all add: assms)
  also have "(case lock_metadata ev h t w of ((md, e), t, w) \<Rightarrow>
      (case e of Some x \<Rightarrow> A x t w | None \<Rightarrow> B md t w)) =
    (case lock_metadata ev h t w of ((md, Some e), t, w) \<Rightarrow> A e t w | ((md, None), t, w) \<Rightarrow> B md t w)"
    by (simp split: prod.split option.split)
  finally show ?thesis .
qed

lemma fail_lifecycle_rule [txn_rules]:
  assumes "\<And>e w'. store w' = store w \<Longrightarrow> errors_is e ErrLifecycle \<Longrightarrow> Q (A e w')"
    and "\<And>e w' now. store w' = update_row (ID md) (mark ''failed'' None now) (View t) \<Longrightarrow> Status t = Healthy \<Longrightarrow>
      errors_is e ErrLifecycle \<Longrightarrow> Q (A e w')"
  shows "Q (case fail_lifecycle ev t md cause w of (e, w) \<Rightarrow> A e w)"
proof -
  obtain e1 t1 w1 where c: "tx_change ev (\<lambda>now d. Inr (update_row (ID md) (mark ''failed'' None now) d)) t w = (e1, t1, w1)"
    by (cases "tx_change ev (\<lambda>now d. Inr (update_row (ID md) (mark ''failed'' None now) d)) t w") auto
  note law = tx_change_law [OF c]
  show ?thesis
  proof (cases e1)
    case (Some x)
    with law assms(1) show ?thesis by (simp add: fail_lifecycle_def c)
  next
    case None
    obtain e2 w2 where d: "commit ev t1 w1 = (e2, w2)" by (cases "commit ev t1 w1") auto
    from commit_law [OF d] law None have "store w2 = store w \<or>
        store w2 = update_row (ID md) (mark ''failed'' None (Clock ev (tick w) 0)) (View t) \<and> Status t = Healthy"
      by auto
    with None assms(1) assms(2) [of w2 "Clock ev (tick w) 0"] show ?thesis
      by (auto simp: fail_lifecycle_def c d)
  qed
qed

section \<open>What the statements amount to\<close>

lemma run_commands_Cons:
  "run_commands (c # cs) d = Inr d'' \<longleftrightarrow> (\<exists>d'. run_command c d = Inr d' \<and> run_commands cs d' = Inr d'')"
  by (auto split: sum.splits)

lemma db_eqI:
  fixes d d' :: db
  assumes "islets d = islets d'" and "schemas d = schemas d'" and "roles d = roles d'" and "owners d = owners d'" and "inst d = inst d'"
    and "\<And>g p. (g, p) \<in> grants d \<longleftrightarrow> (g, p) \<in> grants d'"
  shows "d = d'"
  using assms by (intro db.equality set_eqI) auto

text \<open>\<open>DROP SCHEMA\<close> and \<open>createSchema\<close>.\<close>

lemma wipe_sql:
  assumes "run_commands [DropSchemaCascade s] d = Inr d1"
    and "run_commands (schema_sql md) d1 = Inr d2" and "md_schema md = s"
  shows "d2 = wiped s (md_role md) d \<and> schemas d s \<noteq> None"
proof -
  have "schemas d s \<noteq> None" using assms(1) by (auto split: sum.splits)
  moreover have "d2 = wiped s (md_role md) d"
    using assms by (intro db_eqI) (auto simp: schema_sql_def on_schema_def split: sum.splits if_splits)
  ultimately show ?thesis by blast
qed

text \<open>\<open>Delete\<close>'s statements: dropping the role fails unless the revocations took all it had.\<close>

lemma drop_sql_result:
  assumes "run_commands (drop_sql m md) d = Inr d'"
  shows "d' = purged (md_schema md) (md_role md) d \<and> md_role md \<notin> owners d \<and> schemas d (md_schema md) \<noteq> None"
proof -
  obtain d1 where d1: "d1 = revoke (\<lambda>r' p. r' = md_role md \<and> (\<exists>f \<in> set [enter_fn, finish_fn]. p = ExecuteOn f))
      (revoke (\<lambda>r' p. r' = md_role md \<and> on_schema api_schema p)
       (revoke (\<lambda>r' p. r' = md_role md \<and> p = ConnectTo (Database (Runtime m)))
        (revoke (\<lambda>r p. on_schema (md_schema md) p) (d\<lparr>schemas := (schemas d)(md_schema md := None)\<rparr>))))"
    by simp
  with assms have drop: "run_command (DropRole (md_role md)) d1 = Inr d'" and sch: "schemas d (md_schema md) \<noteq> None"
    unfolding drop_sql_def by (auto simp: run_commands_Cons simp del: run_commands.simps(2) run_command.simps(12))
  from drop have d': "d' = d1\<lparr>roles := (roles d1)(md_role md := None)\<rparr>" and free: "\<not> role_in_use (md_role md) d1"
    by (auto split: if_splits)
  from free have none: "(md_role md, p) \<notin> grants d1" for p
    by (force simp: role_in_use_def)
  from free have own: "md_role md \<notin> owners d" by (simp add: role_in_use_def d1)
  have "d' = purged (md_schema md) (md_role md) d"
  proof (rule db_eqI)
    fix g p
    show "(g, p) \<in> grants d' \<longleftrightarrow> (g, p) \<in> grants (purged (md_schema md) (md_role md) d)"
      using none [of p] by (auto simp: d' d1)
  qed (simp_all add: d' d1)
  with own sch show ?thesis by blast
qed

text \<open>\<open>create\<close>'s statements up to the insertion.\<close>

definition islet_attrs :: "manager \<Rightarrow> string \<Rightarrow> string \<Rightarrow> role_attrs" where
  "islet_attrs m i password =
     \<lparr>Login = True, Superuser = False, CreateDB = False, CreateRoles = False, Inherit = False,
      Replication = False, BypassRLS = False, role_password = password,
      settings = [''search_path'' \<mapsto> ident m (schema_of i) @ '',pg_catalog'',
                  ''statement_timeout'' \<mapsto> timeout_setting (StatementTimeout (Settings m)),
                  ''lock_timeout'' \<mapsto> timeout_setting (LockTimeout (Settings m)),
                  ''idle_in_transaction_session_timeout'' \<mapsto>
                    timeout_setting (IdleTransactionTimeout (Settings m))]\<rparr>"

lemma islet_attrs_sel [simp]: "unprivileged (islet_attrs m i p)" "role_password (islet_attrs m i p) = p"
  by (simp_all add: islet_attrs_def unprivileged_def)

lemma create_sql_result:
  assumes r1: "run_commands (role_sql m md) d = Inr d1"
    and r2: "run_commands (schema_sql md) d1 = Inr d2"
    and r3: "run_commands (grant_sql m md) d2 = Inr d3"
    and names: "md_schema md = schema_of i" "md_role md = role_of i"
    and ok: "registry_ok (Database (Runtime m)) d"
  shows "schemas d (schema_of i) = None \<and> roles d (role_of i) = None \<and>
     d3 = provisioned (Database (Runtime m)) i (islet_attrs m i (md_password md)) d"
proof -
  have e1: "roles d (role_of i) = None"
      "d1 = d\<lparr>roles := (roles d)(role_of i \<mapsto> islet_attrs m i (md_password md))\<rparr>"
    using r1 by (auto simp: role_sql_def names islet_attrs_def split: if_splits)
  have e2: "schemas d (schema_of i) = None"
    using r2 by (auto simp: schema_sql_def names e1(2) split: if_splits)
  have pub: "(public_role, p) \<notin> grants d" if "on_schema (schema_of i) p" for p
    using registry_okD(5) [OF ok, of public_role p] that by (auto simp: grant_ok_def)
  have d2: "d2 = grant (role_of i) [UsageOn (schema_of i), CreateIn (schema_of i)]
      (revoke (\<lambda>r' p. r' = public_role \<and> on_schema (schema_of i) p) (d1\<lparr>schemas := (schemas d1)(schema_of i \<mapsto> [])\<rparr>))"
    using r2 e2 by (auto simp: schema_sql_def names e1(2) run_commands_Cons simp del: run_commands.simps(2))
  have d3: "d3 = grant (role_of i) [ExecuteOn enter_fn, ExecuteOn finish_fn]
      (grant (role_of i) [UsageOn api_schema] (grant (role_of i) [ConnectTo (Database (Runtime m))] d2))"
    using r3 by (auto simp: grant_sql_def names run_commands_Cons simp del: run_commands.simps(2))
  have "d3 = provisioned (Database (Runtime m)) i (islet_attrs m i (md_password md)) d"
  proof (rule db_eqI)
    fix g p
    show "(g, p) \<in> grants d3 \<longleftrightarrow>
        (g, p) \<in> grants (provisioned (Database (Runtime m)) i (islet_attrs m i (md_password md)) d)"
      using pub [of p] by (auto simp: d3 d2 e1(2) islet_privileges_def)
  qed (simp_all add: d3 d2 e1(2))
  with e1(1) e2 show ?thesis by blast
qed

section \<open>reset\<close>

text \<open>What \<open>opaque\<close> gives an initialization as its token; no token otherwise.\<close>

definition token_ok :: "bool \<Rightarrow> string \<Rightarrow> bool" where
  "token_ok initialize token \<longleftrightarrow> (if initialize then length token = 48 else token = [])"

lemma opaque_random:
  "env_ok c ev \<Longrightarrow> opaque (Rand ev n) = (s, None) \<Longrightarrow> length s = 48"
  by (auto simp: opaque_def env_ok_def random_bytes_def split: sum.splits)

lemma token_rule:
  assumes "env_ok c ev" and "\<And>e. Q (A e)" and "\<And>token. token_ok initialize token \<Longrightarrow> Q (B token)"
  shows "Q (case (if initialize then opaque (Rand ev n) else ([], None)) of
      (_, Some e) \<Rightarrow> A e | (token, None) \<Rightarrow> B token)"
proof (cases initialize)
  case True
  with assms opaque_random [OF assms(1), of n] show ?thesis
    by (cases "opaque (Rand ev n)") (auto simp: token_ok_def split: option.split)
next
  case False
  with assms(3) [of "[]"] show ?thesis by (simp add: token_ok_def)
qed

text \<open>
  The three ways \<open>reset\<close> can leave the database it began with: as it was, with an error; the islet
  marked failed, with a lifecycle error; or the islet emptied under its next generation, with no
  error or with an unknown outcome.
\<close>

definition start_state :: "bool \<Rightarrow> string" where
  "start_state initialize = (if initialize then ''initializing'' else ''active'')"

definition reset_post :: "db \<Rightarrow> islet \<Rightarrow> bool \<Rightarrow> bool \<Rightarrow> (islet \<times> err) \<times> world \<Rightarrow> bool" where
  "reset_post d h initialize recovering x \<longleftrightarrow>
     (case x of ((h', e), w') \<Rightarrow>
        (store w' = d \<and> e \<noteq> None) \<or>
        (\<exists>r u. row_of d (ID h) = Some r \<and> row_generation r = Generation h \<and>
           (row_state r = ''initializing'' \<longrightarrow> recovering) \<and>
           ((store w' = update_row (ID h) (mark ''failed'' None u) d \<and> h' = no_islet \<and> is_err e ErrLifecycle) \<or>
            (\<exists>token. token_ok initialize token \<and> row_generation r + 1 < 2 ^ 63 \<and>
               store w' = update_row (ID h) (next_row (start_state initialize) token u)
                 (wiped (schema_name r) (role_name r) d) \<and>
               h' = islet_of (metadata_of (ID h) (next_row (start_state initialize) token u r)) \<and>
               (e = None \<or> is_err e ErrOutcomeUnknown)))))"

lemma reset_post_done:
  assumes "row_of d (ID h) = Some r" and "row_generation r = Generation h"
    and "row_state r = ''initializing'' \<longrightarrow> recovering" and "token_ok initialize token"
    and "row_generation r + 1 < 2 ^ 63"
    and "store w' = update_row (ID h) (next_row (start_state initialize) token u)
           (wiped (schema_name r) (role_name r) d)"
    and "e = None \<or> is_err e ErrOutcomeUnknown"
  shows "reset_post d h initialize recovering
     ((islet_of (metadata_of (ID h) (next_row (start_state initialize) token u r)), e), w')"
  unfolding reset_post_def prod.case using assms by blast

lemma drop_and_create_rule:
  assumes "\<And>e t' w'. store w' = store w \<Longrightarrow> Saved t' = Saved t \<Longrightarrow> Status t' \<noteq> Healthy \<Longrightarrow> Q (A e t' w')"
    and "\<And>t' w'. store w' = store w \<Longrightarrow> Status t' = Healthy \<Longrightarrow>
      View t' = wiped (md_schema md) (md_role md) (View t) \<Longrightarrow> Q (B t' w')"
  shows "Q (case drop_and_create ev md t w of (Some e, t, w) \<Rightarrow> A e t w | (None, t, w) \<Rightarrow> B t w)"
proof -
  obtain r1 t1 w1 where 1: "tx_exec ev [DropSchemaCascade (md_schema md)] t w = (r1, t1, w1)"
    by (cases "tx_exec ev [DropSchemaCascade (md_schema md)] t w") auto
  note law1 = tx_exec_law [OF 1]
  show ?thesis
  proof (cases r1)
    case (Some e)
    with law1 assms(1) show ?thesis by (simp add: drop_and_create_def 1)
  next
    case None
    obtain r2 t2 w2 where 2: "tx_exec ev (schema_sql md) t1 w1 = (r2, t2, w2)"
      by (cases "tx_exec ev (schema_sql md) t1 w1") auto
    note law2 = tx_exec_law [OF 2]
    show ?thesis
    proof (cases r2)
      case (Some e)
      with None law1 law2 assms(1) show ?thesis by (simp add: drop_and_create_def create_schema_def 1 2)
    next
      case n2: None
      with None law1 law2 have "View t2 = wiped (md_schema md) (md_role md) (View t)"
        using wipe_sql [of "md_schema md" "View t" "View t1" md "View t2"] by simp
      with n2 None law1 law2 assms(2) show ?thesis by (simp add: drop_and_create_def create_schema_def 1 2)
    qed
  qed
qed

lemma advance_result:
  "advance ev i st token n d = Inr (x, d') \<Longrightarrow> row_of d i = Some r \<Longrightarrow>
     row_generation r + 1 < 2 ^ 63 \<and> d' = update_row i (next_row st token (Clock ev n 0)) d \<and>
     x = Some (row_generation r + 1, st, Clock ev n 0)"
  by (auto simp: advance_def next_row_def mark_def Let_def split: if_splits)

lemma next_islet:
  "islet_of ((metadata_of i r)\<lparr>Generation := row_generation r + 1, State := st, UpdatedAt := u\<rparr>) =
     islet_of (metadata_of i (next_row st token u r))"
  by (simp add: islet_of_def metadata_of_def next_row_def mark_def islet.truncate_def)

lemma reset_tx_post:
  assumes env: "env_ok c ev" and t: "View t = d" "store w = d" "Status t = Healthy"
  shows "reset_post d h initialize recovering (reset_tx ev h initialize recovering t w)"
  unfolding reset_tx_def
proof (rule lock_metadata_rule2 [OF env], goal_cases)
  case (1 e t1 w1)
  then show ?case by (simp add: reset_post_def t)
next
  case (2 r t1 w1)
  note at1 = 2 [unfolded t]
  let ?md = "metadata_of (ID h) r"
  show ?case
  proof (cases "State ?md = ''initializing'' \<and> \<not> recovering")
    case True
    with at1 show ?thesis by (simp add: reset_post_def)
  next
    case go: False
    have failing: "reset_post d h initialize recovering
        (case fail_lifecycle ev t' ?md (Some e) w' of (e, w) \<Rightarrow> ((no_islet, Some e), w))"
      if "store w' = d" and "Status t' = Healthy \<longrightarrow> View t' = d" for t' w' e
      by (rule fail_lifecycle_rule) (use that at1 go in \<open>auto simp: reset_post_def\<close>)
    show ?thesis
      unfolding if_not_P [OF go]
    proof (rule check_dependencies_rule, goal_cases)
      case (1 e t2 w2)
      with at1 show ?case by (intro failing) simp_all
    next
      case (2 t2 w2)
      note at2 = 2 [unfolded at1]
      show ?case
      proof (rule savepoint_rule, goal_cases)
        case (1 e t3 w3)
        with at2 show ?case by (simp add: reset_post_def)
      next
        case (2 t3 w3)
        note at3 = 2 [unfolded at2]
        show ?case
        proof (rule drop_and_create_rule, goal_cases)
          case (1 e t4 w4)
          note at4 = this
          show ?case
            by (rule rollback_to_rule, rule failing) (use at3 at4 in \<open>auto\<close>)
        next
          case (2 t4 w4)
          note at4 = 2 [unfolded at3]
          show ?case
          proof (rule token_rule [OF env], goal_cases)
            case (1 e)
            with at4 show ?case by (simp add: reset_post_def)
          next
            case (2 token)
            note tok = this
            show ?case
            proof (rule tx_call_rule, goal_cases)
              case (1 e t5 w5)
              with at4 show ?case by (simp add: reset_post_def scan_def lifecycle_err_def)
            next
              case (2 x t5 w5 n)
              from at1(5) at4(3) have "row_of (View t4) (ID h) = Some r" by simp
              note adv = advance_result [OF 2(4) this]
              have post: "reset_post d h initialize recovering
                 (case commit ev t5 w5 of (e, w) \<Rightarrow>
                   ((islet_of (?md\<lparr>Generation := row_generation r + 1,
                       State := start_state initialize, UpdatedAt := Clock ev n 0\<rparr>), e), w))"
              proof (rule commit_rule, goal_cases)
                case (1 e w6)
                with 2 at4 show ?case by (simp add: reset_post_def)
              next
                case (2 e w6)
                then have "store w6 = update_row (ID h) (next_row (start_state initialize) token (Clock ev n 0))
                    (wiped (schema_name r) (role_name r) d)"
                  using adv at4(3) by (simp add: start_state_def)
                with 2(3) adv tok at1(5,6) go show ?case
                  unfolding next_islet [of _ _ _ _ token] by (intro reset_post_done) auto
              qed
              then show ?case using adv by (simp add: scan_def start_state_def)
            qed
          qed
        qed
      qed
    qed
  qed
qed

lemma reset_outcome:
  assumes "env_ok c ev"
  obtains d where "began ev (store w) d" and "reset_post d h initialize recovering (reset ev h initialize recovering w)"
proof -
  have "\<exists>d. began ev (store w) d \<and> reset_post d h initialize recovering (reset ev h initialize recovering w)"
    unfolding reset_def
  proof (rule with_tx_rule, goal_cases)
    case (1 e w')
    then show ?case by (auto simp: reset_post_def lifecycle_err_def)
  next
    case (2 t w1 a w')
    have "reset_post (store w1) h initialize recovering (reset_tx ev h initialize recovering t w1)"
      by (rule reset_tx_post [OF assms]) (use 2 in simp_all)
    with 2 have "reset_post (store w1) h initialize recovering (a, rollback w')"
      by (simp add: reset_post_def case_prod_beta)
    with 2 show ?case by blast
  qed
  then show ?thesis using that by blast
qed

section \<open>create\<close>

definition created_row :: "bool \<Rightarrow> string \<Rightarrow> islet_row \<Rightarrow> bool" where
  "created_row initializing i r \<longleftrightarrow>
     length i = 48 \<and> schema_name r = schema_of i \<and> role_name r = role_of i \<and>
     length (row_password r) = 48 \<and> row_generation r = 1 \<and> row_state r = start_state initializing \<and>
     (if initializing then \<exists>t. init_token r = Some t \<and> length t = 48 else init_token r = None)"

definition create_post :: "manager \<Rightarrow> bool \<Rightarrow> db \<Rightarrow> (islet \<times> err) \<times> world \<Rightarrow> bool" where
  "create_post m initializing d x \<longleftrightarrow>
     (case x of ((h, e), w') \<Rightarrow>
        (store w' = d \<and> e \<noteq> None) \<or>
        (\<exists>i r. row_of d i = None \<and> schemas d (schema_of i) = None \<and> roles d (role_of i) = None \<and>
           created_row initializing i r \<and>
           insert_row i r (provisioned (Database (Runtime m)) i (islet_attrs m i (row_password r)) d) =
             Inr (store w') \<and>
           h = islet_of (metadata_of i r) \<and> (e = None \<or> is_err e ErrOutcomeUnknown)))"

lemma create_tx_post:
  assumes ok: "registry_ok (Database (Runtime m)) d" and t: "View t = d" "store w = d"
    and md: "md_schema md = schema_of (ID md)" "md_role md = role_of (ID md)" "Generation md = 1"
      "State md = start_state initializing" "length (ID md) = 48" "length (md_password md) = 48"
      "token_ok initializing (md_token md)"
  shows "create_post m initializing d (create_tx ev m md t w)"
  unfolding create_tx_def
proof (rule tx_exec_rule, goal_cases)
  case (1 e t1 w1)
  then show ?case by (simp add: create_post_def lifecycle_err_def t)
next
  case (2 t1 w1)
  note at1 = 2 [unfolded t]
  show ?case
    unfolding create_schema_def
  proof (rule tx_exec_rule, goal_cases)
    case (1 e t2 w2)
    with at1 show ?case by (simp add: create_post_def lifecycle_err_def)
  next
    case (2 t2 w2)
    note at2 = 2
    show ?case
    proof (rule tx_exec_rule, goal_cases)
      case (1 e t3 w3)
      with at1 at2 show ?case by (simp add: create_post_def lifecycle_err_def)
    next
      case (2 t3 w3)
      note at3 = 2
      from create_sql_result [OF at1(4) at2(4) at3(4) md(1,2) ok]
      have none: "schemas d (schema_of (ID md)) = None" "roles d (role_of (ID md)) = None"
        and prov: "View t3 = provisioned (Database (Runtime m)) (ID md) (islet_attrs m (ID md) (md_password md)) d"
        by simp_all
      show ?case
      proof (rule tx_call_rule, goal_cases)
        case (1 e t4 w4)
        with at1 at2 at3 show ?case by (simp add: create_post_def lifecycle_err_def scan_def)
      next
        case (2 x t4 w4 n)
        define r where "r = \<lparr>schema_name = md_schema md, role_name = md_role md, row_password = md_password md,
               row_state = State md, row_generation = 1, init_token = nullif_empty (md_token md),
               row_created = Clock ev n 0, row_updated = Clock ev n 1\<rparr>"
        from 2(4) have ins: "insert_row (ID md) r (View t3) = Inr (View t4)"
          and x: "x = Some (Clock ev n 0, Clock ev n 1)"
          by (auto simp: insert_islet_def Let_def r_def split: sum.splits)
        have row: "row_of d (ID md) = None" using row_of_insert [OF ins] by (simp add: prov)
        have cr: "created_row initializing (ID md) r"
          using md by (auto simp: created_row_def r_def token_ok_def nullif_empty_def split: if_splits)
        have isl: "islet_of (md\<lparr>CreatedAt := Clock ev n 0, UpdatedAt := Clock ev n 1\<rparr>) = islet_of (metadata_of (ID md) r)"
          using md(3) by (simp add: islet_of_def metadata_of_def r_def islet.truncate_def)
        have post: "create_post m initializing d (case commit ev t4 w4 of
            (e, w) \<Rightarrow> ((islet_of (md\<lparr>CreatedAt := Clock ev n 0, UpdatedAt := Clock ev n 1\<rparr>), e), w))"
        proof (rule commit_rule, goal_cases)
          case (1 e w5)
          with 2 at1 at2 at3 show ?case by (simp add: create_post_def)
        next
          case (2 e w5)
          have pw: "row_password r = md_password md" by (simp add: r_def)
          show ?case
            unfolding create_post_def prod.case isl
            using row none cr ins 2 by (intro disjI2 exI [of _ "ID md"] exI [of _ r]) (simp add: prov pw)
        qed
        then show ?case by (simp add: x scan_def)
      qed
    qed
  qed
qed

lemma create_outcome:
  assumes env: "env_ok (Database (Runtime m)) ev" and ok: "registry_ok (Database (Runtime m)) (store w)"
  obtains d where "d = store w \<or> began ev (store w) d" and "create_post m initializing d (create_islet ev m initializing w)"
proof -
  have "\<exists>d. (d = store w \<or> began ev (store w) d) \<and> create_post m initializing d (create_islet ev m initializing w)"
  proof (cases "snd (opaque (Rand ev (tick w)))")
    case (Some e)
    then obtain i where "opaque (Rand ev (tick w)) = (i, Some e)" by (metis prod.collapse)
    then show ?thesis
      by (intro exI [of _ "store w"]) (simp add: create_islet_def create_post_def)
  next
    case None
    then obtain i where i: "opaque (Rand ev (tick w)) = (i, None)" by (metis prod.collapse)
    show ?thesis
    proof (cases "snd (opaque (Rand ev (tick (bump w))))")
      case (Some e)
      then obtain p where "opaque (Rand ev (tick (bump w))) = (p, Some e)" by (metis prod.collapse)
      with i show ?thesis
        by (intro exI [of _ "store w"]) (simp add: create_islet_def create_post_def)
    next
      case None
      then obtain p where p: "opaque (Rand ev (tick (bump w))) = (p, None)" by (metis prod.collapse)
      note len = opaque_random [OF env i] opaque_random [OF env p]
      let ?w = "bump (bump (bump w))"
      show ?thesis
        unfolding create_islet_def i p prod.case option.case
      proof (rule token_rule [OF env], goal_cases)
        case (1 e)
        show ?case by (intro exI [of _ "store w"]) (simp add: create_post_def)
      next
        case (2 token)
        show ?case
          unfolding Let_def
        proof (rule with_tx_rule, goal_cases)
          case (1 e w')
          then show ?case by (intro exI [of _ "store w'"]) (simp add: create_post_def lifecycle_err_def)
        next
          case (2 t w1 a w')
          note tx = 2
          have okd: "registry_ok (Database (Runtime m)) (store w1)"
            using began_ok [OF env, of "store ?w"] ok tx(1) by simp
          have "create_post m initializing (store w1) (a, w')"
            unfolding tx(5) [symmetric] using \<open>token_ok initializing token\<close> len
            by (intro create_tx_post [OF okd tx(2) refl]) (simp_all add: start_state_def)
          then have "create_post m initializing (store w1) (a, rollback w')"
            by (simp add: create_post_def case_prod_beta)
          with tx(1) show ?case by auto
        qed
      qed
    qed
  qed
  then show ?thesis using that by blast
qed

section \<open>Delete\<close>

text \<open>
  \<open>Delete\<close> leaves the database as it was, with an error or because the islet did not exist; or marks
  the islet failed, with a lifecycle error; or removes the islet with everything it had.
\<close>

definition delete_post :: "db \<Rightarrow> islet \<Rightarrow> err \<times> world \<Rightarrow> bool" where
  "delete_post d h x \<longleftrightarrow>
     (case x of (e, w') \<Rightarrow>
        (store w' = d \<and> (e \<noteq> None \<or> row_of d (ID h) = None)) \<or>
        (\<exists>r. row_of d (ID h) = Some r \<and> row_generation r = Generation h \<and> row_state r \<noteq> ''initializing'' \<and>
           ((\<exists>u. store w' = update_row (ID h) (mark ''failed'' None u) d) \<and> is_err e ErrLifecycle \<or>
            store w' = delete_row (ID h) (purged (schema_name r) (role_name r) d) \<and>
            role_name r \<notin> owners d \<and> (e = None \<or> is_err e ErrOutcomeUnknown))))"

lemma delete_tx_post:
  assumes env: "env_ok c ev" and t: "View t = d" "store w = d"
  shows "delete_post d h (delete_tx ev m h t w)"
  unfolding delete_tx_def
proof (rule lock_metadata_rule [OF env], goal_cases)
  case (1 md e t1 w1)
  then show ?case by (simp add: delete_post_def t)
next
  case (2 r t1 w1)
  note at1 = 2 [unfolded t]
  let ?md = "metadata_of (ID h) r"
  show ?case
  proof (cases "State ?md = ''initializing''")
    case True
    with at1 show ?thesis by (simp add: delete_post_def)
  next
    case go: False
    have failing: "delete_post d h (case fail_lifecycle ev t' ?md (Some e) w' of (e, w) \<Rightarrow> (Some e, w))"
      if "store w' = d" and "Status t' = Healthy \<longrightarrow> View t' = d" for t' w' e
      by (rule fail_lifecycle_rule) (use that at1 go in \<open>auto simp: delete_post_def\<close>)
    have "delete_post d h
     (case check_dependencies ev (md_schema ?md) t1 w1 of
        (Some e, t, w) \<Rightarrow> (case fail_lifecycle ev t ?md (Some e) w of (e, w) \<Rightarrow> (Some e, w))
      | (None, t, w) \<Rightarrow>
     (case savepoint ev t w of
        (Some e, t, w) \<Rightarrow> (Some e, w)
      | (None, t, w) \<Rightarrow>
     (case tx_exec ev (drop_sql m ?md) t w of
        (Some e, t, w) \<Rightarrow>
          (case rollback_to ev t w of
             (_, t, w) \<Rightarrow> (case fail_lifecycle ev t ?md (Some e) w of (e, w) \<Rightarrow> (Some e, w)))
      | (None, t, w) \<Rightarrow>
     (case tx_change ev (\<lambda>_ d. Inr (delete_row (ID h) d)) t w of
        (Some e, t, w) \<Rightarrow> (lifecycle_err e, w)
      | (None, t, w) \<Rightarrow> commit ev t w))))"
    proof (rule check_dependencies_rule, goal_cases)
      case (1 e t2 w2)
      with at1 show ?case by (intro failing) simp_all
    next
      case (2 t2 w2)
      note at2 = 2 [unfolded at1]
      show ?case
      proof (rule savepoint_rule, goal_cases)
        case (1 e t3 w3)
        with at2 show ?case by (simp add: delete_post_def)
      next
        case (2 t3 w3)
        note at3 = 2 [unfolded at2]
        show ?case
        proof (rule tx_exec_rule, goal_cases)
          case (1 e t4 w4)
          note at4 = this
          show ?case
            by (rule rollback_to_rule, rule failing) (use at3 at4 in \<open>auto\<close>)
        next
          case (2 t4 w4)
          from drop_sql_result [OF 2(4)] at3
          have purge: "View t4 = purged (schema_name r) (role_name r) d" "role_name r \<notin> owners d"
            by simp_all
          from 2(1) at3 have w4: "store w4 = d" by simp
          show ?case
          proof (rule tx_change_rule, goal_cases)
            case (1 e t5 w5)
            with w4 show ?case by (simp add: delete_post_def lifecycle_err_def)
          next
            case (2 t5 w5 now)
            have "delete_post d h (case commit ev t5 w5 of (e, w) \<Rightarrow> (e, w))"
              by (rule commit_rule) (use 2 w4 purge at1 go in \<open>auto simp: delete_post_def\<close>)
            then show ?case by simp
          qed
        qed
      qed
    qed
    with go show ?thesis by simp
  qed
qed

lemma delete_outcome:
  assumes "env_ok c ev"
  obtains d where "began ev (store w) d" and "delete_post d h (Delete ev m h w)"
proof -
  have "\<exists>d. began ev (store w) d \<and> delete_post d h (Delete ev m h w)"
    unfolding Delete_def
  proof (rule with_tx_rule, goal_cases)
    case (1 e w')
    then show ?case by (auto simp: delete_post_def lifecycle_err_def)
  next
    case (2 t w1 a w')
    have "delete_post (store w1) h (a, w')"
      unfolding 2(5) [symmetric] by (rule delete_tx_post [OF assms]) (use 2 in simp_all)
    then have "delete_post (store w1) h (a, rollback w')" by (simp add: delete_post_def)
    with 2 show ?case by blast
  qed
  then show ?thesis using that by blast
qed

section \<open>The operations keep to the protocol\<close>

lemma reset_post_change:
  assumes ok: "registry_ok c d" and post: "reset_post d h initialize recovering ((h', e), w')"
  shows "changes c d (store w')"
proof -
  from post consider "store w' = d"
    | r u where "row_of d (ID h) = Some r" "store w' = update_row (ID h) (mark ''failed'' None u) d"
    | r u token where "row_of d (ID h) = Some r" "row_generation r + 1 < 2 ^ 63" "token_ok initialize token"
        "store w' = update_row (ID h) (next_row (start_state initialize) token u) (wiped (schema_name r) (role_name r) d)"
    unfolding reset_post_def prod.case by blast
  then show ?thesis
  proof cases
    case 2
    then show ?thesis using change.failed by (metis r_into_rtranclp)
  next
    case 3
    have "change c d (update_row (ID h) (\<lambda>r. (mark (start_state initialize) (nullif_empty token) u r)
        \<lparr>row_generation := row_generation r + 1\<rparr>) (wiped (schema_name r) (role_name r) d))"
      by (rule change.emptied) (use 3 in \<open>auto simp: token_ok_def start_state_def nullif_empty_def split: if_splits\<close>)
    then show ?thesis using 3 by (simp add: next_row_def [abs_def])
  qed simp
qed

lemma change_refl: "change c d d"
  by (rule change.outside) (simp add: same_islets_def)

lemma delete_post_change:
  assumes "registry_ok c d" and "delete_post d h (e, w')"
  shows "changes c d (store w')"
  using assms(2) unfolding delete_post_def prod.case
  by (auto intro!: r_into_rtranclp intro: change.failed change.deleted change_refl)

lemma create_post_change:
  assumes "registry_ok (Database (Runtime m)) d" and "create_post m initializing d ((h, e), w')"
  shows "changes (Database (Runtime m)) d (store w')"
proof -
  have "change (Database (Runtime m)) d d'"
    if "schemas d (schema_of i) = None" "roles d (role_of i) = None" "created_row initializing i r"
      "insert_row i r (provisioned (Database (Runtime m)) i (islet_attrs m i (row_password r)) d) = Inr d'" for i r d'
    by (rule change.created [OF that(1,2) _ _ that(4)])
      (use that(3) in \<open>auto simp: fresh_row_def created_row_def state_ok_def start_state_def split: if_splits\<close>)
  then show ?thesis
    using assms(2) unfolding create_post_def prod.case by blast
qed

end
