(* ===== verification/Outcomes.thy ===== *)
theory Outcomes
  imports LifecycleSafety
begin

text \<open>
  The properties of the lifecycle operations: that they keep to the protocol, what each can leave
  behind with each kind of error, that an old handle changes nothing, and that without faults they
  succeed, which for \<open>Delete\<close> means that the privileges it revokes are all that its role had.
\<close>

section \<open>Refinement of the protocol\<close>

lemma reset_changes:
  assumes env: "env_ok c ev" and ok: "registry_ok c (store w)"
  shows "changes c (store w) (store (snd (reset ev h initialize recovering w)))"
proof -
  obtain d where d: "began ev (store w) d"
    and post: "reset_post d h initialize recovering (reset ev h initialize recovering w)"
    using reset_outcome [OF env] .
  obtain h' e w' where r: "reset ev h initialize recovering w = ((h', e), w')"
    by (cases "reset ev h initialize recovering w") auto
  show ?thesis
    using began_changes [OF env ok d] reset_post_change [OF began_ok [OF env ok d] post [unfolded r]]
    by (simp add: r)
qed

lemma delete_changes:
  assumes env: "env_ok c ev" and ok: "registry_ok c (store w)"
  shows "changes c (store w) (store (snd (Delete ev m h w)))"
proof -
  obtain d where d: "began ev (store w) d" and post: "delete_post d h (Delete ev m h w)"
    using delete_outcome [OF env] .
  obtain e w' where r: "Delete ev m h w = (e, w')" by (cases "Delete ev m h w") auto
  show ?thesis
    using began_changes [OF env ok d] delete_post_change [OF began_ok [OF env ok d] post [unfolded r]]
    by (simp add: r)
qed

lemma create_changes:
  assumes env: "env_ok (Database (Runtime m)) ev" and ok: "registry_ok (Database (Runtime m)) (store w)"
  shows "changes (Database (Runtime m)) (store w) (store (snd (create_islet ev m initializing w)))"
proof -
  obtain d where d: "d = store w \<or> began ev (store w) d"
    and post: "create_post m initializing d (create_islet ev m initializing w)"
    using create_outcome [OF env ok] .
  have dd: "changes (Database (Runtime m)) (store w) d" "registry_ok (Database (Runtime m)) d"
    using d began_changes [OF env ok] began_ok [OF env ok] ok by auto
  obtain h e w' where r: "create_islet ev m initializing w = ((h, e), w')"
    by (cases "create_islet ev m initializing w") auto
  show ?thesis
    using dd(1) create_post_change [OF dd(2) post [unfolded r]] by (simp add: r)
qed

text \<open>
  C3: whatever fails and whatever other sessions do in between, \<open>Create\<close>, \<open>Reset\<close>, \<open>Recover\<close> and
  \<open>Delete\<close> take the database through changes of the protocol only, and the registry, the schemas,
  the roles and the privileges stay in order: every islet has its schema, its unprivileged role with
  its password and exactly its privileges, a token exactly while it is initializing, and no schema
  or role of an islet is left without its row.
\<close>

theorem lifecycle_keeps_order:
  "env_ok c ev \<Longrightarrow> registry_ok c (store w) \<Longrightarrow> c = Database (Runtime m) \<Longrightarrow>
   w' \<in> {snd (Create ev m w), snd (Reset ev h w), snd (Recover ev h w), snd (Delete ev m h w)} \<Longrightarrow>
     changes c (store w) (store w') \<and> registry_ok c (store w')"
proof -
  assume env: "env_ok c ev" and ok: "registry_ok c (store w)" and c: "c = Database (Runtime m)"
    and w': "w' \<in> {snd (Create ev m w), snd (Reset ev h w), snd (Recover ev h w), snd (Delete ev m h w)}"
  have "changes c (store w) (store w')"
    using w' create_changes [of m ev w False] env ok reset_changes [OF env ok] delete_changes [OF env ok]
    by (auto simp: Create_def Reset_def Recover_def c)
  then show ?thesis using changes_registry_ok ok by blast
qed

section \<open>Outcomes\<close>

text \<open>
  C11: \<open>Create\<close> either leaves the database as it found it, with an error, or has made one new islet:
  a row of generation 1 in state active without a token, an empty schema, an unprivileged role whose
  session settings are the manager's limits, and the six privileges on the schema, the database and
  the gateway, all to that role; then the handle is that row's and the error is nil or says that the
  outcome is unknown.
\<close>

theorem create_outcomes:
  "env_ok c ev \<Longrightarrow> registry_ok c (store w) \<Longrightarrow> c = Database (Runtime m) \<Longrightarrow>
   Create ev m w = ((h, e), w') \<Longrightarrow>
     \<exists>d. (d = store w \<or> began ev (store w) d) \<and>
       (store w' = d \<and> e \<noteq> None \<or>
        (\<exists>r. row_of d (ID h) = None \<and> row_of (store w') = (row_of d)(ID h \<mapsto> r) \<and>
           length (ID h) = 48 \<and> Generation h = 1 \<and> State h = ''active'' \<and>
           row_generation r = 1 \<and> row_state r = ''active'' \<and> init_token r = None \<and>
           schemas d (schema_of (ID h)) = None \<and>
           schemas (store w') = (schemas d)(schema_of (ID h) \<mapsto> []) \<and>
           roles d (role_of (ID h)) = None \<and>
           roles (store w') = (roles d)(role_of (ID h) \<mapsto> islet_attrs m (ID h) (row_password r)) \<and>
           unprivileged (islet_attrs m (ID h) (row_password r)) \<and>
           (\<forall>g p. (g, p) \<in> grants (store w') \<longleftrightarrow>
              (g, p) \<in> grants d \<or> g = role_of (ID h) \<and> p \<in> islet_privileges c (ID h)) \<and>
           (e = None \<or> is_err e ErrOutcomeUnknown)))"
proof -
  assume env: "env_ok c ev" and ok: "registry_ok c (store w)" and c: "c = Database (Runtime m)"
    and run: "Create ev m w = ((h, e), w')"
  from run have r: "create_islet ev m False w = ((h, e), w')" by (simp add: Create_def)
  obtain d where d: "d = store w \<or> began ev (store w) d" and post: "create_post m False d ((h, e), w')"
    using create_outcome [OF env [unfolded c] ok [unfolded c], of False] unfolding r .
  show ?thesis
  proof (cases "store w' = d \<and> e \<noteq> None")
    case True
    with d show ?thesis by blast
  next
    case False
    with post obtain i r where i: "row_of d i = None" "schemas d (schema_of i) = None" "roles d (role_of i) = None"
      and cr: "created_row False i r"
      and ins: "insert_row i r (provisioned c i (islet_attrs m i (row_password r)) d) = Inr (store w')"
      and h: "h = islet_of (metadata_of i r)" and e: "e = None \<or> is_err e ErrOutcomeUnknown"
      by (auto simp: create_post_def c)
    have h': "ID h = i" "Generation h = 1" "State h = ''active''"
      using cr by (simp_all add: h islet_of_def islet.truncate_def created_row_def start_state_def)
    have row: "length i = 48" "row_generation r = 1" "row_state r = ''active''" "init_token r = None"
      using cr by (simp_all add: created_row_def start_state_def)
    have rows: "row_of (store w') = (row_of d)(i \<mapsto> r)" using row_of_insert [OF ins] by simp
    note fr = insert_row_frame [OF ins]
    have "(g, p) \<in> grants (store w') \<longleftrightarrow> (g, p) \<in> grants d \<or> g = role_of i \<and> p \<in> islet_privileges c i" for g p
      using fr by auto
    note grants = this
    show ?thesis
      unfolding h'
    proof (rule exI [of _ d], rule conjI [OF d], rule disjI2, rule exI [of _ r])
    qed (use fr i row rows e grants in simp)
  qed
qed

text \<open>
  C10: \<open>Reset\<close> and \<open>Recover\<close> leave the database as the transaction found it, with an error; or mark the
  islet failed, with a lifecycle error and no handle; or give it an empty schema under the next
  generation in state active, with the privileges on the schema those of its role alone, nothing
  else changed, and the new handle with an error that is nil or says that the outcome is unknown.
  Only the handle of the current generation can do either, and \<open>Reset\<close> leaves an islet that is
  initializing alone.
\<close>

theorem reset_outcomes:
  "env_ok c ev \<Longrightarrow> (recovering, ((h', e), w')) \<in> {(False, Reset ev h w), (True, Recover ev h w)} \<Longrightarrow>
     \<exists>d. began ev (store w) d \<and>
       (store w' = d \<and> e \<noteq> None \<or>
        (\<exists>r. row_of d (ID h) = Some r \<and> row_generation r = Generation h \<and>
           (row_state r = ''initializing'' \<longrightarrow> recovering) \<and>
           ((\<exists>u. store w' = update_row (ID h) (mark ''failed'' None u) d) \<and> h' = no_islet \<and> is_err e ErrLifecycle \<or>
            (e = None \<or> is_err e ErrOutcomeUnknown) \<and>
            ID h' = ID h \<and> Generation h' = Generation h + 1 \<and> State h' = ''active'' \<and>
            row_of (store w') = (row_of d)(ID h \<mapsto> r\<lparr>row_generation := Generation h + 1,
              row_state := ''active'', init_token := None, row_updated := UpdatedAt h'\<rparr>) \<and>
            schemas (store w') = (schemas d)(schema_name r \<mapsto> []) \<and> roles (store w') = roles d \<and>
            (\<forall>g p. (g, p) \<in> grants (store w') \<longleftrightarrow>
               (if on_schema (schema_name r) p then g = role_name r else (g, p) \<in> grants d)))))"
proof -
  assume env: "env_ok c ev" and run: "(recovering, ((h', e), w')) \<in> {(False, Reset ev h w), (True, Recover ev h w)}"
  have r: "reset ev h False recovering w = ((h', e), w')"
    using run by (auto simp: Reset_def Recover_def)
  obtain d where d: "began ev (store w) d" and post: "reset_post d h False recovering ((h', e), w')"
    using reset_outcome [OF env, of w h False recovering] unfolding r .
  have new: "ID h' = ID h \<and> Generation h' = Generation h + 1 \<and> State h' = ''active'' \<and>
      row_of (store w') = (row_of d)(ID h \<mapsto> r\<lparr>row_generation := Generation h + 1,
        row_state := ''active'', init_token := None, row_updated := UpdatedAt h'\<rparr>) \<and>
      schemas (store w') = (schemas d)(schema_name r \<mapsto> []) \<and> roles (store w') = roles d \<and>
      (\<forall>g p. (g, p) \<in> grants (store w') \<longleftrightarrow>
         (if on_schema (schema_name r) p then g = role_name r else (g, p) \<in> grants d))"
    if r: "row_of d (ID h) = Some r" "row_generation r = Generation h"
      and w': "store w' = update_row (ID h) (next_row (start_state False) token u) (wiped (schema_name r) (role_name r) d)"
      and h': "h' = islet_of (metadata_of (ID h) (next_row (start_state False) token u r))"
      and tok: "token_ok False token" for r u token
  proof -
    have fields: "ID h' = ID h" "Generation h' = Generation h + 1" "State h' = ''active''" "UpdatedAt h' = u"
      using r(2) by (simp_all add: h' islet_of_def islet.truncate_def metadata_of_def next_row_def mark_def start_state_def)
    have "next_row (start_state False) token u r = r\<lparr>row_generation := Generation h + 1,
        row_state := ''active'', init_token := None, row_updated := u\<rparr>"
      using r(2) tok by (simp add: next_row_def mark_def start_state_def token_ok_def nullif_empty_def)
    with r fields show ?thesis by (simp add: w' fun_eq_iff)
  qed
  show ?thesis
    using d post new unfolding reset_post_def prod.case by blast
qed

text \<open>
  C9: \<open>Delete\<close> leaves the database as the transaction found it, with an error unless the islet did not
  exist; or marks the islet failed, with a lifecycle error; or removes its row, its schema, its role
  and every privilege the role had or anyone had on the schema, and nothing else. Without an error
  the islet is gone, and an islet that is initializing is never deleted.
\<close>

theorem delete_outcomes:
  "env_ok c ev \<Longrightarrow> Delete ev m h w = (e, w') \<Longrightarrow>
     (\<exists>d. began ev (store w) d \<and>
       (store w' = d \<and> (e \<noteq> None \<or> row_of d (ID h) = None) \<or>
        (\<exists>r. row_of d (ID h) = Some r \<and> row_generation r = Generation h \<and> row_state r \<noteq> ''initializing'' \<and>
           ((\<exists>u. store w' = update_row (ID h) (mark ''failed'' None u) d) \<and> is_err e ErrLifecycle \<or>
            (e = None \<or> is_err e ErrOutcomeUnknown) \<and>
            row_of (store w') = (row_of d)(ID h := None) \<and>
            schemas (store w') = (schemas d)(schema_name r := None) \<and>
            roles (store w') = (roles d)(role_name r := None) \<and>
            (\<forall>g p. (g, p) \<in> grants (store w') \<longleftrightarrow>
               (g, p) \<in> grants d \<and> g \<noteq> role_name r \<and> \<not> on_schema (schema_name r) p))))) \<and>
     (e = None \<longrightarrow> row_of (store w') (ID h) = None)"
proof -
  assume env: "env_ok c ev" and run: "Delete ev m h w = (e, w')"
  obtain d where d: "began ev (store w) d" and post: "delete_post d h (e, w')"
    using delete_outcome [OF env, of w h m] unfolding run .
  have gone: "row_of (store w') = (row_of d)(ID h := None) \<and>
      schemas (store w') = (schemas d)(schema_name r := None) \<and>
      roles (store w') = (roles d)(role_name r := None) \<and>
      (\<forall>g p. (g, p) \<in> grants (store w') \<longleftrightarrow>
         (g, p) \<in> grants d \<and> g \<noteq> role_name r \<and> \<not> on_schema (schema_name r) p)"
    if "store w' = delete_row (ID h) (purged (schema_name r) (role_name r) d)" for r
    by (simp add: that fun_eq_iff)
  have none: "e = None \<longrightarrow> row_of (store w') (ID h) = None"
    using post unfolding delete_post_def prod.case by auto
  show ?thesis
    using d post gone none unfolding delete_post_def prod.case by blast
qed

section \<open>Old handles\<close>

text \<open>
  C22: a handle of another generation than the islet's changes nothing: when no transaction can find
  the islet under that generation, \<open>Reset\<close>, \<open>Recover\<close> and \<open>Delete\<close> leave the database as other
  sessions made it, and none of them claims to have reset or deleted an islet that exists.
\<close>

theorem old_handles_change_nothing:
  "env_ok c ev \<Longrightarrow>
   (\<And>d r. began ev (store w) d \<Longrightarrow> row_of d (ID h) = Some r \<Longrightarrow> row_generation r \<noteq> Generation h) \<Longrightarrow>
     (\<exists>d. began ev (store w) d \<and> store (snd (Reset ev h w)) = d \<and> snd (fst (Reset ev h w)) \<noteq> None) \<and>
     (\<exists>d. began ev (store w) d \<and> store (snd (Recover ev h w)) = d \<and> snd (fst (Recover ev h w)) \<noteq> None) \<and>
     (\<exists>d. began ev (store w) d \<and> store (snd (Delete ev m h w)) = d \<and>
        (fst (Delete ev m h w) = None \<longrightarrow> row_of d (ID h) = None))"
proof -
  assume env: "env_ok c ev"
    and old: "\<And>d r. began ev (store w) d \<Longrightarrow> row_of d (ID h) = Some r \<Longrightarrow> row_generation r \<noteq> Generation h"
  have "\<exists>d. began ev (store w) d \<and> store (snd (reset ev h False b w)) = d \<and> snd (fst (reset ev h False b w)) \<noteq> None" for b
  proof -
    obtain d where d: "began ev (store w) d" and post: "reset_post d h False b (reset ev h False b w)"
      using reset_outcome [OF env] .
    obtain h' e w' where r: "reset ev h False b w = ((h', e), w')" by (cases "reset ev h False b w") auto
    from post have "store w' = d \<and> e \<noteq> None"
      unfolding r reset_post_def prod.case using old [OF d] by blast
    then have "store (snd (reset ev h False b w)) = d \<and> snd (fst (reset ev h False b w)) \<noteq> None"
      by (simp add: r)
    with d show ?thesis by blast
  qed
  moreover have "\<exists>d. began ev (store w) d \<and> store (snd (Delete ev m h w)) = d \<and>
        (fst (Delete ev m h w) = None \<longrightarrow> row_of d (ID h) = None)"
  proof -
    obtain d where d: "began ev (store w) d" and post: "delete_post d h (Delete ev m h w)"
      using delete_outcome [OF env] .
    obtain e w' where r: "Delete ev m h w = (e, w')" by (cases "Delete ev m h w") auto
    from post have "store w' = d \<and> (e \<noteq> None \<or> row_of d (ID h) = None)"
      unfolding r delete_post_def prod.case using old [OF d] by fastforce
    then have "store (snd (Delete ev m h w)) = d \<and> (fst (Delete ev m h w) = None \<longrightarrow> row_of d (ID h) = None)"
      unfolding r by simp blast
    with d show ?thesis by (intro exI [of _ d]) simp
  qed
  ultimately show ?thesis by (simp add: Reset_def Recover_def)
qed

section \<open>Success\<close>

text \<open>An environment in which nothing fails, no row is locked and nobody else acts.\<close>

definition calm :: "env \<Rightarrow> bool" where
  "calm ev \<longleftrightarrow> (\<forall>n. Fault ev n = None \<and> CommitFault ev n = None \<and> \<not> Busy ev n \<and>
     (\<forall>d. Others ev n d = d) \<and> (\<exists>bs. Rand ev n = Inr bs))"

lemma calmD:
  assumes "calm ev"
  shows "Fault ev n = None" "CommitFault ev n = None" "\<not> Busy ev n" "Others ev n d = d"
  using assms by (auto simp: calm_def)

lemma tx_call_calm:
  "calm ev \<Longrightarrow> Status t = Healthy \<Longrightarrow> f (tick w) (View t) = Inr (a, v) \<Longrightarrow>
     tx_call ev f t w = (Inr a, t\<lparr>View := v\<rparr>, bump w)"
  by (simp add: tx_call_def calmD)

lemma tx_exec_calm:
  "calm ev \<Longrightarrow> Status t = Healthy \<Longrightarrow> run_commands cs (View t) = Inr v \<Longrightarrow>
     tx_exec ev cs t w = (None, t\<lparr>View := v\<rparr>, bump w)"
  by (simp add: tx_exec_def exec_error_def tx_call_calm)

lemma tx_change_calm:
  "calm ev \<Longrightarrow> Status t = Healthy \<Longrightarrow> f (Clock ev (tick w) 0) (View t) = Inr v \<Longrightarrow>
     tx_change ev f t w = (None, t\<lparr>View := v\<rparr>, bump w)"
  by (simp add: tx_change_def exec_error_def tx_call_calm)

lemma savepoint_calm:
  "calm ev \<Longrightarrow> Status t = Healthy \<Longrightarrow> savepoint ev t w = (None, t\<lparr>Saved := Some (View t)\<rparr>, bump w)"
  by (simp add: savepoint_def exec_error_def tx_call_calm)

lemma commit_calm:
  "calm ev \<Longrightarrow> Status t = Healthy \<Longrightarrow> commit ev t w = (None, bump (w\<lparr>store := View t\<rparr>))"
  by (simp add: commit_def tx_commit_def calmD)

lemma begin_calm:
  "calm ev \<Longrightarrow> begin_tx ev w = (Inr \<lparr>View = store w, Saved = None, Status = Healthy\<rparr>, bump w)"
  by (simp add: begin_tx_def interfere_def Let_def calmD)

lemma lock_calm:
  "calm ev \<Longrightarrow> Status t = Healthy \<Longrightarrow> row_of (View t) (ID h) = Some r \<Longrightarrow> row_generation r = Generation h \<Longrightarrow>
     lock_metadata ev h t w = ((metadata_of (ID h) r, None), t, bump w)"
  by (simp add: lock_metadata_def tx_call_calm select_for_update_def select_metadata_def calmD
      read_metadata_def scan_def)

lemma check_dependencies_calm:
  "calm ev \<Longrightarrow> Status t = Healthy \<Longrightarrow> dependency_query (Catalog ev (tick w) (View t)) s = None \<Longrightarrow>
     check_dependencies ev s t w = (None, t, bump w)"
  by (simp add: check_dependencies_def tx_call_calm dependency_error_def scan_def)

text \<open>The statements succeed on a database in order.\<close>

lemma role_privileges:
  "registry_ok c d \<Longrightarrow> (role_of i, p) \<in> grants d \<Longrightarrow> p \<in> islet_privileges c i"
  using registry_okD(5) [of c d "role_of i" p] by (auto simp: grant_ok_def)

lemma drop_sql_runs:
  assumes ok: "registry_ok (Database (Runtime m)) d" and row: "row_of d i = Some r" and own: "role_of i \<notin> owners d"
  shows "run_commands (drop_sql m (metadata_of i r)) d = Inr (purged (schema_of i) (role_of i) d)"
proof -
  from registry_okD(2) [OF ok row] have names: "schema_name r = schema_of i" "role_name r = role_of i"
    and ex: "schemas d (schema_of i) \<noteq> None" "roles d (role_of i) \<noteq> None"
    by (auto simp: row_ok_def)
  have api: "schemas d api_schema \<noteq> None" using registry_okD(6) [OF ok] .
  define d1 where "d1 = revoke (\<lambda>r' p. r' = role_of i \<and> (p = ExecuteOn enter_fn \<or> p = ExecuteOn finish_fn))
      (revoke (\<lambda>r' p. r' = role_of i \<and> on_schema api_schema p)
       (revoke (\<lambda>r' p. r' = role_of i \<and> p = ConnectTo (Database (Runtime m)))
        (revoke (\<lambda>r p. on_schema (schema_of i) p) (d\<lparr>schemas := (schemas d)(schema_of i := None)\<rparr>))))"
  have "(role_of i, p) \<notin> grants d1" for p
    using role_privileges [OF ok, of i p] by (auto simp: d1_def islet_privileges_def)
  then have "fst g \<noteq> role_of i" if "g \<in> grants d1" for g
    using that by (metis prod.collapse)
  moreover have "role_of i \<notin> owners d1" using own by (simp add: d1_def)
  ultimately have "\<not> role_in_use (role_of i) d1" by (auto simp: role_in_use_def)
  moreover have "roles d1 (role_of i) \<noteq> None" using ex by (simp add: d1_def)
  ultimately have "run_command (DropRole (role_of i)) d1 = Inr (d1\<lparr>roles := (roles d1)(role_of i := None)\<rparr>)"
    by simp
  then have "\<exists>d'. run_commands (drop_sql m (metadata_of i r)) d = Inr d'"
    using ex api by (simp add: drop_sql_def names run_commands_Cons d1_def [symmetric] del: run_commands.simps(2) run_command.simps(12))
  then show ?thesis using drop_sql_result [of m "metadata_of i r" d] names by auto
qed

lemma schema_sql_runs:
  assumes ok: "registry_ok c d" and row: "row_of d i = Some r"
  shows "\<exists>d1 d2. run_commands [DropSchemaCascade (schema_name r)] d = Inr d1 \<and>
     run_commands (schema_sql (metadata_of i r)) d1 = Inr d2 \<and> d2 = wiped (schema_name r) (role_name r) d"
proof -
  from registry_okD(2) [OF ok row] have names: "schema_name r = schema_of i" "role_name r = role_of i"
    and ex: "schemas d (schema_of i) \<noteq> None" "roles d (role_of i) \<noteq> None"
    by (auto simp: row_ok_def)
  define d1 where "d1 = revoke (\<lambda>r. on_schema (schema_of i)) (d\<lparr>schemas := (schemas d)(schema_of i := None)\<rparr>)"
  have d1: "run_commands [DropSchemaCascade (schema_name r)] d = Inr d1"
    using ex by (simp add: with_schema_def names d1_def)
  have "schemas d1 (schema_of i) = None" and "roles d1 = roles d"
    by (simp_all add: d1_def)
  with ex have "\<exists>d2. run_commands (schema_sql (metadata_of i r)) d1 = Inr d2"
    by (simp add: schema_sql_def names run_commands_Cons del: run_commands.simps(2))
  with d1 wipe_sql [OF d1, of "metadata_of i r"] show ?thesis by auto
qed

lemma opaque_calm:
  assumes "calm ev"
  shows "opaque (Rand ev n) = (fst (opaque (Rand ev n)), None)"
proof -
  obtain bs where "Rand ev n = Inr bs" using assms unfolding calm_def by blast
  then show ?thesis by (simp add: opaque_def)
qed

lemma reset_runs:
  assumes calm: "calm ev" and ok: "registry_ok c (store w)" and row: "row_of (store w) (ID h) = Some r"
    "row_generation r = Generation h" "row_generation r + 1 < 2 ^ 63" "row_state r \<noteq> ''initializing''"
    and dep: "\<And>n. dependency_query (Catalog ev n (store w)) (schema_name r) = None"
  shows "snd (fst (reset ev h initialize False w)) = None \<and>
    Generation (fst (fst (reset ev h initialize False w))) = Generation h + 1"
proof -
  define tok where "tok n = fst (opaque (Rand ev n))" for n
  note tok = opaque_calm [OF calm, folded tok_def]
  obtain d1 d2 where sql: "run_commands [DropSchemaCascade (schema_name r)] (store w) = Inr d1"
      "run_commands (schema_sql (metadata_of (ID h) r)) d1 = Inr d2" and d2: "d2 = wiped (schema_name r) (role_name r) (store w)"
    using schema_sql_runs [OF ok row(1)] by blast
  have adv: "advance ev (ID h) st tk n d2 =
      Inr (Some (row_generation r + 1, st, Clock ev n 0), update_row (ID h) (next_row st tk (Clock ev n 0)) d2)" for n st tk
    using row by (simp add: advance_def d2 next_row_def mark_def Let_def)
  show ?thesis
    using calm row dep sql adv tok
    by (cases initialize)
      (simp_all add: reset_def with_tx_def begin_calm reset_tx_def lock_calm check_dependencies_calm
        savepoint_calm drop_and_create_def create_schema_def tx_exec_calm tx_call_calm scan_def commit_calm
        islet_of_def islet.truncate_def metadata_of_def del: run_commands.simps run_command.simps)
qed

lemma reset_calm:
  assumes "calm ev" and "registry_ok c (store w)" and "row_of (store w) (ID h) = Some r"
    "row_generation r = Generation h" "row_generation r + 1 < 2 ^ 63" "row_state r \<noteq> ''initializing''"
    and "\<And>n. dependency_query (Catalog ev n (store w)) (schema_name r) = None"
  shows "snd (fst (Reset ev h w)) = None \<and> Generation (fst (fst (Reset ev h w))) = Generation h + 1"
  using reset_runs [OF assms, of False] by (simp add: Reset_def)

lemma delete_calm:
  assumes calm: "calm ev" and ok: "registry_ok (Database (Runtime m)) (store w)"
    and row: "row_of (store w) (ID h) = Some r" "row_generation r = Generation h" "row_state r \<noteq> ''initializing''"
    and dep: "\<And>n. dependency_query (Catalog ev n (store w)) (schema_name r) = None"
    and own: "role_name r \<notin> owners (store w)"
  shows "fst (Delete ev m h w) = None"
proof -
  from registry_okD(2) [OF ok row(1)] have names: "schema_name r = schema_of (ID h)" "role_name r = role_of (ID h)"
    by (simp_all add: row_ok_def)
  show ?thesis
    using calm row dep drop_sql_runs [OF ok row(1) own [unfolded names]]
    by (simp add: Delete_def with_tx_def begin_calm delete_tx_def lock_calm check_dependencies_calm
        savepoint_calm tx_exec_calm tx_change_calm commit_calm del: run_commands.simps run_command.simps)
qed

text \<open>
  C24: without faults \<open>Reset\<close> and \<open>Delete\<close> succeed on every islet that is not initializing, whose
  handle is current and whose schema nothing outside depends on: \<open>Reset\<close> with the next generation,
  \<open>Delete\<close> unless the role owns something elsewhere, because after the revocations of its statements
  the role has no privilege left.
\<close>

theorem lifecycle_succeeds:
  "calm ev \<Longrightarrow> registry_ok (Database (Runtime m)) (store w) \<Longrightarrow> row_of (store w) (ID h) = Some r \<Longrightarrow>
   row_generation r = Generation h \<Longrightarrow> row_generation r + 1 < 2 ^ 63 \<Longrightarrow> row_state r \<noteq> ''initializing'' \<Longrightarrow>
   (\<And>n. dependency_query (Catalog ev n (store w)) (schema_name r) = None) \<Longrightarrow>
     snd (fst (Reset ev h w)) = None \<and> Generation (fst (fst (Reset ev h w))) = Generation h + 1 \<and>
     (role_name r \<notin> owners (store w) \<longrightarrow> fst (Delete ev m h w) = None)"
  by (simp add: reset_calm delete_calm)

lemma create_sql_runs:
  assumes ok: "registry_ok (Database (Runtime m)) d" and new: "row_of d i = None"
    and names: "md_schema md = schema_of i" "md_role md = role_of i"
  shows "\<exists>d1 d2 d3. run_commands (role_sql m md) d = Inr d1 \<and> run_commands (schema_sql md) d1 = Inr d2 \<and>
     run_commands (grant_sql m md) d2 = Inr d3"
proof -
  have free: "schemas d (schema_of i) = None" "roles d (role_of i) = None" "schemas d api_schema \<noteq> None"
    using registry_okD(3,4,6) [OF ok] new by auto
  obtain d1 where d1: "run_commands (role_sql m md) d = Inr d1"
    and r1: "roles d1 (role_of i) \<noteq> None" "schemas d1 = schemas d"
    using free by (simp add: role_sql_def names)
  obtain d2 where d2: "run_commands (schema_sql md) d1 = Inr d2"
    and r2: "roles d2 = roles d1" "schemas d2 = (schemas d1)(schema_of i \<mapsto> [])"
    using free r1 by (auto simp: schema_sql_def names run_commands_Cons simp del: run_commands.simps(2))
  have "\<exists>d3. run_commands (grant_sql m md) d2 = Inr d3"
    using free r1 r2 by (simp add: grant_sql_def names run_commands_Cons del: run_commands.simps(2))
  with d1 d2 show ?thesis by blast
qed

lemma insert_runs:
  assumes ok: "registry_ok c d" and new: "row_of d i = None"
    and names: "schema_name r = schema_of i" "role_name r = role_of i" and d': "islets d' = islets d"
  shows "\<exists>d''. insert_row i r d' = Inr d''"
proof -
  have "\<not> (j = i \<or> schema_name s = schema_name r \<or> role_name s = role_name r)" if "(j, s) \<in> set (islets d)" for j s
  proof -
    have "row_of d j = Some s"
      using that registry_okD(1) [OF ok] by (simp add: row_of_def map_of_is_SomeI)
    with registry_okD(2) [OF ok this] new show ?thesis by (auto simp: row_ok_def names)
  qed
  then have "\<not> list_ex (\<lambda>(j, s). j = i \<or> schema_name s = schema_name r \<or> role_name s = role_name r) (islets d')"
    by (auto simp: list_ex_iff d')
  then show ?thesis by (simp add: insert_row_def)
qed

lemma create_runs:
  "calm ev \<Longrightarrow> registry_ok (Database (Runtime m)) (store w) \<Longrightarrow> opaque (Rand ev (tick w)) = (i, None) \<Longrightarrow>
   row_of (store w) i = None \<Longrightarrow> create_islet ev m initializing w = ((h, e), w') \<Longrightarrow>
     e = None \<and> ID h = i \<and> row_of (store w') i \<noteq> None"
proof -
  assume calm: "calm ev" and ok: "registry_ok (Database (Runtime m)) (store w)"
    and i: "opaque (Rand ev (tick w)) = (i, None)" and new: "row_of (store w) i = None"
    and run: "create_islet ev m initializing w = ((h, e), w')"
  define tok where "tok n = fst (opaque (Rand ev n))" for n
  note tok = opaque_calm [OF calm, folded tok_def]
  define token where "token = (if initializing then tok (tick (bump (bump w))) else [])"
  have draw: "(if initializing then opaque (Rand ev (tick (bump (bump w)))) else ([], None)) = (token, None)"
    by (simp add: tok token_def)
  define md :: metadata where "md = \<lparr>ID = i, Generation = 1, State = (if initializing then ''initializing'' else ''active''),
     CreatedAt = 0, UpdatedAt = 0, md_schema = schema_of i, md_role = role_of i,
     md_password = tok (tick (bump w)), md_token = token\<rparr>"
  have names: "md_schema md = schema_of i" "md_role md = role_of i" "ID md = i" by (simp_all add: md_def)
  obtain d1 d2 d3 where sql: "run_commands (role_sql m md) (store w) = Inr d1"
      "run_commands (schema_sql md) d1 = Inr d2" "run_commands (grant_sql m md) d2 = Inr d3"
    using create_sql_runs [OF ok new names(1,2)] by blast
  have d3: "islets d3 = islets (store w)"
    using run_commands_frame [OF sql(1)] run_commands_frame [OF sql(2)] run_commands_frame [OF sql(3)] by simp
  have "\<exists>d4. insert_islet ev md n d3 = Inr (Some (Clock ev n 0, Clock ev n 1), d4) \<and> row_of d4 i \<noteq> None" for n
  proof -
    define r where "r = \<lparr>schema_name = md_schema md, role_name = md_role md, row_password = md_password md,
               row_state = State md, row_generation = 1, init_token = nullif_empty (md_token md),
               row_created = Clock ev n 0, row_updated = Clock ev n 1\<rparr>"
    obtain d4 where d4: "insert_row i r d3 = Inr d4"
      using insert_runs [OF ok new _ _ d3] names by (force simp: r_def)
    have "insert_islet ev md n d3 = Inr (Some (Clock ev n 0, Clock ev n 1), d4)"
      using d4 by (simp add: insert_islet_def Let_def r_def names)
    with row_of_insert [OF d4] show ?thesis by simp
  qed
  then obtain d4 where ins: "\<And>n. insert_islet ev md n d3 = Inr (Some (Clock ev n 0, Clock ev n 1), d4 n)"
    and d4: "\<And>n. row_of (d4 n) i \<noteq> None"
    by metis
  have "create_islet ev m initializing w = with_tx ev (\<lambda>e. (no_islet, lifecycle_err e)) (create_tx ev m md) (bump (bump (bump w)))"
    unfolding create_islet_def i tok [of "tick (bump w)"] draw prod.case option.case Let_def md_def ..
  with run calm sql ins d4 show ?thesis
    by (auto simp: with_tx_def begin_calm create_tx_def create_schema_def tx_exec_calm tx_call_calm scan_def
        commit_calm islet_of_def islet.truncate_def names
        simp del: run_commands.simps run_command.simps)
qed

lemma create_calm:
  "calm ev \<Longrightarrow> registry_ok (Database (Runtime m)) (store w) \<Longrightarrow> opaque (Rand ev (tick w)) = (i, None) \<Longrightarrow>
   row_of (store w) i = None \<Longrightarrow> Create ev m w = ((h, e), w') \<Longrightarrow>
     e = None \<and> ID h = i \<and> row_of (store w') i \<noteq> None"
  unfolding Create_def by (rule create_runs)

text \<open>
  Without faults \<open>Create\<close> succeeds as soon as the identifier drawn is not taken: nothing else in
  an orderly database stands in the way of its statements, and the new islet is there.
\<close>

theorem create_succeeds:
  "calm ev \<Longrightarrow> registry_ok (Database (Runtime m)) (store w) \<Longrightarrow> opaque (Rand ev (tick w)) = (i, None) \<Longrightarrow>
   row_of (store w) i = None \<Longrightarrow> Create ev m w = ((h, e), w') \<Longrightarrow>
     e = None \<and> ID h = i \<and> row_of (store w') i \<noteq> None"
  by (rule create_calm)

section \<open>A concrete run\<close>

definition sample_config :: config where
  "sample_config = default_config empty_config"

definition sample_manager :: manager where
  "sample_manager = \<lparr>Runtime = \<lparr>Database = ''app'', User = ''admin'', Password = [], RuntimeParams = Map.empty,
       ExecMode = []\<rparr>, Settings = sample_config, Reserved = Map.empty, Sanitize = (\<lambda>s. s)\<rparr>"

definition no_catalog :: catalog where
  "no_catalog = \<lparr>pg_depend = [], namespaces = [], identify_object = (\<lambda>_. \<lparr>object_schema = None, object_identity = []\<rparr>)\<rparr>"

text \<open>A calm environment, in which a user's statement has an answer and no effect.\<close>

definition quiet_env :: env where
  "quiet_env = \<lparr>Fault = (\<lambda>_. None), CommitFault = (\<lambda>_. None), Others = (\<lambda>_ d. d), Busy = (\<lambda>_. False),
     Rand = (\<lambda>n. Inr (replicate 24 (n mod 256))), Clock = (\<lambda>n k. int n), Catalog = (\<lambda>_ _. no_catalog),
     ProcNames = (\<lambda>_ _ _. []), Run = (\<lambda>_ _ _ d. (sample_reply, d)), Advances = (\<lambda>_ _ _ _. [])\<rparr>"

definition base_db :: db where
  "base_db = \<lparr>islets = [], schemas = [api_schema \<mapsto> []], roles = Map.empty, grants = {},
     owners = {}, inst = sample_installation\<rparr>"

definition base_world :: world where
  "base_world = \<lparr>store = base_db, tick = 0, advanced = []\<rparr>"

lemma quiet_calm: "calm quiet_env"
  by (simp add: calm_def quiet_env_def)

lemma quiet_ok: "env_ok c quiet_env"
  by (simp add: env_ok_def quiet_env_def random_bytes_def list_all_iff)

lemma quiet_began: "began quiet_env d d' \<longleftrightarrow> d' = d"
  by (simp add: began_def quiet_env_def)

lemma base_ok: "registry_ok c base_db"
  by (auto simp: registry_ok_def base_db_def row_of_def secluded_def)

definition sample_id :: string where
  "sample_id = hex_encode (replicate 24 0)"

lemma sample_draw: "opaque (Rand quiet_env (tick base_world)) = (sample_id, None)"
  by (simp add: opaque_def quiet_env_def base_world_def sample_id_def)

lemma base_new: "row_of (store base_world) i = None"
  by (simp add: base_world_def base_db_def row_of_def)

definition created_world :: world where
  "created_world = snd (Create quiet_env sample_manager base_world)"

lemma sample_created:
  obtains h r where "Create quiet_env sample_manager base_world = ((h, None), created_world)"
    and "row_of (store created_world) sample_id = Some r" and "row_generation r = 1"
    and "row_state r = ''active''" and "ID h = sample_id"
    and "registry_ok ''app'' (store created_world)" and "owners (store created_world) = {}"
proof -
  have app: "Database (Runtime sample_manager) = ''app''" by (simp add: sample_manager_def)
  have ok: "registry_ok (Database (Runtime sample_manager)) (store base_world)"
    by (simp add: base_world_def base_ok)
  obtain h e w' where r: "Create quiet_env sample_manager base_world = ((h, e), w')"
    by (cases "Create quiet_env sample_manager base_world") auto
  then have w': "created_world = w'" by (simp add: created_world_def)
  from create_calm [OF quiet_calm ok sample_draw base_new r] have e: "e = None" "ID h = sample_id" by simp_all
  from r have c: "create_islet quiet_env sample_manager False base_world = ((h, e), w')" by (simp add: Create_def)
  obtain d where d: "d = store base_world \<or> began quiet_env (store base_world) d"
    and post: "create_post sample_manager False d ((h, e), w')"
    using create_outcome [OF quiet_ok ok, of False] unfolding c .
  have "d = base_db" using d by (simp add: quiet_began base_world_def)
  with post e obtain i row where cr: "created_row False i row" and h: "h = islet_of (metadata_of i row)"
    and ins: "insert_row i row (provisioned ''app'' i (islet_attrs sample_manager i (row_password row)) base_db) = Inr (store w')"
    by (auto simp: create_post_def app)
  have i: "i = sample_id" using e h by (simp add: islet_of_def islet.truncate_def metadata_of_def)
  have ch: "changes ''app'' base_db (store w')"
    using create_post_change [of sample_manager base_db False h e w'] post \<open>d = base_db\<close> base_ok by (simp add: app)
  show ?thesis
    by (rule that [of h row])
      (use r w' e cr row_of_insert [OF ins] insert_row_frame [OF ins] changes_registry_ok [OF ch base_ok] i
        in \<open>simp_all add: created_row_def start_state_def base_db_def\<close>)
qed

theorem create_succeeds_witness:
  "snd (fst (Create quiet_env sample_manager base_world)) = None \<and>
   row_of (store created_world) sample_id \<noteq> None"
proof -
  obtain h e w' where r: "Create quiet_env sample_manager base_world = ((h, e), w')"
    by (cases "Create quiet_env sample_manager base_world") auto
  have "registry_ok (Database (Runtime sample_manager)) (store base_world)"
    by (simp add: base_world_def base_ok)
  from create_succeeds [OF quiet_calm this sample_draw base_new r] show ?thesis
    by (simp add: r created_world_def)
qed

theorem lifecycle_keeps_order_witness:
  "registry_ok ''app'' (store created_world)"
proof -
  have "registry_ok ''app'' (store base_world)" and "''app'' = Database (Runtime sample_manager)"
    by (simp_all add: base_world_def base_ok sample_manager_def)
  from lifecycle_keeps_order [OF quiet_ok this, of created_world] show ?thesis
    by (simp add: created_world_def)
qed

theorem create_outcomes_witness:
  "\<exists>h. Create quiet_env sample_manager base_world = ((h, None), created_world) \<and>
     State h = ''active'' \<and> Generation h = 1 \<and>
     (role_of (ID h), CreateIn (schema_of (ID h))) \<in> grants (store created_world)"
proof -
  obtain h r where run: "Create quiet_env sample_manager base_world = ((h, None), created_world)"
    using sample_created by metis
  have "registry_ok ''app'' (store base_world)" and "''app'' = Database (Runtime sample_manager)"
    by (simp_all add: base_world_def base_ok sample_manager_def)
  from create_outcomes [OF quiet_ok this run] show ?thesis
    using run by (auto simp: islet_privileges_def)
qed

theorem lifecycle_succeeds_witness:
  "\<exists>h. ID h = sample_id \<and> snd (fst (Reset quiet_env h created_world)) = None \<and>
     Generation (fst (fst (Reset quiet_env h created_world))) = 2 \<and>
     fst (Delete quiet_env sample_manager h created_world) = None"
proof -
  obtain r where row: "row_of (store created_world) sample_id = Some r" "row_generation r = 1"
    "row_state r = ''active''" and ok: "registry_ok ''app'' (store created_world)" and own: "owners (store created_world) = {}"
    using sample_created by metis
  define h where "h = no_islet\<lparr>ID := sample_id, Generation := 1\<rparr>"
  have "dependency_query no_catalog s = None" for s
    by (simp add: dependency_query_def no_catalog_def schema_addresses_def edges_def affected.simps new_targets_def)
  then have dep: "dependency_query (Catalog quiet_env n (store created_world)) (schema_name r) = None" for n
    by (simp add: quiet_env_def)
  have ok': "registry_ok (Database (Runtime sample_manager)) (store created_world)"
    using ok by (simp add: sample_manager_def)
  from lifecycle_succeeds [OF quiet_calm ok' _ _ _ _ dep, of h] row own
  show ?thesis by (intro exI [of _ h]) (simp add: h_def)
qed

lemma sample_no_dependency: "dependency_query (Catalog quiet_env n d) s = None"
  by (simp add: dependency_query_def quiet_env_def no_catalog_def schema_addresses_def edges_def
      affected.simps new_targets_def)

definition sample_handle :: islet where
  "sample_handle = no_islet\<lparr>ID := sample_id, Generation := 1\<rparr>"

lemma sample_handle_sel [simp]: "ID sample_handle = sample_id" "Generation sample_handle = 1"
  by (simp_all add: sample_handle_def)

theorem reset_outcomes_witness:
  "\<exists>h' w'. Reset quiet_env sample_handle created_world = ((h', None), w') \<and> Generation h' = 2 \<and>
     State h' = ''active'' \<and> schemas (store w') (schema_of sample_id) = Some []"
proof -
  obtain r where row: "row_of (store created_world) sample_id = Some r" "row_generation r = 1"
    "row_state r = ''active''" and ok: "registry_ok ''app'' (store created_world)"
    using sample_created by metis
  from registry_okD(2) [OF ok row(1)] have name: "schema_name r = schema_of sample_id"
    by (simp add: row_ok_def)
  obtain h' e w' where run: "Reset quiet_env sample_handle created_world = ((h', e), w')"
    by (cases "Reset quiet_env sample_handle created_world") auto
  have res: "e = None" "Generation h' = 2"
    using reset_calm [OF quiet_calm ok, of sample_handle r] row sample_no_dependency by (simp_all add: run)
  from run have "(False, ((h', e), w')) \<in>
      {(False, Reset quiet_env sample_handle created_world), (True, Recover quiet_env sample_handle created_world)}"
    by simp
  from reset_outcomes [OF quiet_ok this] row res name
  have "State h' = ''active'' \<and> schemas (store w') (schema_of sample_id) = Some []"
    by (auto simp: quiet_began)
  with run res show ?thesis by simp
qed

theorem delete_outcomes_witness:
  "\<exists>w'. Delete quiet_env sample_manager sample_handle created_world = (None, w') \<and>
     row_of (store w') sample_id = None"
proof -
  obtain r where row: "row_of (store created_world) sample_id = Some r" "row_generation r = 1"
    "row_state r = ''active''" and ok: "registry_ok ''app'' (store created_world)" and own: "owners (store created_world) = {}"
    using sample_created by metis
  obtain e w' where run: "Delete quiet_env sample_manager sample_handle created_world = (e, w')"
    by (cases "Delete quiet_env sample_manager sample_handle created_world") auto
  have ok': "registry_ok (Database (Runtime sample_manager)) (store created_world)"
    using ok by (simp add: sample_manager_def)
  have e: "e = None"
    using delete_calm [OF quiet_calm ok', of sample_handle r] row own sample_no_dependency by (simp add: run)
  have "row_of (store w') (ID sample_handle) = None"
    using conjunct2 [OF delete_outcomes [OF quiet_ok run]] e by simp
  with run e show ?thesis by simp
qed

theorem old_handles_change_nothing_witness:
  "store (snd (Reset quiet_env (no_islet\<lparr>ID := sample_id, Generation := 7\<rparr>) created_world)) = store created_world"
proof -
  let ?h = "no_islet\<lparr>ID := sample_id, Generation := 7\<rparr>"
  obtain r where row: "row_of (store created_world) sample_id = Some r" "row_generation r = 1"
    using sample_created by metis
  have "row_generation s \<noteq> Generation ?h"
    if "began quiet_env (store created_world) d" "row_of d (ID ?h) = Some s" for d s
    using that row by (simp add: quiet_began)
  from conjunct1 [OF old_handles_change_nothing [OF quiet_ok this]] show ?thesis
    by (simp add: quiet_began)
qed

end
