(* ===== verification/ExecuteSafety.thy ===== *)
theory ExecuteSafety
  imports Execute Outcomes
begin

text \<open>
  What a batch does: the relation \<open>batch_run\<close> is its specification, a sequence of statements each
  accepted by the policy in the state it runs in and answered in full; the loop of \<open>execute\<close> refines
  it, and with the privileges of the islet's role its effect stays in the islet's schema.
\<close>

section \<open>The specification of a batch\<close>

inductive batch_run ::
  "env \<Rightarrow> manager \<Rightarrow> frontend \<Rightarrow> string \<Rightarrow> string \<Rightarrow> string list \<Rightarrow> db \<Rightarrow> result list \<Rightarrow> db \<Rightarrow> bool"
  for ev m fe s u where
  empty: "batch_run ev m fe s u [] d [] d"
| step: "check fe sql s (local_map (Reserved m) (ProcNames ev n s d)) = None \<Longrightarrow>
    Run ev k u sql d = (r, d1) \<Longrightarrow> reply_err r = None \<Longrightarrow>
    Columns res = FieldDescriptions r \<Longrightarrow> Rows res = map values_of (RawRows r) \<Longrightarrow>
    CommandTag res = Tag r \<Longrightarrow> RowsAffected res = TagRows r \<Longrightarrow> \<not> Truncated res \<Longrightarrow>
    batch_run ev m fe s u sqls d1 results d2 \<Longrightarrow>
    batch_run ev m fe s u (sql # sqls) d (res # results) d2"

inductive_cases batch_run_Nil: "batch_run ev m fe s u [] d results d'"
inductive_cases batch_run_Cons: "batch_run ev m fe s u (sql # sqls) d results d'"

lemma batch_run_length: "batch_run ev m fe s u sqls d results d' \<Longrightarrow> length results = length sqls"
  by (induction rule: batch_run.induct) auto

text \<open>
  The sequences a batch may move, whatever becomes of its transaction: those that one of its
  statements moves, accepted by the policy in the state the statements before it have led to.
\<close>

definition advances_of ::
  "env \<Rightarrow> manager \<Rightarrow> frontend \<Rightarrow> string \<Rightarrow> string \<Rightarrow> string list \<Rightarrow> db \<Rightarrow> advance set" where
  "advances_of ev m fe s u sqls d =
     {x. \<exists>k j n results v. k < length sqls \<and> batch_run ev m fe s u (take k sqls) d results v \<and>
        check fe (sqls ! k) s (local_map (Reserved m) (ProcNames ev j s v)) = None \<and>
        x \<in> set (Advances ev n u (sqls ! k) v)}"

definition moves :: "advance set \<Rightarrow> advance list \<Rightarrow> world \<Rightarrow> bool" where
  "moves A a w' \<longleftrightarrow> (\<exists>xs. advanced w' = a @ xs \<and> set xs \<subseteq> A)"

lemma moves_simps [simp]: "advanced w' = a \<Longrightarrow> moves A a w'" "moves A a (bump w') \<longleftrightarrow> moves A a w'"
  "moves A a (rollback w') \<longleftrightarrow> moves A a w'" "moves A a (close_runtime w') \<longleftrightarrow> moves A a w'"
  by (simp_all add: moves_def close_runtime_def)

section \<open>The loop\<close>

lemma row_loop_complete: "row_loop rows bytes raws = (out, rows', bytes', False) \<Longrightarrow> out = map values_of raws"
  by (induction rows bytes raws arbitrary: out rule: row_loop.induct) (auto split: if_splits prod.splits)

text \<open>What \<open>query\<close> returns when it reports no error.\<close>

lemma query_ok:
  assumes "Failure (query r start now rows bytes) = None"
  shows "reply_err r = None \<and> \<not> Closed (query r start now rows bytes) \<and>
     Columns (Answer (query r start now rows bytes)) = FieldDescriptions r \<and>
     Rows (Answer (query r start now rows bytes)) = map values_of (RawRows r) \<and>
     CommandTag (Answer (query r start now rows bytes)) = Tag r \<and>
     RowsAffected (Answer (query r start now rows bytes)) = TagRows r \<and>
     \<not> Truncated (Answer (query r start now rows bytes))"
proof -
  obtain out rows' bytes' over where
    loop: "row_loop rows (header_loop bytes (FieldDescriptions r)) (RawRows r) = (out, rows', bytes', over)"
    by (cases "row_loop rows (header_loop bytes (FieldDescriptions r)) (RawRows r)") auto
  show ?thesis
  proof (cases "QueryErr r")
    case (Some e)
    with assms show ?thesis by (simp add: query_def Let_def)
  next
    case q: None
    have no: "\<not> over" "RowsErr r = None" "\<not> bytes' < 0"
      using assms q loop by (auto simp: query_def Let_def split: if_splits option.splits)
    with row_loop_complete [of rows "header_loop bytes (FieldDescriptions r)" "RawRows r"] loop q
    show ?thesis by (simp add: query_def Let_def reply_err_def empty_result_def)
  qed
qed

lemma reply_err_error [simp]: "reply_err (error_reply e) = Some e"
  by (simp add: reply_err_def error_reply_def)

lemma tx_query_law:
  assumes "tx_query ev u sql rows bytes t w = (out, t', w')"
  shows "store w' = store w \<and>
     (Failure out = None \<longrightarrow> Status t = Healthy \<and> Status t' = Healthy \<and>
        (\<exists>k r. Run ev k u sql (View t) = (r, View t') \<and> reply_err r = None \<and>
           Columns (Answer out) = FieldDescriptions r \<and> Rows (Answer out) = map values_of (RawRows r) \<and>
           CommandTag (Answer out) = Tag r \<and> RowsAffected (Answer out) = TagRows r \<and> \<not> Truncated (Answer out)))"
proof -
  obtain r v where r: "tx_reply ev u sql t w = (r, v)" by (cases "tx_reply ev u sql t w") auto
  let ?out = "query r (Clock ev (tick w) 0) (Clock ev (tick w) 1) rows bytes"
  from assms have out: "out = ?out" and w': "store w' = store w"
    by (auto simp: tx_query_def r Let_def)
  have "Status t = Healthy \<and> Status t' = Healthy \<and>
        (\<exists>k r. Run ev k u sql (View t) = (r, View t') \<and> reply_err r = None \<and>
           Columns (Answer out) = FieldDescriptions r \<and> Rows (Answer out) = map values_of (RawRows r) \<and>
           CommandTag (Answer out) = Tag r \<and> RowsAffected (Answer out) = TagRows r \<and> \<not> Truncated (Answer out))"
    if "Failure out = None"
  proof -
    note ok = query_ok [OF that [unfolded out]]
    then have h: "Status t = Healthy" and run: "Run ev (tick w) u sql (View t) = (r, v)"
      using r by (auto simp: tx_reply_def split: status.splits option.splits)
    from assms ok h have "View t' = v" and "Status t' = Healthy"
      by (auto simp: tx_query_def r Let_def)
    with ok h run show ?thesis unfolding out by blast
  qed
  with w' show ?thesis by blast
qed

lemma local_functions_law:
  assumes "local_functions ev m s t w = (x, t', w')"
  shows "store w' = store w \<and> View t' = View t \<and>
     (\<forall>local. x = Inr local \<longrightarrow> Status t' = Status t \<and>
        (\<exists>n. local = local_map (Reserved m) (ProcNames ev n s (View t))))"
  using tx_call_law [OF assms [unfolded local_functions_def]] by (auto split: sum.splits)

lemma tx_query_advanced:
  "tx_query ev u sql rows bytes t w = (out, t', w') \<Longrightarrow>
     \<exists>n. advanced w' = advanced w \<or> advanced w' = advanced w @ Advances ev n u sql (View t)"
  by (intro exI [of _ "tick w"]) (auto simp: tx_query_def moved_def Let_def split: prod.splits if_splits)

lemma with_statement_Some: "\<exists>y. with_statement i (Some x) = Some y"
  by (cases x) (simp_all add: with_statement_def)

text \<open>The loop refines \<open>batch_run\<close>, and never touches the committed database.\<close>

lemma exec_loop_run:
  assumes "exec_loop ev m fe md u i sqls rows bytes t w = ((results, e), t', w')"
  shows "store w' = store w \<and>
     (e = None \<longrightarrow> batch_run ev m fe (md_schema md) u sqls (View t) results (View t') \<and>
        (Status t = Healthy \<longrightarrow> Status t' = Healthy))"
  using assms
proof (induction sqls arbitrary: i rows bytes t w results)
  case Nil
  then show ?case by (simp add: batch_run.empty)
next
  case (Cons sql rest)
  obtain x t1 w1 where 1: "local_functions ev m (md_schema md) t w = (x, t1, w1)"
    by (cases "local_functions ev m (md_schema md) t w") auto
  note law1 = local_functions_law [OF 1]
  show ?case
  proof (cases x)
    case (Inl y)
    with Cons.prems law1 show ?thesis by (auto simp: 1)
  next
    case (Inr local)
    with law1 obtain n where local: "local = local_map (Reserved m) (ProcNames ev n (md_schema md) (View t))"
      and t1: "View t1 = View t" "store w1 = store w" "Status t1 = Status t" by auto
    show ?thesis
    proof (cases "check fe sql (md_schema md) local")
      case (Some p)
      with Cons.prems t1 Inr show ?thesis by (auto simp: 1)
    next
      case chk: None
      obtain out t2 w2 where 2: "tx_query ev u sql rows bytes t1 w1 = (out, t2, w2)"
        by (cases "tx_query ev u sql rows bytes t1 w1") auto
      note law2 = tx_query_law [OF 2]
      show ?thesis
      proof (cases "Failure out")
        case (Some f)
        from Cons.prems have "store w' = store w2 \<and> e = with_statement i (classify (Some f))"
          by (simp add: 1 2 Inr chk Some)
        moreover obtain y where "with_statement i (classify (Some f)) = Some y"
          using classify_Some [of f] with_statement_Some by metis
        ultimately show ?thesis using law2 t1 by simp
      next
        case None
        obtain rs e3 t3 w3 where 3: "exec_loop ev m fe md u (i + 1) rest (RowsLeft out) (BytesLeft out) t2 w2 = ((rs, e3), t3, w3)"
          by (cases "exec_loop ev m fe md u (i + 1) rest (RowsLeft out) (BytesLeft out) t2 w2") auto
        from Cons.prems have eqs: "results = Answer out # rs" "e = e3" "t' = t3" "w' = w3"
          using 3 by (simp_all add: 1 2 Inr chk None)
        from law2 None t1 obtain k r where run: "Run ev k u sql (View t) = (r, View t2)" "reply_err r = None"
            "Columns (Answer out) = FieldDescriptions r" "Rows (Answer out) = map values_of (RawRows r)"
            "CommandTag (Answer out) = Tag r" "RowsAffected (Answer out) = TagRows r" "\<not> Truncated (Answer out)"
          by auto
        note ih = Cons.IH [OF 3 [folded eqs(2-4)]]
        have "batch_run ev m fe (md_schema md) u (sql # rest) (View t) (Answer out # rs) (View t')" if "e = None"
          using batch_run.step [OF chk [unfolded local] run] ih that by blast
        with ih law2 None t1 show ?thesis by (simp add: eqs(1))
      qed
    qed
  qed
qed

text \<open>The loop moves the sequences of the statements it sends, and no others.\<close>

lemma advances_of_Cons:
  assumes "check fe sql s (local_map (Reserved m) (ProcNames ev j s d)) = None"
    and "Run ev k u sql d = (r, d1)" and "reply_err r = None"
    and "Columns (res :: result) = FieldDescriptions r" and "Rows res = map values_of (RawRows r)"
    and "CommandTag res = Tag r" and "RowsAffected res = TagRows r" and "\<not> Truncated res"
  shows "advances_of ev m fe s u rest d1 \<subseteq> advances_of ev m fe s u (sql # rest) d"
proof
  fix x assume "x \<in> advances_of ev m fe s u rest d1"
  then obtain i j' n results v where "i < length rest" and run: "batch_run ev m fe s u (take i rest) d1 results v"
    and "check fe (rest ! i) s (local_map (Reserved m) (ProcNames ev j' s v)) = None"
    and "x \<in> set (Advances ev n u (rest ! i) v)" by (auto simp: advances_of_def)
  moreover from batch_run.step [OF assms run] have "batch_run ev m fe s u (take (Suc i) (sql # rest)) d (res # results) v"
    by simp
  ultimately show "x \<in> advances_of ev m fe s u (sql # rest) d"
    unfolding advances_of_def mem_Collect_eq
    by (intro exI [of _ "Suc i"] exI [of _ j'] exI [of _ n] exI [of _ "res # results"] exI [of _ v]) simp
qed

lemma advances_of_first:
  "check fe sql s (local_map (Reserved m) (ProcNames ev j s d)) = None \<Longrightarrow>
     set (Advances ev n u sql d) \<subseteq> advances_of ev m fe s u (sql # rest) d"
proof
  fix x
  assume "check fe sql s (local_map (Reserved m) (ProcNames ev j s d)) = None" and "x \<in> set (Advances ev n u sql d)"
  then have "0 < length (sql # rest) \<and> batch_run ev m fe s u (take 0 (sql # rest)) d [] d \<and>
      check fe ((sql # rest) ! 0) s (local_map (Reserved m) (ProcNames ev j s d)) = None \<and>
      x \<in> set (Advances ev n u ((sql # rest) ! 0) d)"
    by (simp add: batch_run.empty)
  then show "x \<in> advances_of ev m fe s u (sql # rest) d" unfolding advances_of_def by blast
qed

lemma exec_loop_moves:
  "exec_loop ev m fe md u i sqls rows bytes t w = (x, t', w') \<Longrightarrow>
     moves (advances_of ev m fe (md_schema md) u sqls (View t)) (advanced w) w'"
proof (induction sqls arbitrary: i rows bytes t w x t' w')
  case Nil
  then show ?case by simp
next
  case (Cons sql rest)
  let ?A = "advances_of ev m fe (md_schema md) u (sql # rest) (View t)"
  obtain y t1 w1 where 1: "local_functions ev m (md_schema md) t w = (y, t1, w1)"
    by (cases "local_functions ev m (md_schema md) t w") auto
  note law1 = local_functions_law [OF 1]
  have a1: "advanced w1 = advanced w" using tx_call_advanced [OF 1 [unfolded local_functions_def]] .
  show ?case
  proof (cases y)
    case (Inl z)
    with Cons.prems a1 show ?thesis by (simp add: 1)
  next
    case (Inr local)
    with law1 obtain j where local: "local = local_map (Reserved m) (ProcNames ev j (md_schema md) (View t))"
      and t1: "View t1 = View t" by auto
    show ?thesis
    proof (cases "check fe sql (md_schema md) local")
      case (Some p)
      with Cons.prems a1 Inr show ?thesis by (simp add: 1)
    next
      case chk: None
      note acc = chk [unfolded local]
      obtain out t2 w2 where 2: "tx_query ev u sql rows bytes t1 w1 = (out, t2, w2)"
        by (cases "tx_query ev u sql rows bytes t1 w1") auto
      from tx_query_advanced [OF 2] a1 t1 advances_of_first [OF acc] obtain xs
        where xs: "advanced w2 = advanced w @ xs" "set xs \<subseteq> ?A" by (metis append_Nil2 empty_set empty_subsetI)
      show ?thesis
      proof (cases "Failure out")
        case (Some f)
        with Cons.prems xs show ?thesis by (auto simp: 1 2 Inr chk moves_def)
      next
        case None
        obtain z t3 w3 where 3: "exec_loop ev m fe md u (i + 1) rest (RowsLeft out) (BytesLeft out) t2 w2 = (z, t3, w3)"
          by (cases "exec_loop ev m fe md u (i + 1) rest (RowsLeft out) (BytesLeft out) t2 w2") auto
        from Cons.prems 3 have w': "w' = w3" by (cases z) (simp add: 1 2 Inr chk None)
        from tx_query_law [OF 2] None t1 obtain k r where "Run ev k u sql (View t) = (r, View t2)" "reply_err r = None"
            "Columns (Answer out) = FieldDescriptions r" "Rows (Answer out) = map values_of (RawRows r)"
            "CommandTag (Answer out) = Tag r" "RowsAffected (Answer out) = TagRows r" "\<not> Truncated (Answer out)"
          by auto
        note sub = advances_of_Cons [OF acc this, of rest]
        from Cons.IH [OF 3] obtain ys where "advanced w3 = advanced w2 @ ys"
          and "set ys \<subseteq> advances_of ev m fe (md_schema md) u rest (View t2)" by (auto simp: moves_def)
        with sub xs w' show ?thesis
          unfolding moves_def by (intro exI [of _ "xs @ ys"]) auto
      qed
    qed
  qed
qed

section \<open>Confinement\<close>

text \<open>
  A role acts in a schema when it or \<open>PUBLIC\<close> may create objects there or use what is there, but in
  the schema of the gateway there is nothing to use except functions.
\<close>

definition reaches :: "string \<Rightarrow> string \<Rightarrow> db \<Rightarrow> bool" where
  "reaches u s d \<longleftrightarrow> schemas d s \<noteq> None \<and>
     (\<exists>g \<in> {u, public_role}. (g, CreateIn s) \<in> grants d \<or> (g, UsageOn s) \<in> grants d \<and> s \<noteq> api_schema)"

text \<open>
  SQL that the policy lets through for some set of local functions, none of them under the name of a
  catalog routine.
\<close>

definition accepted :: "frontend \<Rightarrow> locals \<Rightarrow> string \<Rightarrow> string \<Rightarrow> bool" where
  "accepted fe reserved schema sql \<longleftrightarrow>
     (\<exists>local. (\<forall>f. local f = Some True \<longrightarrow> reserved f = None) \<and> check fe sql schema local = None)"

text \<open>
  What PostgreSQL documents of such SQL, run under the role of an islet that has none of the
  attributes of a superuser or a creator of roles and databases. Roles, privileges, schemas as such
  and the installation change by kinds of statements and by functions that the policy does not let
  through. Rows, objects, ownership and sequences change only in a schema that the role reaches, and
  never in the server's own schemas; the registry is a table of \<open>pgislet_internal\<close>. Nothing is said
  of other roles and of other SQL.
\<close>

definition confined :: "frontend \<Rightarrow> locals \<Rightarrow> env \<Rightarrow> bool" where
  "confined fe reserved ev \<longleftrightarrow> (\<forall>n i sql d a r d'.
     roles d (role_of i) = Some a \<longrightarrow> unprivileged a \<longrightarrow> accepted fe reserved (schema_of i) sql \<longrightarrow>
     Run ev n (role_of i) sql d = (r, d') \<longrightarrow>
       roles d' = roles d \<and> grants d' = grants d \<and> inst d' = inst d \<and>
       (\<forall>s. schemas d' s = None \<longleftrightarrow> schemas d s = None) \<and>
       (islets d' \<noteq> islets d \<longrightarrow> reaches (role_of i) internal_schema d) \<and>
       (owners d' \<noteq> owners d \<longrightarrow> (\<exists>s. s \<noteq> schema_of i \<and> \<not> system_schema s \<and> reaches (role_of i) s d)) \<and>
       (\<forall>s. schemas d' s \<noteq> schemas d s \<longrightarrow> \<not> system_schema s \<and> reaches (role_of i) s d) \<and>
       (\<forall>s q v. (s, q, v) \<in> set (Advances ev n (role_of i) sql d) \<longrightarrow> \<not> system_schema s \<and> reaches (role_of i) s d))"

text \<open>In a registry in order the role of an islet reaches its own schema and no other.\<close>

lemma reaches_own:
  assumes ok: "registry_ok c d" and "reaches (role_of i) s d" and "\<not> system_schema s"
  shows "s = schema_of i"
  using assms(2,3) role_privileges [OF ok, of i] registry_okD(7) [OF ok]
  by (fastforce simp: reaches_def secluded_def islet_privileges_def)

lemma internal_not_system [simp]: "\<not> system_schema internal_schema"
  by (simp add: system_schema_def internal_schema_def)

lemma local_map_True: "local_map reserved procs f = Some True \<Longrightarrow> reserved f = None"
proof -
  have "fold (\<lambda>name local. if reserved name = None then local(name \<mapsto> True) else local) procs L f = Some True \<Longrightarrow>
      L f = Some True \<or> reserved f = None" for L
    by (induction procs arbitrary: L) (fastforce split: if_splits)+
  from this [of "\<lambda>name. map_option (\<lambda>_. False) (reserved name)"]
  show "local_map reserved procs f = Some True \<Longrightarrow> reserved f = None" by (auto simp: local_map_def)
qed

lemma check_accepted: "check fe sql s (local_map reserved procs) = None \<Longrightarrow> accepted fe reserved s sql"
  unfolding accepted_def using local_map_True by blast

lemma run_in_schema:
  assumes "confined fe reserved ev" and ok: "registry_ok c d" and row: "row_of d i = Some r"
    and acc: "accepted fe reserved (schema_of i) sql" and run: "Run ev n (role_of i) sql d = (rep, d')"
  shows "(\<exists>x. d' = d\<lparr>schemas := (schemas d)(schema_of i \<mapsto> x)\<rparr>) \<and>
    (\<forall>s q v. (s, q, v) \<in> set (Advances ev n (role_of i) sql d) \<longrightarrow> s = schema_of i)"
proof -
  from registry_okD(2) [OF ok row] obtain a where a: "roles d (role_of i) = Some a" "unprivileged a"
    and here: "schemas d (schema_of i) \<noteq> None" by (auto simp: row_ok_def)
  note conf = assms(1) [unfolded confined_def, rule_format, OF a acc run]
  note own = reaches_own [OF ok]
  from conf have same: "roles d' = roles d" "grants d' = grants d" "inst d' = inst d"
    and dom: "\<And>s. schemas d' s = None \<longleftrightarrow> schemas d s = None" by blast+
  from conf own [of i internal_schema] have "islets d' = islets d" by auto
  moreover from conf own have "owners d' = owners d" by blast
  moreover from conf own have else_: "schemas d' s = schemas d s" if "s \<noteq> schema_of i" for s
    using that by blast
  moreover from dom here obtain x where "schemas d' (schema_of i) = Some x" by (metis not_None_eq)
  ultimately have "d' = d\<lparr>schemas := (schemas d)(schema_of i \<mapsto> x)\<rparr>"
    using same by (intro db_eqI) (auto simp: fun_eq_iff)
  moreover from conf own have "s = schema_of i" if "(s, q, v) \<in> set (Advances ev n (role_of i) sql d)" for s q v
    using that by blast
  ultimately show ?thesis by blast
qed

lemma batch_in_schema:
  assumes "batch_run ev m fe s (role_of i) sqls d results d'"
    and "confined fe (Reserved m) ev" and "registry_ok c d" and "row_of d i = Some r" and "s = schema_of i"
  shows "\<exists>x. d' = d\<lparr>schemas := (schemas d)(schema_of i \<mapsto> x)\<rparr>"
  using assms
proof (induction rule: batch_run.induct)
  case (empty d)
  from registry_okD(2) [OF empty(2,3)] obtain x where "schemas d (schema_of i) = Some x"
    by (auto simp: row_ok_def)
  then have "d = d\<lparr>schemas := (schemas d)(schema_of i \<mapsto> x)\<rparr>" by (simp add: fun_upd_idem)
  then show ?case by blast
next
  case (step sql n d k r' d1 res sqls results d2)
  from check_accepted [OF step(1)] step(14) have "accepted fe (Reserved m) (schema_of i) sql" by simp
  from run_in_schema [OF step(11,12,13) this step(2)]
  obtain x where x: "d1 = d\<lparr>schemas := (schemas d)(schema_of i \<mapsto> x)\<rparr>" by blast
  have "registry_ok c d1" and "row_of d1 i = Some r"
    using registry_ok_ran [OF step(12,13), of x] step(13) by (simp_all add: x row_of_def)
  with step(10,11,14) obtain y where "d2 = d1\<lparr>schemas := (schemas d1)(schema_of i \<mapsto> y)\<rparr>" by blast
  then have "d2 = d\<lparr>schemas := (schemas d)(schema_of i \<mapsto> y)\<rparr>" by (simp add: x)
  then show ?case by blast
qed

section \<open>execute\<close>

text \<open>
  \<open>execute\<close> leaves the database as it found it, with an error; or has run the whole batch, under the
  gateway's conditions, and when initializing has made the islet active.
\<close>

definition entered :: "db \<Rightarrow> metadata \<Rightarrow> bool \<Rightarrow> islet_row \<Rightarrow> bool" where
  "entered d md initializing r \<longleftrightarrow>
     row_of d (ID md) = Some r \<and> role_name r = md_role md \<and> row_generation r = Generation md \<and>
     (if initializing then row_state r = ''initializing'' \<and> init_token r = Some (md_token md)
      else row_state r = ''active'')"

definition execute_post ::
  "env \<Rightarrow> manager \<Rightarrow> frontend \<Rightarrow> metadata \<Rightarrow> string list \<Rightarrow> bool \<Rightarrow> db \<Rightarrow> (result list \<times> err) \<times> world \<Rightarrow> bool" where
  "execute_post ev m fe md sqls initializing d x \<longleftrightarrow>
     (case x of ((results, e), w') \<Rightarrow>
        (store w' = d \<and> e \<noteq> None) \<or>
        (\<exists>r d2 u. entered d md initializing r \<and>
           batch_run ev m fe (md_schema md) (md_role md) sqls d results d2 \<and>
           store w' = (if initializing then update_row (ID md) (mark ''active'' None u) d2 else d2) \<and>
           (e = None \<or> is_err e ErrOutcomeUnknown \<and> (\<exists>n. CommitFault ev n \<noteq> None))))"

lemma classify_not_None [simp]: "\<exists>y. classify (Some x) = Some y"
  by (rule classify_Some)

lemma enter_tx_rule:
  assumes "\<And>e t' w'. store w' = store w \<Longrightarrow> Q (A e t' w')"
    and "\<And>t' w' r. store w' = store w \<Longrightarrow> Status t' = Healthy \<Longrightarrow> View t' = View t \<Longrightarrow>
      row_of (View t) (ID md) = Some r \<Longrightarrow> role_name r = u \<Longrightarrow> row_generation r = Generation md \<Longrightarrow>
      (row_state r = ''active'' \<and> token = None \<or>
       row_state r = ''initializing'' \<and> token \<noteq> None \<and> init_token r = token) \<Longrightarrow> Q (B t' w')"
  shows "Q (case enter_tx ev u md token t w of (Some e, t, w) \<Rightarrow> A e t w | (None, t, w) \<Rightarrow> B t w)"
proof -
  obtain r t' w' where c: "enter_tx ev u md token t w = (r, t', w')" by (cases "enter_tx ev u md token t w") auto
  note law = exec_error_call [OF c [unfolded enter_tx_def]]
  show ?thesis
  proof (cases r)
    case (Some e)
    with law assms(1) show ?thesis by (simp add: c)
  next
    case None
    with law have "call_enter (Busy ev (tick w)) u (ID md) (Generation md) token (View t) = Inr (View t')"
      by (auto split: sum.splits)
    from call_enter_law [OF this] None law assms(2) show ?thesis by (auto simp: c)
  qed
qed

lemma execute_tx_post:
  assumes t: "View t = d" "store w = d" and conn: "User conn = md_role md"
  shows "execute_post ev m fe md sqls initializing d (execute_tx ev m fe md sqls initializing conn t w)"
  unfolding execute_tx_def Let_def conn
proof (rule enter_tx_rule, goal_cases)
  case (1 e t1 w1)
  then show ?case by (simp add: execute_post_def t)
next
  case (2 t1 w1 r)
  note at1 = 2 [unfolded t]
  then have ent: "entered d md initializing r" by (auto simp: entered_def)
  obtain row w2 where 2: "pool_query ev (\<lambda>n d. dependency_query (Catalog ev n d) (md_schema md)) w1 = (row, w2)"
    by (cases "pool_query ev (\<lambda>n d. dependency_query (Catalog ev n d) (md_schema md)) w1") auto
  have w2: "store w2 = d" using pool_query_law [OF 2] at1 by simp
  show ?case
  proof (cases "dependency_error row")
    case (Some e)
    with w2 show ?thesis by (simp add: 2 execute_post_def)
  next
    case dep: None
    obtain results e3 t3 w3 where 3: "exec_loop ev m fe md (md_role md) 0 sqls (MaxRows (Settings m))
        (MaxResultBytes (Settings m)) t1 w2 = ((results, e3), t3, w3)"
      by (cases "exec_loop ev m fe md (md_role md) 0 sqls (MaxRows (Settings m)) (MaxResultBytes (Settings m)) t1 w2") auto
    note law = exec_loop_run [OF 3]
    show ?thesis
    proof (cases e3)
      case (Some e)
      with dep law w2 show ?thesis by (simp add: 2 3 execute_post_def)
    next
      case None
      with law at1 w2 have run: "batch_run ev m fe (md_schema md) (md_role md) sqls d results (View t3)"
        and w3: "store w3 = d" by auto
      have plain: "execute_post ev m fe md sqls initializing d (case commit ev t4 w4 of (e, w) \<Rightarrow> ((results, e), w))"
        if "store w4 = d" and "View t4 = (if initializing then update_row (ID md) (mark ''active'' None u) (View t3) else View t3)"
        for t4 w4 u
        by (rule commit_known_rule) (use that run ent in \<open>auto simp: execute_post_def\<close>)
      show ?thesis
      proof (cases initializing)
        case False
        with dep None plain [OF w3, of t3] show ?thesis by (simp add: 2 3)
      next
        case True
        have "execute_post ev m fe md sqls initializing d
          (case tx_change ev (\<lambda>now d. call_finish (md_role md) now (ID md) (Generation md) (md_token md) d) t3 w3 of
               (Some e, t, w) \<Rightarrow> ((results, classify (Some e)), w)
             | (None, t, w) \<Rightarrow> (case commit ev t w of (e, w) \<Rightarrow> ((results, e), w)))"
        proof (rule tx_change_rule, goal_cases)
          case (1 e t4 w4)
          with w3 show ?case by (simp add: execute_post_def)
        next
          case (2 t4 w4 now)
          from call_finish_law [OF 2(4)] have "View t4 = update_row (ID md) (mark ''active'' None now) (View t3)"
            by (simp add: mark_def [abs_def])
          with 2 w3 True show ?case by (intro plain) simp_all
        qed
        with dep None True show ?thesis by (simp add: 2 3)
      qed
    qed
  qed
qed

lemma tx_change_advanced: "tx_change ev f t w = (e, t', w') \<Longrightarrow> advanced w' = advanced w"
  unfolding tx_change_def by (rule exec_error_advanced)

text \<open>The sequences that \<open>execute\<close> leaves moved: none unless the gateway let the batch in.\<close>

definition execute_moved ::
  "env \<Rightarrow> manager \<Rightarrow> frontend \<Rightarrow> metadata \<Rightarrow> string list \<Rightarrow> bool \<Rightarrow> db \<Rightarrow> advance list \<Rightarrow> world \<Rightarrow> bool" where
  "execute_moved ev m fe md sqls initializing d a w' \<longleftrightarrow>
     moves (advances_of ev m fe (md_schema md) (md_role md) sqls d) a w' \<and>
     (advanced w' \<noteq> a \<longrightarrow> (\<exists>r. entered d md initializing r))"

lemma execute_moved_simps [simp]:
  "advanced w' = a \<Longrightarrow> execute_moved ev m fe md sqls initializing d a w'"
  "execute_moved ev m fe md sqls initializing d a (rollback w') \<longleftrightarrow> execute_moved ev m fe md sqls initializing d a w'"
  "execute_moved ev m fe md sqls initializing d a (close_runtime w') \<longleftrightarrow> execute_moved ev m fe md sqls initializing d a w'"
  by (simp_all add: execute_moved_def close_runtime_def)

lemma execute_tx_moves:
  assumes "execute_tx ev m fe md sqls initializing conn t w = (x, w')" and conn: "User conn = md_role md"
  shows "execute_moved ev m fe md sqls initializing (View t) (advanced w) w'"
proof -
  let ?token = "if initializing then Some (md_token md) else None"
  obtain r1 t1 w1 where 1: "enter_tx ev (User conn) md ?token t w = (r1, t1, w1)"
    by (cases "enter_tx ev (User conn) md ?token t w") auto
  then have a1: "advanced w1 = advanced w" unfolding enter_tx_def by (rule exec_error_advanced)
  have t1: "View t1 = View t"
    using exec_error_call [OF 1 [unfolded enter_tx_def]] call_enter_law
    by (cases r1) (auto split: sum.splits)
  have ent: "\<exists>r. entered (View t) md initializing r" if "r1 = None"
  proof -
    have "call_enter (Busy ev (tick w)) (User conn) (ID md) (Generation md) ?token (View t) = Inr (View t1)"
      using exec_error_call [OF 1 [unfolded enter_tx_def]] that by (auto split: sum.splits)
    from call_enter_law [OF this] conn show ?thesis by (auto simp: entered_def)
  qed
  obtain row w2 where 2: "pool_query ev (\<lambda>n d. dependency_query (Catalog ev n d) (md_schema md)) w1 = (row, w2)"
    by (cases "pool_query ev (\<lambda>n d. dependency_query (Catalog ev n d) (md_schema md)) w1") auto
  from pool_query_advanced [OF 2] a1 have a2: "advanced w2 = advanced w" by simp
  obtain y t3 w3 where 3: "exec_loop ev m fe md (User conn) 0 sqls (MaxRows (Settings m)) (MaxResultBytes (Settings m)) t1 w2 = (y, t3, w3)"
    by (cases "exec_loop ev m fe md (User conn) 0 sqls (MaxRows (Settings m)) (MaxResultBytes (Settings m)) t1 w2") auto
  obtain e4 t4 w4 where 4: "tx_change ev (\<lambda>now d. call_finish (User conn) now (ID md) (Generation md) (md_token md) d) t3 w3 = (e4, t4, w4)"
    by (cases "tx_change ev (\<lambda>now d. call_finish (User conn) now (ID md) (Generation md) (md_token md) d) t3 w3") auto
  obtain e5 w5 where 5: "commit ev t3 w3 = (e5, w5)" by (cases "commit ev t3 w3") auto
  obtain e6 w6 where 6: "commit ev t4 w4 = (e6, w6)" by (cases "commit ev t4 w4") auto
  note later = tx_change_advanced [OF 4] commit_advanced [OF 5] commit_advanced [OF 6]
  have "w' = w1 \<or> r1 = None \<and> w' \<in> {w2, w3, w4, w5, w6}"
    using assms(1) by (cases y) (auto simp: execute_tx_def 1 2 3 4 5 6 split: if_splits option.splits)
  with exec_loop_moves [OF 3] t1 a1 a2 later ent conn show ?thesis by (auto simp: execute_moved_def moves_def)
qed

lemma store_close_runtime [simp]: "store (close_runtime w) = store w"
  by (simp add: close_runtime_def)

lemma execute_moves:
  obtains d where "d = store w \<or> began ev (store w) d"
    and "execute_post ev m fe md sqls initializing d (execute ev m fe md sqls initializing w)"
    and "execute_moved ev m fe md sqls initializing d (advanced w) (snd (execute ev m fe md sqls initializing w))"
proof -
  let ?moves = "\<lambda>d. execute_moved ev m fe md sqls initializing d (advanced w)"
  have "\<exists>d. (d = store w \<or> began ev (store w) d) \<and>
      execute_post ev m fe md sqls initializing d (execute ev m fe md sqls initializing w) \<and>
      ?moves d (snd (execute ev m fe md sqls initializing w))"
  proof (cases "check_size (Settings m) sqls")
    case (Some e)
    then show ?thesis by (intro exI [of _ "store w"]) (simp add: execute_def execute_post_def)
  next
    case size: None
    obtain x w1 where 1: "connect_runtime ev m md w = (x, w1)" by (cases "connect_runtime ev m md w") auto
    then have w1: "store w1 = store w" "advanced w1 = advanced w" and conn: "\<And>conn. x = Inr conn \<Longrightarrow> User conn = md_role md"
      by (auto simp: connect_runtime_def runtime_config_def Let_def split: option.splits)
    show ?thesis
    proof (cases x)
      case (Inl e)
      with size w1 show ?thesis by (intro exI [of _ "store w"]) (simp add: execute_def 1 execute_post_def)
    next
      case (Inr cn)
      obtain r w2 where 2: "with_tx ev (\<lambda>e. ([], classify (Some e))) (execute_tx ev m fe md sqls initializing cn) w1 = (r, w2)"
        by (cases "with_tx ev (\<lambda>e. ([], classify (Some e))) (execute_tx ev m fe md sqls initializing cn) w1") auto
      have "\<exists>d. began ev (store w) d \<and> (case with_tx ev (\<lambda>e. ([], classify (Some e))) (execute_tx ev m fe md sqls initializing cn) w1 of
          (x, w') \<Rightarrow> execute_post ev m fe md sqls initializing d (x, w') \<and> ?moves d w')"
      proof (rule with_tx_rule, goal_cases)
        case (1 e w')
        then show ?case using w1 by (intro exI [of _ "store w'"]) (simp add: execute_post_def)
      next
        case (2 t w2 a w')
        have "execute_post ev m fe md sqls initializing (store w2) (a, w')"
          unfolding 2(5) [symmetric] by (rule execute_tx_post) (use 2 conn Inr in simp_all)
        then have "execute_post ev m fe md sqls initializing (store w2) (a, rollback w')"
          by (simp add: execute_post_def case_prod_beta)
        moreover have "?moves (store w2) (rollback w')"
          using execute_tx_moves [OF 2(5)] 2 w1 conn Inr by simp
        ultimately show ?case using 2 w1 by (intro exI [of _ "store w2"]) simp
      qed
      then obtain d where "began ev (store w) d" and "execute_post ev m fe md sqls initializing d (r, w2)" and "?moves d w2"
        unfolding 2 by auto
      then have "began ev (store w) d \<and> execute_post ev m fe md sqls initializing d (r, close_runtime w2) \<and>
          ?moves d (close_runtime w2)"
        by (simp add: execute_post_def case_prod_beta)
      then show ?thesis using size by (intro exI [of _ d]) (simp add: execute_def 1 2 Inr)
    qed
  qed
  then show ?thesis using that by blast
qed

lemma execute_outcome:
  obtains d where "d = store w \<or> began ev (store w) d"
    and "execute_post ev m fe md sqls initializing d (execute ev m fe md sqls initializing w)"
  using execute_moves that .

end
