(* ===== verification/PolicySafety.thy ===== *)
theory PolicySafety
  imports Policy "HOL-Library.Multiset"
begin

text \<open>
  What the SQL policy guarantees. The entries of a parse tree are its key/value pairs at every
  depth; the walk accepts a tree when every entry passes its own test, against a set of local
  functions that only grows, and every text body it meets parses to a tree that is accepted one
  level deeper. The last section is about the order in which Go visits the keys of an object.
\<close>

declare parse.simps [simp del]

section \<open>Local functions only grow\<close>

definition grows :: "locals \<Rightarrow> locals \<Rightarrow> bool" where
  "grows L L' \<longleftrightarrow> (\<forall>n. L' n = L n \<or> (L n = None \<and> L' n = Some True))"

lemma grows_refl [simp, intro]: "grows L L"
  by (simp add: grows_def)

lemma grows_trans [trans]: "grows L L' \<Longrightarrow> grows L' L'' \<Longrightarrow> grows L L''"
  unfolding grows_def by (metis option.distinct(1))

lemma grows_True: "grows L L' \<Longrightarrow> L n = Some True \<Longrightarrow> L' n = Some True"
  unfolding grows_def by (metis option.distinct(1))

lemma grows_False: "grows L L' \<Longrightarrow> L' n = Some False \<longleftrightarrow> L n = Some False"
  unfolding grows_def by (metis option.distinct(1) option.inject)

lemma grows_upd: "L n \<noteq> Some False \<Longrightarrow> grows L (L(n \<mapsto> True))"
  by (cases "L n") (auto simp: grows_def)

section \<open>Entries of a tree\<close>

fun entries :: "json \<Rightarrow> obj" and entries_list :: "json list \<Rightarrow> obj" and entries_obj :: "obj \<Rightarrow> obj" where
  "entries (JArr xs) = entries_list xs"
| "entries (JObj kvs) = entries_obj kvs"
| "entries _ = []"
| "entries_list [] = []"
| "entries_list (v # vs) = entries v @ entries_list vs"
| "entries_obj [] = []"
| "entries_obj ((k, v) # rest) = (k, v) # entries v @ entries_obj rest"

text \<open>What the walk asks of one entry, and of the definition of a function.\<close>

definition entry_ok :: "string \<Rightarrow> locals \<Rightarrow> string \<Rightarrow> json \<Rightarrow> bool" where
  "entry_ok schema L k v \<longleftrightarrow>
     (stmt_key k \<longrightarrow> statements k) \<and> switch_check schema L k (as_obj v) = None \<and>
     tail_check schema L k v = None"

definition function_ok :: "string \<Rightarrow> locals \<Rightarrow> obj \<Rightarrow> bool" where
  "function_ok schema L node \<longleftrightarrow>
     (let parts = names (index node ''funcname'')
      in \<not> (length parts = 0 \<or> length parts > 2 \<or> (length parts = 2 \<and> parts ! 0 \<noteq> schema)) \<and>
         L (last_name parts) = Some True) \<and>
     (case scan_options (as_arr (index node ''options'')) [] [] of
        Inl _ \<Rightarrow> False
      | Inr (lang, body) \<Rightarrow> lang = ''sql'' \<and> (body = [] \<longrightarrow> index node ''sql_body'' \<noteq> JNull))"

definition text_body :: "obj \<Rightarrow> string option" where
  "text_body node =
     (case scan_options (as_arr (index node ''options'')) [] [] of
        Inr (lang, body) \<Rightarrow> if body = [] then None else Some body
      | Inl _ \<Rightarrow> None)"

inductive vetted :: "frontend \<Rightarrow> string \<Rightarrow> locals \<Rightarrow> nat \<Rightarrow> obj \<Rightarrow> bool"
  and body_vetted :: "frontend \<Rightarrow> string \<Rightarrow> locals \<Rightarrow> nat \<Rightarrow> string \<Rightarrow> bool"
  for fe schema L
where
  entries: "(\<And>k v. (k, v) \<in> set es \<Longrightarrow> entry_ok schema L k v) \<Longrightarrow>
     (\<And>v. (''CreateFunctionStmt'', v) \<in> set es \<Longrightarrow> function_ok schema L (as_obj v)) \<Longrightarrow>
     (\<And>v body. (''CreateFunctionStmt'', v) \<in> set es \<Longrightarrow> text_body (as_obj v) = Some body \<Longrightarrow>
        body_vetted fe schema L d body) \<Longrightarrow>
     vetted fe schema L d es"
| body: "d < 16 \<Longrightarrow> parse_tree fe sql = Inr tree \<Longrightarrow> stmts tree \<noteq> [] \<Longrightarrow>
     vetted fe schema L (Suc d) (entries_obj tree) \<Longrightarrow> body_vetted fe schema L d sql"

inductive_simps vetted_iff: "vetted fe schema L d es"
inductive_simps body_vetted_iff: "body_vetted fe schema L d sql"

lemma vetted_Nil [simp]: "vetted fe schema L d []"
  by (simp add: vetted_iff)

lemma vetted_append [simp]:
  "vetted fe schema L d (es @ es') \<longleftrightarrow> vetted fe schema L d es \<and> vetted fe schema L d es'"
  unfolding vetted_iff [of fe schema L d] by auto

lemma vetted_Cons:
  "vetted fe schema L d ((k, v) # es) \<longleftrightarrow>
     entry_ok schema L k v \<and>
     (k = ''CreateFunctionStmt'' \<longrightarrow> function_ok schema L (as_obj v) \<and>
        (\<forall>body. text_body (as_obj v) = Some body \<longrightarrow> body_vetted fe schema L d body)) \<and>
     vetted fe schema L d es"
  unfolding vetted_iff [of fe schema L d] by auto

section \<open>Tests stay passed when local functions are added\<close>

lemma check_function_mono:
  "grows L L' \<Longrightarrow> check_function schema L parts = None \<Longrightarrow> check_function schema L' parts = None"
  by (auto simp: check_function_def Let_def grows_True split: if_splits)

definition call_key :: "string \<Rightarrow> bool" where
  "call_key k \<longleftrightarrow> k = ''FuncCall'' \<or> k = ''CreateTrigStmt''"

lemma switch_check_call:
  "call_key k \<Longrightarrow> switch_check schema L k node = check_function schema L (names (index node ''funcname''))"
  unfolding call_key_def by (elim disjE) (simp_all add: switch_check_def)

lemma switch_check_other: "\<not> call_key k \<Longrightarrow> switch_check schema L k node = switch_check schema L' k node"
  by (simp add: switch_check_def call_key_def cong: if_cong split del: if_split)

lemma switch_check_mono:
  "grows L L' \<Longrightarrow> switch_check schema L k node = None \<Longrightarrow> switch_check schema L' k node = None"
  using switch_check_other [of k schema L' node L]
  by (cases "call_key k") (auto simp: switch_check_call check_function_mono)

lemma tail_check_mono:
  "grows L L' \<Longrightarrow> tail_check schema L k v = None \<Longrightarrow> tail_check schema L' k v = None"
  by (auto simp: tail_check_def check_function_mono split: if_splits option.splits)

lemma entry_ok_mono: "grows L L' \<Longrightarrow> entry_ok schema L k v \<Longrightarrow> entry_ok schema L' k v"
  by (simp add: entry_ok_def switch_check_mono tail_check_mono)

lemma function_ok_mono: "grows L L' \<Longrightarrow> function_ok schema L node \<Longrightarrow> function_ok schema L' node"
  by (auto simp: function_ok_def Let_def grows_True)

lemma vetted_mono:
  "vetted fe schema L d es \<Longrightarrow> grows L L' \<Longrightarrow> vetted fe schema L' d es"
  "body_vetted fe schema L d sql \<Longrightarrow> grows L L' \<Longrightarrow> body_vetted fe schema L' d sql"
proof (induction rule: vetted_body_vetted.inducts)
  case (entries es d)
  then show ?case
    by (intro vetted_body_vetted.entries) (blast intro: entry_ok_mono function_ok_mono)+
next
  case (body d sql tree)
  then show ?case by (blast intro: vetted_body_vetted.body)
qed

lemma define_function_cases:
  assumes "define_function schema L node = Inr (L', body)"
  shows "grows L L'" and "function_ok schema L' node"
    and "text_body node = (if body = [] then None else Some body)"
proof -
  obtain lang where scan: "scan_options (as_arr (index node ''options'')) [] [] = Inr (lang, body)"
    using assms by (auto simp: define_function_def Let_def split: if_splits sum.splits)
  show "grows L L'"
    using assms by (auto simp: define_function_def Let_def split: if_splits sum.splits intro: grows_upd)
  show "function_ok schema L' node"
    using assms scan
    by (auto simp: define_function_def function_ok_def Let_def split: if_splits sum.splits)
  show "text_body node = (if body = [] then None else Some body)"
    using scan by (simp add: text_body_def)
qed

lemma define_step:
  assumes def: "define_function schema L node = Inr (L0, body)"
    and body: "body \<noteq> [] \<Longrightarrow> grows L0 L1 \<and> body_vetted fe schema L1 d body"
    and no_body: "body = [] \<Longrightarrow> L1 = L0"
  shows "grows L L1 \<and> function_ok schema L1 node \<and>
     (\<forall>b. text_body node = Some b \<longrightarrow> body_vetted fe schema L1 d b)"
  using define_function_cases [OF def] body no_body
  by (cases "body = []") (auto intro: grows_trans function_ok_mono)

section \<open>An accepted tree is vetted\<close>

lemma walk_vetted:
  "parse fe schema d L sql single = Inr L' \<Longrightarrow>
     grows L L' \<and> d \<le> 16 \<and>
     (\<exists>tree. parse_tree fe sql = Inr tree \<and> stmts tree \<noteq> [] \<and> (single \<longrightarrow> length (stmts tree) = 1) \<and>
        vetted fe schema L' d (entries_obj tree))"
  "walk fe schema d L v = Inr L' \<Longrightarrow> grows L L' \<and> vetted fe schema L' d (entries v)"
  "walk_list fe schema d L vs = Inr L' \<Longrightarrow> grows L L' \<and> vetted fe schema L' d (entries_list vs)"
  "walk_fields fe schema d L kvs = Inr L' \<Longrightarrow> grows L L' \<and> vetted fe schema L' d (entries_obj kvs)"
proof (induction fe schema d L sql single and fe schema d L v and fe schema d L vs and fe schema d L kvs
    arbitrary: L' and L' and L' and L' rule: parse_walk_walk_list_walk_fields.induct)
  case (1 fe schema d L sql single)
  then show ?case by (auto simp: parse.simps [of fe] split: if_splits sum.splits)
next
  case (6 fe schema d L v vs)
  then obtain L1 where L1: "walk fe schema d L v = Inr L1" "walk_list fe schema d L1 vs = Inr L'"
    by (auto split: sum.splits)
  with 6 have "grows L L1" "vetted fe schema L1 d (entries v)" "grows L1 L'"
    "vetted fe schema L' d (entries_list vs)" by blast+
  then show ?case by (auto dest: vetted_mono(1) grows_trans)
next
  case (8 fe schema d L key v rest)
  let ?def = "if key = ''CreateFunctionStmt''
    then (case define_function schema L (as_obj v) of Inl e \<Rightarrow> Inl e
          | Inr (L1, body) \<Rightarrow> if body \<noteq> [] then parse fe schema (d + 1) L1 body False else Inr L1)
    else Inr L"
  from "8.prems" obtain L1 L2
    where stmt: "stmt_key key \<longrightarrow> statements key" and switch: "switch_check schema L key (as_obj v) = None"
      and def: "?def = Inr L1" and tail: "tail_check schema L1 key v = None"
      and walk: "walk fe schema d L1 v = Inr L2" and rest: "walk_fields fe schema d L2 rest = Inr L'"
    by (auto split: if_splits option.splits sum.splits)
  have step: "grows L L1 \<and> (key = ''CreateFunctionStmt'' \<longrightarrow> function_ok schema L1 (as_obj v) \<and>
      (\<forall>b. text_body (as_obj v) = Some b \<longrightarrow> body_vetted fe schema L1 d b))"
  proof (cases "key = ''CreateFunctionStmt''")
    case True
    with def obtain L0 body where d0: "define_function schema L (as_obj v) = Inr (L0, body)"
      and d1: "if body \<noteq> [] then parse fe schema (d + 1) L0 body False = Inr L1 else L1 = L0"
      by (auto split: sum.splits if_splits)
    have "grows L0 L1 \<and> body_vetted fe schema L1 d body" if "body \<noteq> []"
    proof -
      have "grows L0 L1 \<and> d + 1 \<le> 16 \<and> (\<exists>tree. parse_tree fe body = Inr tree \<and>
          stmts tree \<noteq> [] \<and> vetted fe schema L1 (Suc d) (entries_obj tree))"
        using "8.IH"(1) stmt switch True d0 d1 that by simp
      then show ?thesis by (auto intro: vetted_body_vetted.body)
    qed
    with d1 have "grows L L1 \<and> function_ok schema L1 (as_obj v) \<and>
        (\<forall>b. text_body (as_obj v) = Some b \<longrightarrow> body_vetted fe schema L1 d b)"
      by (intro define_step [OF d0]) simp_all
    then show ?thesis by blast
  next
    case False
    with def show ?thesis by simp
  qed
  have w: "grows L1 L2 \<and> vetted fe schema L2 d (entries v)"
    using "8.IH"(2) stmt switch def tail walk by simp
  have r: "grows L2 L' \<and> vetted fe schema L' d (entries_obj rest)"
    using "8.IH"(3) stmt switch def tail walk rest by simp
  have "grows L1 L'" and "grows L L'"
    using step w r by (blast intro: grows_trans)+
  moreover have "entry_ok schema L' key v"
    using stmt switch tail calculation by (simp add: entry_ok_def switch_check_mono tail_check_mono)
  ultimately show ?case
    using w r step by (auto simp: vetted_Cons intro: vetted_mono function_ok_mono)
qed auto

section \<open>Trees without function definitions\<close>

definition function_free :: "obj \<Rightarrow> bool" where
  "function_free es \<longleftrightarrow> list_all (\<lambda>(k, v). k \<noteq> ''CreateFunctionStmt'') es"

definition all_ok :: "string \<Rightarrow> locals \<Rightarrow> obj \<Rightarrow> bool" where
  "all_ok schema L es \<longleftrightarrow> list_all (\<lambda>(k, v). entry_ok schema L k v) es"

lemma function_free_simps [simp]:
  "function_free []"
  "function_free ((k, v) # es) \<longleftrightarrow> k \<noteq> ''CreateFunctionStmt'' \<and> function_free es"
  "function_free (es @ es') \<longleftrightarrow> function_free es \<and> function_free es'"
  by (simp_all add: function_free_def)

lemma all_ok_simps [simp]:
  "all_ok schema L []"
  "all_ok schema L ((k, v) # es) \<longleftrightarrow> entry_ok schema L k v \<and> all_ok schema L es"
  "all_ok schema L (es @ es') \<longleftrightarrow> all_ok schema L es \<and> all_ok schema L es'"
  by (simp_all add: all_ok_def)

lemma walk_function_free:
  "parse fe schema d L sql single = parse fe schema d L sql single"
  "function_free (entries v) \<Longrightarrow>
     walk fe schema d L v = Inr L' \<longleftrightarrow> L' = L \<and> all_ok schema L (entries v)"
  "function_free (entries_list vs) \<Longrightarrow>
     walk_list fe schema d L vs = Inr L' \<longleftrightarrow> L' = L \<and> all_ok schema L (entries_list vs)"
  "function_free (entries_obj kvs) \<Longrightarrow>
     walk_fields fe schema d L kvs = Inr L' \<longleftrightarrow> L' = L \<and> all_ok schema L (entries_obj kvs)"
proof (induction fe schema d L sql single and fe schema d L v and fe schema d L vs and fe schema d L kvs
    arbitrary: L' and L' and L' and L' rule: parse_walk_walk_list_walk_fields.induct)
  case (6 fe schema d L v vs)
  then show ?case by (auto split: sum.splits)
next
  case (8 fe schema d L key v rest)
  show ?case
  proof (cases "entry_ok schema L key v")
    case True
    then have pre: "stmt_key key \<longrightarrow> statements key" "switch_check schema L key (as_obj v) = None"
      "tail_check schema L key v = None"
      by (simp_all add: entry_ok_def)
    from pre 8 have w: "walk fe schema d L v = Inr M \<longleftrightarrow> M = L \<and> all_ok schema L (entries v)" for M
      by simp
    show ?thesis
    proof (cases "walk fe schema d L v")
      case (Inl e)
      with w [of L] pre "8.prems" True show ?thesis by simp
    next
      case (Inr M)
      with w [of M] have wL: "walk fe schema d L v = Inr L" "all_ok schema L (entries v)" by simp_all
      with pre 8 have "walk_fields fe schema d L rest = Inr L' \<longleftrightarrow>
          L' = L \<and> all_ok schema L (entries_obj rest)" by simp
      with pre wL True "8.prems" show ?thesis by auto
    qed
  next
    case False
    with 8 show ?thesis by (auto simp: entry_ok_def split: option.splits)
  qed
qed auto

section \<open>The order of the keys\<close>

text \<open>
  Go's \<open>range\<close> over a map visits the keys in any order: \<open>reorder v w\<close> relates two decodings of the
  same document that differ in that order only.
\<close>

inductive reorder :: "json \<Rightarrow> json \<Rightarrow> bool" where
  same: "reorder v v"
| arr: "list_all2 reorder xs ys \<Longrightarrow> reorder (JArr xs) (JArr ys)"
| obj: "distinct (map fst kvs) \<Longrightarrow>
     list_all2 (\<lambda>p q. fst p = fst q \<and> reorder (snd p) (snd q)) kvs zs \<Longrightarrow>
     mset zs = mset ws \<Longrightarrow> reorder (JObj kvs) (JObj ws)"

lemma reorder_leaf:
  assumes "reorder v w"
  shows "v = JStr s \<longleftrightarrow> w = JStr s" and "v = JBool b \<longleftrightarrow> w = JBool b" and "str v = str w"
    and "list_all2 reorder (as_arr v) (as_arr w)"
  using assms by (cases; simp add: str_def as_arr_def list.rel_refl reorder.same)+

lemma list_all2_keys:
  "list_all2 (\<lambda>p q. fst p = fst q \<and> R (snd p) (snd q)) kvs zs \<Longrightarrow> map fst kvs = map fst zs"
  by (induction rule: list_all2_induct) auto

lemma reorder_lookup:
  "list_all2 (\<lambda>p q. fst p = fst q \<and> reorder (snd p) (snd q)) kvs zs \<Longrightarrow>
     reorder (index kvs k) (index zs k)"
  by (induction rule: list_all2_induct) (auto simp: index_def intro: reorder.same)

lemma index_mset: "distinct (map fst zs) \<Longrightarrow> mset zs = mset ws \<Longrightarrow> index zs = index ws"
proof -
  assume d: "distinct (map fst zs)" and m: "mset zs = mset ws"
  then have "mset (map fst zs) = mset (map fst ws)" by simp
  with d have "distinct (map fst ws)" by (metis mset_eq_imp_distinct_iff)
  with d m have "map_of zs = map_of ws" by (intro map_of_perm) (auto dest: mset_eq_setD)
  then show ?thesis by (simp add: index_def fun_eq_iff)
qed

lemma reorder_index: "reorder v w \<Longrightarrow> reorder (index (as_obj v) k) (index (as_obj w) k)"
proof (induction rule: reorder.cases)
  case (obj kvs zs ws)
  then have "distinct (map fst zs)" by (simp add: list_all2_keys)
  with obj have "index zs = index ws" by (simp add: index_mset)
  with obj show ?case using reorder_lookup [of kvs zs k] by (simp add: as_obj_def)
qed (auto simp: as_obj_def index_def intro: reorder.same)

lemma reorder_string_node: "reorder v w \<Longrightarrow> string_node v = string_node w"
  unfolding string_node_def by (intro reorder_leaf(3) reorder_index)

lemma reorder_names: "reorder v w \<Longrightarrow> names v = names w"
  unfolding names_def
  by (drule reorder_leaf(4)) (induction rule: list_all2_induct; simp add: reorder_string_node)

lemma reorder_entry_ok:
  assumes "reorder v w"
  shows "entry_ok schema L k v = entry_ok schema L k w"
proof -
  have "switch_check schema L k (as_obj v) = switch_check schema L k (as_obj w)"
    using assms
    by (simp add: switch_check_def temp_or_unlogged_def reorder_leaf [OF reorder_index]
        reorder_names [OF reorder_index] cong: if_cong split del: if_split)
  moreover
  from assms have "names v = names w" "temp_or_unlogged v = temp_or_unlogged w" "str v = str w"
    by (simp_all add: reorder_names temp_or_unlogged_def reorder_leaf)
  then have "tail_check schema L k v = tail_check schema L k w"
    unfolding tail_check_def by (simp only:)
  ultimately show ?thesis by (simp add: entry_ok_def)
qed

lemma set_entries_obj: "set (entries_obj kvs) = (\<Union>p \<in> set kvs. insert p (set (entries (snd p))))"
  by (induction kvs) auto

lemma set_entries_list: "set (entries_list vs) = (\<Union>v \<in> set vs. set (entries v))"
  by (induction vs) auto

text \<open>Related documents have related entries, in both directions.\<close>

definition related :: "obj \<Rightarrow> obj \<Rightarrow> bool" where
  "related es fs \<longleftrightarrow>
     (\<forall>k x. (k, x) \<in> set es \<longrightarrow> (\<exists>y. (k, y) \<in> set fs \<and> reorder x y)) \<and>
     (\<forall>k y. (k, y) \<in> set fs \<longrightarrow> (\<exists>x. (k, x) \<in> set es \<and> reorder x y))"

lemma related_refl [simp]: "related es es"
  unfolding related_def by (blast intro: reorder.same)

lemma related_append: "related es fs \<Longrightarrow> related es' fs' \<Longrightarrow> related (es @ es') (fs @ fs')"
  unfolding related_def set_append Un_iff by meson

lemma related_Cons: "reorder x y \<Longrightarrow> related es fs \<Longrightarrow> related ((k, x) # es) ((k, y) # fs)"
  using related_append [of "[(k, x)]" "[(k, y)]" es fs] by (simp add: related_def [of "[(k, x)]"])

lemma related_set: "set fs = set fs' \<Longrightarrow> related es fs = related es fs'"
  by (simp add: related_def)

lemma reorder_entries: "reorder v w \<Longrightarrow> related (entries v) (entries w)"
proof (induction rule: reorder.induct)
  case (arr xs ys)
  then show ?case
    by (induction rule: list_all2_induct) (auto intro: related_append)
next
  case (obj kvs zs ws)
  from obj.IH have "related (entries_obj kvs) (entries_obj zs)"
    by (induction rule: list_all2_induct) (auto intro!: related_append related_Cons)
  moreover have "set (entries_obj zs) = set (entries_obj ws)"
    unfolding set_entries_obj mset_eq_setD [OF obj.hyps(2)] ..
  ultimately show ?case
    using related_set [of "entries_obj zs" "entries_obj ws" "entries_obj kvs"] by simp
qed simp

lemma reorder_all_ok:
  assumes "reorder v w"
  shows "all_ok schema L (entries v) \<longleftrightarrow> all_ok schema L (entries w)"
    and "function_free (entries v) \<longleftrightarrow> function_free (entries w)"
  using reorder_entries [OF assms] reorder_entry_ok [of _ _ schema L]
  unfolding all_ok_def function_free_def list_all_iff related_def by (fast, fast)

section \<open>Statements and the bodies inside them\<close>

text \<open>
  \<open>nested fe tree n t\<close>: \<open>t\<close> is \<open>tree\<close> itself, or the parse of a text body at depth \<open>n\<close> below it.
\<close>

inductive nested :: "frontend \<Rightarrow> obj \<Rightarrow> nat \<Rightarrow> obj \<Rightarrow> bool" for fe tree where
  top: "nested fe tree 0 tree"
| body: "nested fe tree n t \<Longrightarrow> (''CreateFunctionStmt'', v) \<in> set (entries_obj t) \<Longrightarrow>
     text_body (as_obj v) = Some b \<Longrightarrow> parse_tree fe b = Inr t' \<Longrightarrow> nested fe tree (Suc n) t'"

lemma nested_vetted:
  "nested fe tree n t \<Longrightarrow> vetted fe schema L 0 (entries_obj tree) \<Longrightarrow>
     n \<le> 16 \<and> vetted fe schema L n (entries_obj t)"
proof (induction rule: nested.induct)
  case top
  then show ?case by simp
next
  case (body n t v b t')
  then have "body_vetted fe schema L n b" by (auto simp: vetted_iff [of fe schema L n])
  with body.hyps(4) show ?case by (auto simp: body_vetted_iff)
qed

text \<open>
  A name defined in a list of entries, or in a text body of a definition among them; over a whole
  statement, a name that one of its nested trees makes.
\<close>

inductive makes :: "frontend \<Rightarrow> obj \<Rightarrow> string \<Rightarrow> bool" for fe where
  here: "(''CreateFunctionStmt'', v) \<in> set es \<Longrightarrow> makes fe es (last_name (names (index (as_obj v) ''funcname'')))"
| body: "(''CreateFunctionStmt'', v) \<in> set es \<Longrightarrow> text_body (as_obj v) = Some b \<Longrightarrow> parse_tree fe b = Inr t \<Longrightarrow>
     makes fe (entries_obj t) x \<Longrightarrow> makes fe es x"

definition defined_in :: "frontend \<Rightarrow> obj \<Rightarrow> string \<Rightarrow> bool" where
  "defined_in fe tree x \<longleftrightarrow>
     (\<exists>n t v. nested fe tree n t \<and> (''CreateFunctionStmt'', v) \<in> set (entries_obj t) \<and>
        x = last_name (names (index (as_obj v) ''funcname'')))"

lemma makes_subset: "makes fe es x \<Longrightarrow> set es \<subseteq> set fs \<Longrightarrow> makes fe fs x"
  by (induction rule: makes.induct) (blast intro: makes.intros)+

lemma makes_in: "makes fe es x \<Longrightarrow> nested fe tree n t \<Longrightarrow> es = entries_obj t \<Longrightarrow> defined_in fe tree x"
proof (induction arbitrary: n t rule: makes.induct)
  case (here v es)
  then show ?case unfolding defined_in_def by blast
next
  case (body v es b t' x)
  then show ?case using nested.body by blast
qed

lemma nothing_defined:
  assumes "function_free (entries_obj tree)"
  shows "\<not> defined_in fe tree x"
proof -
  have "t = tree" if "nested fe tree n t" for n t
    using that by (induction rule: nested.induct) (use assms in \<open>auto simp: function_free_def list_all_iff\<close>)
  with assms show ?thesis by (auto simp: defined_in_def function_free_def list_all_iff)
qed

text \<open>A walk makes no name local but those it makes.\<close>

lemma define_function_origin:
  "define_function schema L node = Inr (L', body) \<Longrightarrow> L' x = Some True \<Longrightarrow>
     L x = Some True \<or> x = last_name (names (index node ''funcname''))"
  by (auto simp: define_function_def Let_def split: if_splits sum.splits)

lemma walk_origin:
  "parse fe schema d L sql single = Inr L' \<Longrightarrow> L' x = Some True \<Longrightarrow>
     L x = Some True \<or> (\<exists>tree. parse_tree fe sql = Inr tree \<and> makes fe (entries_obj tree) x)"
  "walk fe schema d L v = Inr L' \<Longrightarrow> L' x = Some True \<Longrightarrow> L x = Some True \<or> makes fe (entries v) x"
  "walk_list fe schema d L vs = Inr L' \<Longrightarrow> L' x = Some True \<Longrightarrow> L x = Some True \<or> makes fe (entries_list vs) x"
  "walk_fields fe schema d L kvs = Inr L' \<Longrightarrow> L' x = Some True \<Longrightarrow> L x = Some True \<or> makes fe (entries_obj kvs) x"
proof (induction fe schema d L sql single and fe schema d L v and fe schema d L vs and fe schema d L kvs
    arbitrary: L' and L' and L' and L' rule: parse_walk_walk_list_walk_fields.induct)
  case (1 fe schema d L sql single)
  then show ?case by (auto simp: parse.simps [of fe] split: if_splits sum.splits)
next
  case (6 fe schema d L v vs)
  then obtain L1 where L1: "walk fe schema d L v = Inr L1" "walk_list fe schema d L1 vs = Inr L'"
    by (auto split: sum.splits)
  with 6 have "L x = Some True \<or> makes fe (entries v) x \<or> makes fe (entries_list vs) x" by blast
  then show ?case by (auto intro: makes_subset)
next
  case (8 fe schema d L key v rest)
  let ?def = "if key = ''CreateFunctionStmt''
    then (case define_function schema L (as_obj v) of Inl e \<Rightarrow> Inl e
          | Inr (L1, body) \<Rightarrow> if body \<noteq> [] then parse fe schema (d + 1) L1 body False else Inr L1)
    else Inr L"
  from "8.prems"(1) obtain L1 L2
    where stmt: "stmt_key key \<longrightarrow> statements key" and switch: "switch_check schema L key (as_obj v) = None"
      and def: "?def = Inr L1" and tail: "tail_check schema L1 key v = None"
      and walk: "walk fe schema d L1 v = Inr L2" and rest: "walk_fields fe schema d L2 rest = Inr L'"
    by (auto split: if_splits option.splits sum.splits)
  have step: "L x = Some True \<or> makes fe ((key, v) # es) x" if L1x: "L1 x = Some True" for es
  proof (cases "key = ''CreateFunctionStmt''")
    case True
    with def obtain L0 body where d0: "define_function schema L (as_obj v) = Inr (L0, body)"
      and d1: "if body \<noteq> [] then parse fe schema (d + 1) L0 body False = Inr L1 else L1 = L0"
      by (auto split: sum.splits if_splits)
    have "L0 x = Some True \<or> (\<exists>tree. body \<noteq> [] \<and> parse_tree fe body = Inr tree \<and> makes fe (entries_obj tree) x)"
      using "8.IH"(1) stmt switch True d0 d1 L1x by (cases "body = []") auto
    then show ?thesis
      using define_function_origin [OF d0] define_function_cases(3) [OF d0] True makes.here [of v "(key, v) # es" fe]
      by (cases "body = []") (auto intro: makes.body [of v "(''CreateFunctionStmt'', v) # es" body])
  next
    case False
    with def that show ?thesis by simp
  qed
  have w: "L2 x = Some True \<Longrightarrow> L1 x = Some True \<or> makes fe (entries v) x"
    using "8.IH"(2) stmt switch def tail walk by simp
  have "L2 x = Some True \<or> makes fe (entries_obj rest) x"
    using "8.IH"(3) stmt switch def tail walk rest "8.prems"(2) by simp
  with w step [of "entries v @ entries_obj rest"]
  have "L x = Some True \<or> makes fe ((key, v) # entries v @ entries_obj rest) x \<or>
      makes fe (entries v) x \<or> makes fe (entries_obj rest) x" by blast
  then show ?case by (auto intro: makes_subset)
qed auto

lemma check_accepts:
  assumes "check fe sql schema local = None" and "parse_tree fe sql = Inr tree"
  obtains L where "grows local L" and "length (stmts tree) = 1"
    and "\<And>x. L x = Some True \<Longrightarrow> local x = Some True \<or> defined_in fe tree x"
    and "\<And>n t. nested fe tree n t \<Longrightarrow> n \<le> 16 \<and> vetted fe schema L n (entries_obj t)"
proof -
  from assms(1) obtain L where run: "parse fe schema 0 local sql True = Inr L"
    by (auto simp: check_def split: sum.splits)
  show ?thesis
  proof (rule that [of L])
    show "local x = Some True \<or> defined_in fe tree x" if "L x = Some True" for x
      using walk_origin(1) [OF run that] assms(2) makes_in [OF _ nested.top refl] by auto
  qed (use walk_vetted(1) [OF run] assms(2) nested_vetted in auto)
qed

lemma vetted_entry: "vetted fe schema L n es \<Longrightarrow> (k, v) \<in> set es \<Longrightarrow> entry_ok schema L k v"
  by (simp add: vetted_iff)

text \<open>What a passed test says, key by key.\<close>

lemma entry_ok_kinds:
  assumes "entry_ok schema L k v"
  shows "(stmt_key k \<longrightarrow> k \<in> set statement_words) \<and>
    (k = ''DropStmt'' \<longrightarrow> str (index (as_obj v) ''removeType'') \<in> set object_words) \<and>
    (k = ''RenameStmt'' \<longrightarrow> str (index (as_obj v) ''renameType'') \<in> set object_words) \<and>
    (k = ''CommentStmt'' \<longrightarrow> str (index (as_obj v) ''objtype'') \<in> set object_words) \<and>
    (k = ''IndexStmt'' \<longrightarrow> index (as_obj v) ''concurrent'' \<noteq> JBool True \<and> str (index (as_obj v) ''tableSpace'') = []) \<and>
    (k = ''AlterTableStmt'' \<longrightarrow> str (index (as_obj v) ''objtype'') \<in> set object_words) \<and>
    (k = ''AlterTableCmd'' \<longrightarrow> str (index (as_obj v) ''subtype'') \<in> set alteration_words) \<and>
    (k = ''RangeVar'' \<longrightarrow> \<not> temp_or_unlogged (index (as_obj v) ''relpersistence'')) \<and>
    (k = ''DefElem'' \<longrightarrow> str (index (as_obj v) ''defname'') \<notin> {''set'', ''support''}) \<and>
    (k = ''relpersistence'' \<longrightarrow> \<not> temp_or_unlogged v) \<and>
    (k = ''tablespacename'' \<longrightarrow> str v = [])"
  using assms
  by (auto simp: entry_ok_def switch_check_def tail_check_def statements_iff objects_iff
      alterations_iff split: if_splits)

lemma entry_ok_call:
  "entry_ok schema L k v \<Longrightarrow>
     call_key k \<and> f = names (index (as_obj v) ''funcname'') \<or> k = ''funcname'' \<and> f = names v \<Longrightarrow>
     check_function schema L f = None"
  by (auto simp: entry_ok_def switch_check_call tail_check_def split: option.splits)

lemma check_function_None:
  assumes "check_function schema L f = None" and "schema \<noteq> []" and "grows local L"
  shows "f \<noteq> [] \<and> length f \<le> 2 \<and> (length f = 2 \<longrightarrow> f ! 0 \<in> {[], ''pg_catalog'', schema}) \<and>
    (last_name f \<in> set builtin_words \<and> (length f = 2 \<longrightarrow> f ! 0 \<noteq> schema) \<or>
     L (last_name f) = Some True \<and> (length f = 2 \<longrightarrow> f ! 0 \<noteq> ''pg_catalog'')) \<and>
    (local (last_name f) = Some False \<longrightarrow>
       last_name f \<in> set builtin_words \<and> (length f = 2 \<longrightarrow> f ! 0 \<noteq> schema))"
  using assms(1,2) grows_False [OF assms(3), of "last_name f"]
  by (auto simp: check_function_def Let_def builtins_iff split: if_splits)

section \<open>Sample documents\<close>

text \<open>Parse trees in the shape \<open>pg_query\<close> gives them, for the witnesses.\<close>

definition name_node :: "string \<Rightarrow> json" where
  "name_node s = JObj [(''String'', JObj [(''sval'', JStr s)])]"

definition call_node :: "string list \<Rightarrow> json" where
  "call_node f = JObj [(''FuncCall'', JObj [(''funcname'', JArr (map name_node f))])]"

definition document :: "json \<Rightarrow> obj" where
  "document stmt = [(''stmts'', JArr [JObj [(''stmt'', stmt)]])]"

definition select_call :: "string list \<Rightarrow> obj" where
  "select_call f = document (JObj [(''SelectStmt'', JObj [(''targetList'',
     JArr [JObj [(''ResTarget'', JObj [(''val'', call_node f)])]])])])"

definition sql_option :: "string \<Rightarrow> json \<Rightarrow> json" where
  "sql_option n arg = JObj [(''DefElem'', JObj [(''defname'', JStr n), (''arg'', arg)])]"

definition text_function :: "string \<Rightarrow> string \<Rightarrow> obj" where
  "text_function f text = document (JObj [(''CreateFunctionStmt'', JObj [
     (''funcname'', JArr [name_node f]),
     (''options'', JArr [sql_option ''language'' (name_node ''sql''),
        sql_option ''as'' (JObj [(''List'', JObj [(''items'', JArr [name_node text])])])])])])"

text \<open>A frontend that knows three statements; the text of the first is the body of the second.\<close>

definition sample_frontend :: frontend where
  "sample_frontend =
     \<lparr>ParseToJSON = Inr,
      Unmarshal = (\<lambda>raw.
        if raw = ''SELECT now()'' then Inr (select_call [''now''])
        else if raw = ''CREATE FUNCTION f AS SELECT now()'' then Inr (text_function ''f'' ''SELECT now()'')
        else if raw = ''SELECT set_config()'' then Inr (select_call [''pg_catalog'', ''set_config''])
        else Inl (Errorf ''syntax error''))\<rparr>"

lemmas sample_defs = sample_frontend_def select_call_def text_function_def document_def call_node_def
  name_node_def sql_option_def

lemmas policy_eval = check_def parse.simps parse_tree_def stmts_def as_arr_def as_obj_def index_def
  str_def string_node_def names_def stmt_key_def upper_def has_suffix_def switch_check_def
  tail_check_def check_function_def last_name_def define_function_def Let_def

text \<open>The members of the allow-lists that the samples use.\<close>

lemma sample_words [simp]:
  "statements ''SelectStmt''" "statements ''CreateFunctionStmt''" "statements ''ReturnStmt''"
  "builtins ''now''" "\<not> builtins ''set_config''" "\<not> builtins ''a''" "\<not> builtins ''b''"
  by (simp_all add: statements_iff statement_words_def builtins_iff builtin_words_def)

lemma sample_parse:
  "parse_tree sample_frontend ''SELECT now()'' = Inr (select_call [''now''])"
  "parse_tree sample_frontend ''SELECT set_config()'' = Inr (select_call [''pg_catalog'', ''set_config''])"
  "parse_tree sample_frontend ''CREATE FUNCTION f AS SELECT now()'' = Inr (text_function ''f'' ''SELECT now()'')"
  by (simp_all add: parse_tree_def sample_frontend_def)

lemma sample_function_accepted:
  "check sample_frontend ''CREATE FUNCTION f AS SELECT now()'' ''islet'' (\<lambda>_. None) = None"
  by (simp add: sample_defs policy_eval)

lemma sample_select_accepted: "check sample_frontend ''SELECT now()'' ''islet'' local = None"
  by (simp add: sample_defs policy_eval)

lemma sample_call_denied: "check sample_frontend ''SELECT set_config()'' ''islet'' local \<noteq> None"
  by (simp add: sample_defs policy_eval)

section \<open>Properties\<close>



text \<open>
  C8: every function call, every trigger function and every other \<open>funcname\<close> in an accepted statement,
  in nested bodies too, is unqualified or qualified by \<open>pg_catalog\<close> or the islet's own schema, and it
  names a function of the allow-list (not by the islet's schema) or a function of the islet (not by
  \<open>pg_catalog\<close>): one the caller listed as local, or one that the same statement makes. A name that
  merely is not reserved is refused; a catalog routine (a name the caller marks as reserved) is called
  only when it is on the allow-list, and no definition in the statement can make its name a local one.
\<close>

theorem check_calls:
  "check fe sql schema local = None \<Longrightarrow> parse_tree fe sql = Inr tree \<Longrightarrow> schema \<noteq> [] \<Longrightarrow>
   nested fe tree n t \<Longrightarrow> (k, v) \<in> set (entries_obj t) \<Longrightarrow>
   call_key k \<and> f = names (index (as_obj v) ''funcname'') \<or> k = ''funcname'' \<and> f = names v \<Longrightarrow>
     f \<noteq> [] \<and> length f \<le> 2 \<and> (length f = 2 \<longrightarrow> f ! 0 \<in> {[], ''pg_catalog'', schema}) \<and>
     (last_name f \<in> set builtin_words \<and> (length f = 2 \<longrightarrow> f ! 0 \<noteq> schema) \<or>
      (local (last_name f) = Some True \<or> defined_in fe tree (last_name f)) \<and>
        (length f = 2 \<longrightarrow> f ! 0 \<noteq> ''pg_catalog'')) \<and>
     (local (last_name f) = Some False \<longrightarrow>
        last_name f \<in> set builtin_words \<and> (length f = 2 \<longrightarrow> f ! 0 \<noteq> schema))"
proof -
  assume acc: "check fe sql schema local = None" and tree: "parse_tree fe sql = Inr tree"
    and ns: "schema \<noteq> []" and at: "nested fe tree n t" "(k, v) \<in> set (entries_obj t)"
    and f: "call_key k \<and> f = names (index (as_obj v) ''funcname'') \<or> k = ''funcname'' \<and> f = names v"
  from acc tree obtain L where g: "grows local L"
    and new: "\<And>x. L x = Some True \<Longrightarrow> local x = Some True \<or> defined_in fe tree x"
    and all: "\<And>n t. nested fe tree n t \<Longrightarrow> n \<le> 16 \<and> vetted fe schema L n (entries_obj t)"
    by (rule check_accepts) blast
  have "entry_ok schema L k v" using all [OF at(1)] at(2) by (blast intro: vetted_entry)
  from check_function_None [OF entry_ok_call [OF this f] ns g] new show ?thesis by blast
qed

theorem check_calls_witness:
  "builtins ''now'' \<and> (\<exists>v. (''FuncCall'', v) \<in> set (entries_obj (select_call [''now''])) \<and>
     last_name (names (index (as_obj v) ''funcname'')) \<in> set builtin_words) \<and>
   check sample_frontend ''SELECT set_config()'' ''islet'' (\<lambda>_. None) \<noteq> None"
proof -
  obtain v where v: "(''FuncCall'', v) \<in> set (entries_obj (select_call [''now'']))"
    and now: "names (index (as_obj v) ''funcname'') = [''now'']"
    by (auto simp: sample_defs names_def string_node_def index_def as_obj_def as_arr_def str_def)
  have "\<not> defined_in sample_frontend (select_call [''now'']) f" for f
    by (rule nothing_defined) (simp add: sample_defs)
  with check_calls [OF sample_select_accepted [of "\<lambda>_. None"] sample_parse(1) _ nested.top v, of "[''now'']"] now
  have "last_name (names (index (as_obj v) ''funcname'')) \<in> set builtin_words"
    by (simp add: call_key_def)
  with v sample_call_denied sample_words(4) show ?thesis by (intro conjI exI)
qed

text \<open>
  C30: an accepted statement makes functions in SQL only, in the islet's schema, never under the
  name of a catalog routine, and nests text bodies at most 16 deep.
\<close>

theorem check_definitions:
  "check fe sql schema local = None \<Longrightarrow> parse_tree fe sql = Inr tree \<Longrightarrow> nested fe tree n t \<Longrightarrow>
     n \<le> 16 \<and>
     (\<forall>v. (''CreateFunctionStmt'', v) \<in> set (entries_obj t) \<longrightarrow>
        (let f = names (index (as_obj v) ''funcname'')
         in f \<noteq> [] \<and> length f \<le> 2 \<and> (length f = 2 \<longrightarrow> f ! 0 = schema) \<and> local (last_name f) \<noteq> Some False) \<and>
        (\<exists>body. scan_options (as_arr (index (as_obj v) ''options'')) [] [] = Inr (''sql'', body)))"
proof -
  assume acc: "check fe sql schema local = None" and tree: "parse_tree fe sql = Inr tree"
    and n: "nested fe tree n t"
  from acc tree obtain L where g: "grows local L"
    and vet: "\<And>n t. nested fe tree n t \<Longrightarrow> n \<le> 16 \<and> vetted fe schema L n (entries_obj t)"
    by (rule check_accepts) blast
  note all = vet [OF n]
  have "(let f = names (index (as_obj v) ''funcname'')
         in f \<noteq> [] \<and> length f \<le> 2 \<and> (length f = 2 \<longrightarrow> f ! 0 = schema) \<and> local (last_name f) \<noteq> Some False) \<and>
        (\<exists>body. scan_options (as_arr (index (as_obj v) ''options'')) [] [] = Inr (''sql'', body))"
    if "(''CreateFunctionStmt'', v) \<in> set (entries_obj t)" for v
  proof -
    from all that have "function_ok schema L (as_obj v)" by (simp add: vetted_iff)
    then show ?thesis
      using grows_False [OF g, of "last_name (names (index (as_obj v) ''funcname''))"]
      by (auto simp: function_ok_def Let_def split: sum.splits)
  qed
  with all show ?thesis by blast
qed

theorem check_definitions_witness:
  "\<exists>v. (''CreateFunctionStmt'', v) \<in> set (entries_obj (text_function ''f'' ''SELECT now()'')) \<and>
     (\<exists>body. scan_options (as_arr (index (as_obj v) ''options'')) [] [] = Inr (''sql'', body))"
proof -
  obtain v where v: "(''CreateFunctionStmt'', v) \<in> set (entries_obj (text_function ''f'' ''SELECT now()''))"
    by (auto simp: sample_defs)
  with check_definitions [OF sample_function_accepted sample_parse(3) nested.top] show ?thesis
    by blast
qed

lemma check_function_free:
  assumes "parse_tree fe sql = Inr tree" and "function_free (entries_obj tree)"
  shows "check fe sql schema local = None \<longleftrightarrow>
     length (stmts tree) = 1 \<and> all_ok schema local (entries_obj tree)"
proof -
  have w: "walk fe schema 0 local (JObj tree) = Inr L \<longleftrightarrow> L = local \<and> all_ok schema local (entries_obj tree)" for L
    using walk_function_free(2) [of "JObj tree" fe schema 0 local L] assms(2) by simp
  show ?thesis
  proof (cases "walk fe schema 0 local (JObj tree)")
    case (Inl e)
    with w [of local] assms(1) show ?thesis by (simp add: check_def parse.simps)
  next
    case (Inr L)
    with w [of L] assms(1) show ?thesis by (auto simp: check_def parse.simps)
  qed
qed

lemma reorder_stmts: "reorder (JObj tree) (JObj tree') \<Longrightarrow> length (stmts tree) = length (stmts tree')"
  using reorder_leaf(4) [OF reorder_index [of "JObj tree" "JObj tree'" "''stmts''"]]
  by (simp add: stmts_def as_obj_def list_all2_lengthD)

text \<open>
  C33: for a statement with no function definition in it, the policy accepts exactly when there is one
  statement and every entry of its tree passes its own test against the caller's local functions, and
  the decision does not depend on the order in which Go visits the keys of the decoded objects.
\<close>

theorem check_decides_function_free:
  "parse_tree fe sql = Inr tree \<Longrightarrow> parse_tree fe' sql' = Inr tree' \<Longrightarrow>
   reorder (JObj tree) (JObj tree') \<Longrightarrow> function_free (entries_obj tree) \<Longrightarrow>
     (check fe sql schema local = None \<longleftrightarrow>
        length (stmts tree) = 1 \<and> (\<forall>(k, v) \<in> set (entries_obj tree). entry_ok schema local k v)) \<and>
     (check fe sql schema local = None \<longleftrightarrow> check fe' sql' schema local = None)"
proof -
  assume t: "parse_tree fe sql = Inr tree" and t': "parse_tree fe' sql' = Inr tree'"
    and r: "reorder (JObj tree) (JObj tree')" and free: "function_free (entries_obj tree)"
  from r free have "function_free (entries_obj tree')"
    using reorder_all_ok(2) [OF r] by simp
  with t t' r free show ?thesis
    using reorder_all_ok(1) [OF r, of schema local] reorder_stmts [OF r]
    by (simp add: check_function_free) (simp add: all_ok_def list_all_iff)
qed

theorem check_decides_function_free_witness:
  "check sample_frontend ''SELECT now()'' ''islet'' (\<lambda>_. None) = None \<longleftrightarrow>
     list_all (\<lambda>(k, v). entry_ok ''islet'' (\<lambda>_. None) k v) (entries_obj (select_call [''now'']))"
proof -
  have "function_free (entries_obj (select_call [''now'']))"
    by (simp add: sample_defs)
  moreover have "length (stmts (select_call [''now''])) = 1"
    by (simp add: sample_defs stmts_def index_def as_arr_def)
  ultimately show ?thesis
    using check_decides_function_free [OF sample_parse(1) sample_parse(1) reorder.same]
    by (simp add: list_all_iff)
qed

text \<open>
  A function whose parameter default calls \<open>b\<close> and whose \<open>BEGIN ATOMIC\<close> body makes \<open>b\<close>, as the
  grammar allows, with the two keys in either order.
\<close>

definition atomic_function :: "obj \<Rightarrow> obj" where
  "atomic_function kvs = document (JObj [(''CreateFunctionStmt'', JObj (
     [(''funcname'', JArr [name_node ''a'']),
      (''options'', JArr [sql_option ''language'' (name_node ''sql'')])] @ kvs))])"

definition default_calling :: "string \<Rightarrow> string \<times> json" where
  "default_calling f =
     (''parameters'', JArr [JObj [(''FunctionParameter'', JObj [(''defexpr'', call_node [f])])]])"

definition body_defining :: "string \<Rightarrow> string \<times> json" where
  "body_defining f = (''sql_body'', JObj [(''List'', JObj [(''items'', JArr [
     JObj [(''CreateFunctionStmt'', JObj [
        (''funcname'', JArr [name_node f]),
        (''options'', JArr [sql_option ''language'' (name_node ''sql'')]),
        (''sql_body'', JObj [(''ReturnStmt'', JObj [])])])]])])])"

text \<open>
  C34: with a function definition the decision can depend on that order: these two documents differ in
  nothing else, and the walk refuses the one and accepts the other. The policy is not a function of
  the statement.
\<close>

theorem check_order_dependent:
  "reorder (JObj (atomic_function [default_calling ''b'', body_defining ''b'']))
     (JObj (atomic_function [body_defining ''b'', default_calling ''b''])) \<and>
   check \<lparr>ParseToJSON = Inr, Unmarshal = (\<lambda>_. Inr (atomic_function [default_calling ''b'', body_defining ''b'']))\<rparr>
     sql ''islet'' (\<lambda>_. None) \<noteq> None \<and>
   check \<lparr>ParseToJSON = Inr, Unmarshal = (\<lambda>_. Inr (atomic_function [body_defining ''b'', default_calling ''b'']))\<rparr>
     sql ''islet'' (\<lambda>_. None) = None"
proof (intro conjI)
  let ?kvs = "\<lambda>p q. [(''funcname'', JArr [name_node ''a'']),
      (''options'', JArr [sql_option ''language'' (name_node ''sql'')]), p, q]"
  have inner: "reorder (JObj (?kvs (default_calling ''b'') (body_defining ''b'')))
      (JObj (?kvs (body_defining ''b'') (default_calling ''b'')))"
    by (rule reorder.obj [where zs = "?kvs (default_calling ''b'') (body_defining ''b'')"])
      (simp_all add: default_calling_def body_defining_def reorder.same)
  have single: "reorder (JObj [(k, v)]) (JObj [(k, w)])" if "reorder v w" for k v w
    using that by (intro reorder.obj [where zs = "[(k, w)]"]) simp_all
  show "reorder (JObj (atomic_function [default_calling ''b'', body_defining ''b'']))
     (JObj (atomic_function [body_defining ''b'', default_calling ''b'']))"
    unfolding atomic_function_def document_def
    by (intro single reorder.arr) (simp add: single inner)
qed (simp_all add: atomic_function_def default_calling_def body_defining_def sample_defs policy_eval)

end
