(* ===== verification/BatchSafety.thy ===== *)
theory BatchSafety
  imports ExecuteSafety PolicySafety
begin

text \<open>
  The properties of \<open>Batch\<close> and \<open>Execute\<close>: all or nothing, every statement under the policy, nothing
  outside the islet's schema, within the budgets, and errors with the index of their statement.
\<close>

section \<open>Batch\<close>

lemma lookup_law:
  assumes "lookup ev i w = ((md, e), w')"
  shows "began ev (store w) (store w') \<and>
     (e = None \<longrightarrow> (\<exists>r. row_of (store w') i = Some r \<and> md = metadata_of i r))"
proof -
  obtain row w1 where q: "pool_query ev (\<lambda>_. select_metadata i) (interfere ev w) = (row, w1)"
    by (cases "pool_query ev (\<lambda>_. select_metadata i) (interfere ev w)") auto
  from assms have eqs: "read_metadata row = (md, e)" "w' = w1" by (simp_all add: lookup_def q)
  note law = pool_query_law [OF q]
  have "store w1 = Others ev (tick w) (store w)" using law by (simp add: interfere_def)
  moreover have "\<exists>r. row_of (store w1) i = Some r \<and> md = metadata_of i r" if "e = None"
    using read_metadata_errors [OF eqs(1)] that law
    by (cases "row_of (store w1) i") (auto simp: select_metadata_def)
  ultimately show ?thesis by (auto simp: eqs began_def)
qed

lemma lookup_advanced [simp]: "lookup ev i w = (x, w') \<Longrightarrow> advanced w' = advanced w"
  by (cases "pool_query ev (\<lambda>_. select_metadata i) (interfere ev w)")
    (auto simp: lookup_def interfere_def dest: pool_query_advanced)

definition batch_post ::
  "env \<Rightarrow> manager \<Rightarrow> frontend \<Rightarrow> islet \<Rightarrow> string list \<Rightarrow> db \<Rightarrow> (result list \<times> err) \<times> world \<Rightarrow> bool" where
  "batch_post ev m fe h sqls d x \<longleftrightarrow>
     (case x of ((results, e), w') \<Rightarrow>
        (store w' = d \<and> e \<noteq> None) \<or>
        (\<exists>r. row_of d (ID h) = Some r \<and> row_generation r = Generation h \<and> row_state r = ''active'' \<and>
           batch_run ev m fe (schema_of (ID h)) (role_of (ID h)) sqls d results (store w') \<and>
           (e = None \<or> is_err e ErrOutcomeUnknown)))"

definition batch_moved ::
  "env \<Rightarrow> manager \<Rightarrow> frontend \<Rightarrow> islet \<Rightarrow> string list \<Rightarrow> db \<Rightarrow> advance list \<Rightarrow> world \<Rightarrow> bool" where
  "batch_moved ev m fe h sqls d a w' \<longleftrightarrow>
     (\<exists>xs. advanced w' = a @ xs \<and> set xs \<subseteq> advances_of ev m fe (schema_of (ID h)) (role_of (ID h)) sqls d \<and>
        (xs \<noteq> [] \<longrightarrow> (\<exists>r. row_of d (ID h) = Some r \<and> row_generation r = Generation h \<and> row_state r = ''active'')))"

lemma batch_moved_none [simp]: "advanced w' = a \<Longrightarrow> batch_moved ev m fe h sqls d a w'"
  by (simp add: batch_moved_def)

lemma execute_batch_moved:
  "execute_moved ev m fe md sqls False d a w' \<Longrightarrow> md_schema md = schema_of (ID h) \<Longrightarrow> md_role md = role_of (ID h) \<Longrightarrow>
   ID md = ID h \<Longrightarrow> Generation md = Generation h \<Longrightarrow> batch_moved ev m fe h sqls d a w'"
  unfolding execute_moved_def batch_moved_def moves_def entered_def by auto

lemma batch_outcome:
  assumes env: "env_ok c ev" and ok: "registry_ok c (store w)"
  obtains d where "found ev (store w) d" and "batch_post ev m fe h sqls d (Batch ev m fe h sqls w)"
    and "batch_moved ev m fe h sqls d (advanced w) (snd (Batch ev m fe h sqls w))"
proof -
  let ?moves = "\<lambda>d. batch_moved ev m fe h sqls d (advanced w)"
  have "\<exists>d. found ev (store w) d \<and> batch_post ev m fe h sqls d (Batch ev m fe h sqls w) \<and> ?moves d (snd (Batch ev m fe h sqls w))"
  proof (cases "check_size (Settings m) sqls")
    case (Some e)
    then show ?thesis
      by (intro exI [of _ "store w"]) (simp add: Batch_def batch_post_def found_def)
  next
    case size: None
    obtain md e w1 where 1: "lookup ev (ID h) w = ((md, e), w1)" by (cases "lookup ev (ID h) w") auto
    note law = lookup_law [OF 1] and adv = lookup_advanced [OF 1]
    show ?thesis
    proof (cases "e = None \<and> Generation md = Generation h")
      case False
      with size 1 law adv show ?thesis
        by (intro exI [of _ "store w1"]) (cases e, simp_all add: Batch_def batch_post_def found_def)
    next
      case True
      with law obtain r where r: "row_of (store w1) (ID h) = Some r" "md = metadata_of (ID h) r"
        by auto
      have "registry_ok c (store w1)" using law began_ok [OF env ok] by blast
      from registry_okD(2) [OF this r(1)] have names: "md_schema md = schema_of (ID h)" "md_role md = role_of (ID h)"
        by (simp_all add: row_ok_def r(2))
      obtain d where d: "d = store w1 \<or> began ev (store w1) d"
        and post: "execute_post ev m fe md sqls False d (execute ev m fe md sqls False w1)"
        and ex: "execute_moved ev m fe md sqls False d (advanced w1) (snd (execute ev m fe md sqls False w1))"
        using execute_moves .
      have mv: "?moves d (snd (execute ev m fe md sqls False w1))"
        using execute_batch_moved [OF ex names] r(2) True by (simp add: adv)
      have "Batch ev m fe h sqls w = execute ev m fe md sqls False w1"
        using size 1 True by (simp add: Batch_def)
      moreover have "batch_post ev m fe h sqls d (execute ev m fe md sqls False w1)"
      proof -
        obtain results e' w' where x: "execute ev m fe md sqls False w1 = ((results, e'), w')"
          by (cases "execute ev m fe md sqls False w1") auto
        from post show ?thesis
          unfolding x execute_post_def batch_post_def prod.case entered_def names using r(2) True by auto
      qed
      moreover have "found ev (store w) d" using d law by (auto simp: found_def)
      ultimately show ?thesis using mv by auto
    qed
  qed
  then show ?thesis using that by blast
qed

lemma batch_post_effect:
  assumes post: "batch_post ev m fe h sqls d ((results, e), w')"
    and ok: "registry_ok c d" and conf: "confined fe (Reserved m) ev"
  shows "(store w' = d \<and> e \<noteq> None) \<or>
     (\<exists>r x. row_of d (ID h) = Some r \<and> row_generation r = Generation h \<and> row_state r = ''active'' \<and>
        store w' = d\<lparr>schemas := (schemas d)(schema_of (ID h) \<mapsto> x)\<rparr> \<and>
        batch_run ev m fe (schema_of (ID h)) (role_of (ID h)) sqls d results (store w') \<and>
        (e = None \<or> is_err e ErrOutcomeUnknown))"
  using post unfolding batch_post_def prod.case
proof (elim disjE exE conjE, goal_cases)
  case (2 r)
  from batch_in_schema [OF 2(4) conf ok 2(1) refl] 2 show ?case by blast
next
  case (3 r)
  from batch_in_schema [OF 3(4) conf ok 3(1) refl] 3 show ?case by blast
qed simp

text \<open>
  C1: a batch is all or nothing in what a transaction can undo: either the database is as other
  sessions left it and there is an error, or every statement has run, in order, on an active islet of
  the handle's generation, each after the policy accepted it in the state it ran in, each answered in
  full, and the error is nil or says that the outcome of the commit is unknown. What PostgreSQL does
  not roll back, the advancement of sequences (\<open>nextval\<close>, \<open>setval\<close>), is outside of this: a failed batch
  may leave sequences moved, but only by its own statements, each in a state that its predecessors
  in the batch led to and only after the policy accepted it there, and none at all unless the handle
  is that of an active islet.
\<close>

theorem batch_all_or_nothing:
  "env_ok c ev \<Longrightarrow> registry_ok c (store w) \<Longrightarrow> Batch ev m fe h sqls w = ((results, e), w') \<Longrightarrow>
     \<exists>d. found ev (store w) d \<and>
       (store w' = d \<and> e \<noteq> None \<or>
        (\<exists>r. row_of d (ID h) = Some r \<and> row_generation r = Generation h \<and> row_state r = ''active'' \<and>
           batch_run ev m fe (schema_of (ID h)) (role_of (ID h)) sqls d results (store w') \<and>
           length results = length sqls \<and> (e = None \<or> is_err e ErrOutcomeUnknown))) \<and>
       (\<exists>xs. advanced w' = advanced w @ xs \<and>
          set xs \<subseteq> advances_of ev m fe (schema_of (ID h)) (role_of (ID h)) sqls d \<and>
          (xs \<noteq> [] \<longrightarrow> (\<exists>r. row_of d (ID h) = Some r \<and> row_generation r = Generation h \<and> row_state r = ''active'')))"
proof -
  assume env: "env_ok c ev" and ok: "registry_ok c (store w)" and run: "Batch ev m fe h sqls w = ((results, e), w')"
  obtain d where d: "found ev (store w) d" and post: "batch_post ev m fe h sqls d ((results, e), w')"
    and mv: "batch_moved ev m fe h sqls d (advanced w) w'"
    using batch_outcome [OF env ok, of m fe h sqls] unfolding run snd_conv .
  show ?thesis
    using d post mv [unfolded batch_moved_def] unfolding batch_post_def prod.case
    by (intro exI [of _ d] conjI) (use batch_run_length in blast)+
qed

text \<open>What a batch runs, it runs in a state where only its own schema may have changed.\<close>

lemma advances_own:
  assumes conf: "confined fe (Reserved m) ev" and ok: "registry_ok c d" and row: "row_of d i = Some r"
    and adv: "(s, q, v) \<in> advances_of ev m fe (schema_of i) (role_of i) sqls d"
  shows "s = schema_of i"
proof -
  from adv obtain k j n results d1 where run: "batch_run ev m fe (schema_of i) (role_of i) (take k sqls) d results d1"
    and chk: "check fe (sqls ! k) (schema_of i) (local_map (Reserved m) (ProcNames ev j (schema_of i) d1)) = None"
    and at: "(s, q, v) \<in> set (Advances ev n (role_of i) (sqls ! k) d1)"
    by (auto simp: advances_of_def)
  from batch_in_schema [OF run conf ok row refl] obtain x where x: "d1 = d\<lparr>schemas := (schemas d)(schema_of i \<mapsto> x)\<rparr>" by blast
  have "registry_ok c d1" and "row_of d1 i = Some r"
    using registry_ok_ran [OF ok row, of x] row by (simp_all add: x row_of_def)
  from run_in_schema [OF conf this check_accepted [OF chk]] at show ?thesis
    by (metis surj_pair)
qed

lemma batch_effect:
  "env_ok c ev \<Longrightarrow> registry_ok c (store w) \<Longrightarrow> confined fe (Reserved m) ev \<Longrightarrow> Batch ev m fe h sqls w = ((results, e), w') \<Longrightarrow>
     \<exists>d. found ev (store w) d \<and>
       islets (store w') = islets d \<and> roles (store w') = roles d \<and> grants (store w') = grants d \<and>
       owners (store w') = owners d \<and> inst (store w') = inst d \<and>
       (\<forall>s. s \<noteq> schema_of (ID h) \<longrightarrow> schemas (store w') s = schemas d s) \<and>
       (\<exists>xs. advanced w' = advanced w @ xs \<and> (\<forall>s q v. (s, q, v) \<in> set xs \<longrightarrow> s = schema_of (ID h))) \<and>
       changes c (store w) (store w') \<and> registry_ok c (store w')"
proof -
  assume env: "env_ok c ev" and ok: "registry_ok c (store w)" and conf: "confined fe (Reserved m) ev"
    and run: "Batch ev m fe h sqls w = ((results, e), w')"
  obtain d where d: "found ev (store w) d" and post: "batch_post ev m fe h sqls d ((results, e), w')"
    and mv: "batch_moved ev m fe h sqls d (advanced w) w'"
    using batch_outcome [OF env ok, of m fe h sqls] unfolding run snd_conv .
  from found_changes [OF env ok d] have ch: "changes c (store w) d" .
  with ok have okd: "registry_ok c d" using changes_registry_ok by blast
  have "store w' = d \<or> (\<exists>r x. row_of d (ID h) = Some r \<and> row_state r \<noteq> ''failed'' \<and> schema_name r = schema_of (ID h) \<and>
      store w' = d\<lparr>schemas := (schemas d)(schema_of (ID h) \<mapsto> x)\<rparr>)"
    using batch_post_effect [OF post okd conf] registry_okD(2) [OF okd, of "ID h"]
    by (auto simp: row_ok_def)
  note eff = this
  have adv: "\<exists>xs. advanced w' = advanced w @ xs \<and> (\<forall>s q v. (s, q, v) \<in> set xs \<longrightarrow> s = schema_of (ID h))"
  proof -
    from mv obtain xs where xs: "advanced w' = advanced w @ xs"
        "set xs \<subseteq> advances_of ev m fe (schema_of (ID h)) (role_of (ID h)) sqls d"
        "xs \<noteq> [] \<Longrightarrow> \<exists>r. row_of d (ID h) = Some r" unfolding batch_moved_def by blast
    have "s = schema_of (ID h)" if at: "(s, q, v) \<in> set xs" for s q v
    proof -
      from at xs(3) obtain r where "row_of d (ID h) = Some r" by (cases xs) auto
      from advances_own [OF conf okd this] at xs(2) show ?thesis by blast
    qed
    with xs(1) show ?thesis by blast
  qed
  from eff show ?thesis
  proof (elim disjE exE conjE, goal_cases)
    case 1
    with d ch okd adv show ?case by auto
  next
    case (2 r x)
    have "change c d (store w')" using change.ran [OF 2(1,2), of c x] 2 by simp
    with ch have "changes c (store w) (store w')" by (rule rtranclp.rtrancl_into_rtrancl)
    moreover from this ok have "registry_ok c (store w')" using changes_registry_ok by blast
    ultimately show ?case using d 2(4) adv by auto
  qed
qed


section \<open>Budgets\<close>

text \<open>Answers that a machine can hold.\<close>

definition replies_fit :: "env \<Rightarrow> bool" where
  "replies_fit ev \<longleftrightarrow> (\<forall>n u sql d. in_memory (fst (Run ev n u sql d)))"

lemma tx_query_budgets:
  assumes "replies_fit ev" and "0 \<le> rows" "rows < 2 ^ 63" "0 \<le> bytes" "bytes < 2 ^ 63"
    and "tx_query ev u sql rows bytes t w = (out, t', w')"
  shows "int (length (Rows (Answer out))) \<le> rows \<and>
     (Failure out = None \<longrightarrow>
        RowsLeft out = rows - int (length (Rows (Answer out))) \<and>
        BytesLeft out = bytes - result_cost (Answer out) \<and> 0 \<le> BytesLeft out \<and> 0 \<le> result_cost (Answer out))"
proof -
  obtain r v where r: "tx_reply ev u sql t w = (r, v)" by (cases "tx_reply ev u sql t w") auto
  let ?out = "query r (Clock ev (tick w) 0) (Clock ev (tick w) 1) rows bytes"
  have out: "out = ?out" using assms(6) by (auto simp: tx_query_def r Let_def)
  have "in_memory (error_reply e)" for e
    by (simp add: in_memory_def reply_cost_def error_reply_def)
  then have "in_memory r"
    using r assms(1) unfolding replies_fit_def tx_reply_def
    by (auto split: status.splits option.splits) (metis fst_conv)+
  then have ok: "budgets_ok r rows bytes" using assms by (simp add: budgets_ok_def)
  note cut = query_cut [OF ok out] and exact = query_exact [OF ok out]
  have "0 \<le> result_cost (Answer out)"
    by (auto simp: result_cost_def any_cost_def column_cost_def split: go_any.splits intro!: add_nonneg_nonneg sum_list_nonneg)
  moreover have "Failure out = None \<Longrightarrow> result_cost (Answer out) \<le> bytes"
    using exact by (auto simp: result_cost_def reply_cost_def o_def)
  ultimately show ?thesis using cut exact by auto
qed

lemma exec_loop_budgets:
  assumes "replies_fit ev" and "0 \<le> rows" "rows < 2 ^ 63" "0 \<le> bytes" "bytes < 2 ^ 63"
    and "exec_loop ev m fe md u i sqls rows bytes t w = ((results, e), t', w')"
  shows "sum_list (map (\<lambda>r. int (length (Rows r))) results) \<le> rows \<and>
     (e = None \<longrightarrow> sum_list (map result_cost results) \<le> bytes)"
  using assms(2-6)
proof (induction sqls arbitrary: i rows bytes t w results)
  case Nil
  then show ?case by simp
next
  case (Cons sql rest)
  obtain x t1 w1 where 1: "local_functions ev m (md_schema md) t w = (x, t1, w1)"
    by (cases "local_functions ev m (md_schema md) t w") auto
  show ?case
  proof (cases x)
    case (Inl y)
    with Cons.prems show ?thesis by (auto simp: 1)
  next
    case (Inr local)
    show ?thesis
    proof (cases "check fe sql (md_schema md) local")
      case (Some p)
      with Cons.prems Inr show ?thesis by (auto simp: 1)
    next
      case chk: None
      obtain out t2 w2 where 2: "tx_query ev u sql rows bytes t1 w1 = (out, t2, w2)"
        by (cases "tx_query ev u sql rows bytes t1 w1") auto
      note law = tx_query_budgets [OF assms(1) Cons.prems(1-4) 2]
      show ?thesis
      proof (cases "Failure out")
        case (Some f)
        from Cons.prems(5) have "results = [Answer out]" and e: "e = with_statement i (classify (Some f))"
          by (auto simp: 1 2 Inr chk Some)
        moreover obtain y where "with_statement i (classify (Some f)) = Some y"
          using classify_Some [of f] with_statement_Some by metis
        ultimately show ?thesis using law by simp
      next
        case None
        obtain rs where 3: "exec_loop ev m fe md u (i + 1) rest (RowsLeft out) (BytesLeft out) t2 w2 = ((rs, e), t', w')"
          and results: "results = Answer out # rs"
          using Cons.prems(5) by (auto simp: 1 2 Inr chk None split: prod.splits)
        have "0 \<le> RowsLeft out" "RowsLeft out < 2 ^ 63" "0 \<le> BytesLeft out" "BytesLeft out < 2 ^ 63"
          using law None Cons.prems(1-4) by auto
        from Cons.IH [OF this 3] law None show ?thesis by (auto simp: results)
      qed
    qed
  qed
qed

text \<open>
  The results of a batch are those of its loop, and every other error of the module's own type
  belongs to no statement.
\<close>

definition unindexed :: "err \<Rightarrow> bool" where
  "unindexed e \<longleftrightarrow> \<not> is_err e ErrPolicy \<and> (\<forall>k c n. e = Some (IsletError k c n) \<longrightarrow> n = -1)"

text \<open>Nothing goes wrong on the way to the server.\<close>

definition faultless :: "env \<Rightarrow> bool" where
  "faultless ev \<longleftrightarrow> (\<forall>n. Fault ev n = None \<and> CommitFault ev n = None)"

definition from_loop :: "env \<Rightarrow> manager \<Rightarrow> frontend \<Rightarrow> metadata \<Rightarrow> string list \<Rightarrow> (result list \<times> err) \<times> world \<Rightarrow> bool" where
  "from_loop ev m fe md sqls x \<longleftrightarrow>
     (case x of ((results, e), w') \<Rightarrow> results = [] \<and> e \<noteq> None \<and> unindexed e \<or>
     (\<exists>u t w1 e1 t1 w2. exec_loop ev m fe md u 0 sqls (MaxRows (Settings m)) (MaxResultBytes (Settings m)) t w1 =
        ((results, e1), t1, w2) \<and> Status t = Healthy \<and>
        (if e1 = None then unindexed e \<and> (faultless ev \<longrightarrow> e = None) else e = e1)))"

lemma unindexed_simps [simp]:
  "unindexed None" "unindexed (Some (wrap k c)) \<longleftrightarrow> k \<noteq> ErrPolicy \<and> \<not> is_err c ErrPolicy"
  "unindexed (Some (Sentinel s)) \<longleftrightarrow> s \<noteq> ErrPolicy"
  by (simp_all add: unindexed_def) (simp add: wrap_def)

lemma code_kind_not_policy [simp]: "code_kind code \<noteq> ErrPolicy"
  by (simp add: code_kind_def)

lemma unindexed_classify: "unindexed (Some z) \<Longrightarrow> unindexed (classify (Some z))"
  by (auto simp: unindexed_def classify_def wrap_def split: option.splits if_splits)

lemma unindexed_error: "unindexed (Some z) \<Longrightarrow> \<not> errors_is z ErrPolicy"
  by (simp add: unindexed_def)

lemma unindexed_driver: "driver_error z \<Longrightarrow> unindexed (Some z)"
  by (auto simp: unindexed_def driver_error_def module_sentinels_def)

lemma unindexed_sqlstate [simp]: "unindexed (Some (sqlstate c))"
  by (simp add: unindexed_def sqlstate_def)

lemma from_loop_error: "e \<noteq> None \<Longrightarrow> unindexed e \<Longrightarrow> from_loop ev m fe md sqls (([], e), w)"
  by (simp add: from_loop_def)

lemma env_okD:
  "env_ok c ev \<Longrightarrow> Fault ev n = Some e \<Longrightarrow> driver_error e"
  "env_ok c ev \<Longrightarrow> CommitFault ev n = Some (e, b) \<Longrightarrow> driver_error e"
  unfolding env_ok_def by blast+

lemma unindexed_fixed [simp]: "unindexed (Some in_failed_tx)" "unindexed (Some conn_closed)"
  by (simp_all add: unindexed_def in_failed_tx_def conn_closed_def sqlstate_def)

lemma tx_call_unindexed:
  assumes env: "env_ok c0 ev" and f: "\<And>n d x. f n d = Inl x \<Longrightarrow> unindexed (Some x)"
    and run: "tx_call ev f t w = (Inl e, t', w')"
  shows "unindexed (Some e)"
proof -
  from run have "e = conn_closed \<or> e = in_failed_tx \<or> Fault ev (tick w) = Some e \<or> f (tick w) (View t) = Inl e"
    by (auto simp: tx_call_def split: status.splits option.splits sum.splits)
  with f show ?thesis using unindexed_driver env_okD(1) [OF env] by auto
qed

lemma enter_tx_unindexed:
  assumes "env_ok c0 ev" and "enter_tx ev u md token t w = (Some e, t', w')"
  shows "unindexed (Some e)"
proof -
  let ?f = "\<lambda>n d. case call_enter (Busy ev n) u (ID md) (Generation md) token d of
                Inl e \<Rightarrow> Inl e | Inr d' \<Rightarrow> Inr ((), d')"
  obtain r t1 w1 where c: "tx_call ev ?f t w = (r, t1, w1)" by (cases "tx_call ev ?f t w") auto
  with assms(2) have r: "r = Inl e" by (simp add: enter_tx_def exec_error_def split: sum.splits)
  show ?thesis
  proof (rule tx_call_unindexed [OF assms(1) _ c [unfolded r]])
    fix n d x assume "?f n d = Inl x"
    then have "call_enter (Busy ev n) u (ID md) (Generation md) token d = Inl x"
      by (auto split: sum.splits)
    from call_enter_error [OF this] show "unindexed (Some x)" by auto
  qed
qed

lemma commit_unindexed:
  assumes "env_ok c0 ev" and "commit ev t w = (e, w')"
  shows "unindexed e \<and> (faultless ev \<longrightarrow> Status t = Healthy \<longrightarrow> e = None)"
proof -
  obtain e0 w0 where c: "tx_commit ev t w = (e0, w0)" by (cases "tx_commit ev t w") auto
  have "e0 = None \<or> e0 = Some conn_closed \<or> e0 = Some (Sentinel TxCommitRollback) \<or>
      (\<exists>x b. CommitFault ev (tick w) = Some (x, b) \<and> e0 = Some x)"
    using c by (auto simp: tx_commit_def split: status.splits option.splits)
  then have un: "unindexed e0" using unindexed_driver env_okD(2) [OF assms(1)] by auto
  have "faultless ev \<Longrightarrow> Status t = Healthy \<Longrightarrow> e0 = None"
    using c by (simp add: tx_commit_def faultless_def)
  with un assms(2) c show ?thesis
    by (cases e0) (auto simp: commit_def unindexed_classify unindexed_error split: if_splits)
qed

lemma execute_tx_results:
  assumes env: "env_ok c0 ev"
  shows "from_loop ev m fe md sqls (execute_tx ev m fe md sqls False conn t w)"
proof -
  obtain r1 t1 w1 where 1: "enter_tx ev (User conn) md None t w = (r1, t1, w1)"
    by (cases "enter_tx ev (User conn) md None t w") auto
  show ?thesis
  proof (cases r1)
    case (Some e)
    with 1 enter_tx_unindexed [OF env] show ?thesis
      by (simp add: execute_tx_def from_loop_error unindexed_classify)
  next
    case n1: None
    obtain row w2 where 2: "pool_query ev (\<lambda>n d. dependency_query (Catalog ev n d) (md_schema md)) w1 = (row, w2)"
      by (cases "pool_query ev (\<lambda>n d. dependency_query (Catalog ev n d) (md_schema md)) w1") auto
    show ?thesis
    proof (cases "dependency_error row")
      case (Some e)
      have "Fault ev (tick w1) = Some e \<or> unindexed (Some e)"
        using Some 2
        by (auto simp: dependency_error_def scan_def pool_query_def split: sum.splits option.splits if_splits)
      then have "unindexed (Some e)" using unindexed_driver env_okD(1) [OF env] by auto
      with 1 2 n1 Some show ?thesis by (simp add: execute_tx_def from_loop_error)
    next
      case n2: None
      obtain results e3 t3 w3 where 3: "exec_loop ev m fe md (User conn) 0 sqls (MaxRows (Settings m))
          (MaxResultBytes (Settings m)) t1 w2 = ((results, e3), t3, w3)"
        by (cases "exec_loop ev m fe md (User conn) 0 sqls (MaxRows (Settings m)) (MaxResultBytes (Settings m)) t1 w2") auto
      have h: "Status t1 = Healthy" using exec_error_call [OF 1 [unfolded enter_tx_def]] n1 by simp
      have loop: "from_loop ev m fe md sqls ((results, e), w)"
        if "if e3 = None then unindexed e \<and> (faultless ev \<longrightarrow> e = None) else e = e3" for e w
        unfolding from_loop_def prod.case using 3 h that by blast
      show ?thesis
      proof (cases e3)
        case (Some e)
        with 1 2 3 n1 n2 loop show ?thesis by (simp add: execute_tx_def)
      next
        case n3: None
        obtain e4 w4 where 4: "commit ev t3 w3 = (e4, w4)" by (cases "commit ev t3 w3") auto
        show ?thesis
          using 1 2 3 4 n1 n2 n3 commit_unindexed [OF env 4] exec_loop_run [OF 3] h by (simp add: execute_tx_def loop)
      qed
    qed
  qed
qed

lemma authenticate_unindexed: "authenticate cfg d = Some e \<Longrightarrow> unindexed (Some e)"
  by (auto simp: authenticate_def split: option.splits if_splits)

lemma connect_runtime_unindexed:
  assumes env: "env_ok c0 ev" and run: "connect_runtime ev m md w = (Inl e, w')"
  shows "unindexed (Some e)"
proof -
  from run obtain z where e: "e = wrap ErrRuntimeConnection (classify (Some z))"
    and z: "Fault ev (tick w) = Some z \<or> authenticate (runtime_config m md) (store w) = Some z"
    by (auto simp: connect_runtime_def Let_def split: option.splits)
  from z have "unindexed (Some z)" using unindexed_driver env_okD(1) [OF env] authenticate_unindexed by blast
  from unindexed_classify [OF this] show ?thesis by (auto simp: e unindexed_def [of "classify (Some z)"])
qed

lemma check_size_unindexed: "unindexed (check_size cfg sqls)"
  using size_loop_kind [of "MaxSQLBytes cfg" 0 sqls] by (auto simp: check_size_def)

lemma execute_results:
  assumes env: "env_ok c0 ev" and run: "execute ev m fe md sqls False w = ((results, e), w')"
  shows "from_loop ev m fe md sqls ((results, e), w')"
proof -
  have keep: "from_loop ev m fe md sqls (r, f w)" if "from_loop ev m fe md sqls (r, w)" for r w and f :: "world \<Rightarrow> world"
    using that by (cases r) (simp add: from_loop_def)
  have tx: "from_loop ev m fe md sqls
      (with_tx ev (\<lambda>e. ([], classify (Some e))) (execute_tx ev m fe md sqls False conn) w)" for conn w
  proof -
    obtain r w1 where b: "begin_tx ev w = (r, w1)" by (cases "begin_tx ev w") auto
    show ?thesis
    proof (cases r)
      case (Inl e)
      with b have "\<exists>n. Fault ev n = Some e" by (auto simp: begin_tx_def Let_def split: option.splits)
      then have "driver_error e" using env_okD(1) [OF env] by blast
      with b Inl show ?thesis by (simp add: with_tx_def from_loop_error unindexed_classify unindexed_driver)
    next
      case (Inr t)
      obtain a w2 where x: "execute_tx ev m fe md sqls False conn t w1 = (a, w2)"
        by (cases "execute_tx ev m fe md sqls False conn t w1") auto
      have "from_loop ev m fe md sqls (a, rollback w2)"
        by (rule keep) (simp add: x [symmetric] execute_tx_results [OF env])
      with b Inr x show ?thesis by (simp add: with_tx_def)
    qed
  qed
  obtain x w1 where 1: "connect_runtime ev m md w = (x, w1)" by (cases "connect_runtime ev m md w") auto
  have "from_loop ev m fe md sqls (execute ev m fe md sqls False w)"
  proof (cases "check_size (Settings m) sqls")
    case (Some e)
    with check_size_unindexed [of "Settings m" sqls] show ?thesis by (simp add: execute_def from_loop_error)
  next
    case size: None
    show ?thesis
    proof (cases x)
      case (Inl e)
      with size 1 connect_runtime_unindexed [OF env, of m md w e w1] show ?thesis
        by (simp add: execute_def from_loop_error)
    next
      case (Inr conn)
      obtain r w2 where 2: "with_tx ev (\<lambda>e. ([], classify (Some e))) (execute_tx ev m fe md sqls False conn) w1 = (r, w2)"
        by (cases "with_tx ev (\<lambda>e. ([], classify (Some e))) (execute_tx ev m fe md sqls False conn) w1") auto
      from tx [of conn w1] have "from_loop ev m fe md sqls (r, close_runtime w2)" unfolding 2 by (rule keep)
      then show ?thesis using size 1 2 Inr by (simp add: execute_def)
    qed
  qed
  with run show ?thesis by simp
qed

lemma lookup_unindexed:
  assumes "env_ok c0 ev" and "lookup ev i w = ((md, e), w')"
  shows "unindexed e"
proof -
  obtain row w1 where q: "pool_query ev (\<lambda>_. select_metadata i) (interfere ev w) = (row, w1)"
    by (cases "pool_query ev (\<lambda>_. select_metadata i) (interfere ev w)") auto
  from assms(2) have rd: "read_metadata row = (md, e)" by (simp add: lookup_def q)
  have drv: "driver_error z" if "row = Inl z" for z
    using q that env_okD(1) [OF assms(1)] by (auto simp: pool_query_def split: option.splits)
  show ?thesis
  proof (cases row)
    case (Inl z)
    with rd drv [OF Inl] show ?thesis
      by (auto simp: read_metadata_def scan_def unindexed_classify unindexed_driver split: if_splits)
  next
    case (Inr o')
    with rd show ?thesis by (cases o') (auto simp: read_metadata_def scan_def)
  qed
qed

lemma batch_results:
  assumes env: "env_ok c0 ev" and run: "Batch ev m fe h sqls w = ((results, e), w')"
  obtains (none) "results = []" "e \<noteq> None" "unindexed e"
    | (loop) md u t w1 e1 t1 w2 where "exec_loop ev m fe md u 0 sqls (MaxRows (Settings m)) (MaxResultBytes (Settings m)) t w1 =
        ((results, e1), t1, w2)" "Status t = Healthy" "if e1 = None then unindexed e \<and> (faultless ev \<longrightarrow> e = None) else e = e1"
proof -
  have "results = [] \<and> e \<noteq> None \<and> unindexed e \<or> (\<exists>md w0. execute ev m fe md sqls False w0 = ((results, e), w'))"
  proof (cases "check_size (Settings m) sqls")
    case (Some x)
    with run check_size_unindexed [of "Settings m" sqls] show ?thesis by (auto simp: Batch_def)
  next
    case None
    obtain md y w1 where 1: "lookup ev (ID h) w = ((md, y), w1)" by (cases "lookup ev (ID h) w") auto
    with run None lookup_unindexed [OF env 1] show ?thesis
      by (cases y) (auto simp: Batch_def split: if_splits)
  qed
  then show ?thesis
  proof (elim disjE exE conjE)
    fix md w0 assume "execute ev m fe md sqls False w0 = ((results, e), w')"
    from execute_results [OF env this] show ?thesis
      unfolding from_loop_def prod.case using none loop by blast
  qed (rule none)
qed

text \<open>
  C27: the results a batch returns, complete or cut, hold no more rows than the configured maximum
  together, and those of a batch that succeeds no more bytes than the configured maximum together:
  the budgets are the batch's, not each statement's.
\<close>

theorem batch_within_budgets:
  "env_ok c ev \<Longrightarrow> replies_fit ev \<Longrightarrow> valid_config (Settings m) \<Longrightarrow>
   MaxRows (Settings m) < 2 ^ 63 \<Longrightarrow> MaxResultBytes (Settings m) < 2 ^ 63 \<Longrightarrow>
   Batch ev m fe h sqls w = ((results, e), w') \<Longrightarrow>
     sum_list (map (\<lambda>r. int (length (Rows r))) results) \<le> MaxRows (Settings m) \<and>
     (e = None \<longrightarrow> sum_list (map result_cost results) \<le> MaxResultBytes (Settings m))"
proof -
  assume env: "env_ok c ev" and fit: "replies_fit ev" and valid: "valid_config (Settings m)"
    and small: "MaxRows (Settings m) < 2 ^ 63" "MaxResultBytes (Settings m) < 2 ^ 63"
    and run: "Batch ev m fe h sqls w = ((results, e), w')"
  from valid have pos: "0 \<le> MaxRows (Settings m)" "0 \<le> MaxResultBytes (Settings m)"
    by (simp_all add: valid_config_def invalid_limits_def)
  from env run show ?thesis
  proof (cases rule: batch_results)
    case none
    with pos show ?thesis by simp
  next
    case (loop md u t w1 e1 t1 w2)
    from exec_loop_budgets [OF fit pos(1) small(1) pos(2) small(2) loop(1)] loop(3)
    show ?thesis by (auto split: if_splits)
  qed
qed

section \<open>Errors of statements\<close>

text \<open>The errors of replies are the driver's too.\<close>

definition replies_driver :: "env \<Rightarrow> bool" where
  "replies_driver ev \<longleftrightarrow>
     (\<forall>n u sql d e. reply_err (fst (Run ev n u sql d)) = Some e \<longrightarrow> driver_error e)"

lemma classify_driver_index:
  "driver_error z \<Longrightarrow> \<not> is_err (classify (Some z)) ErrPolicy \<and>
     (\<forall>k c n. classify (Some z) = Some (IsletError k c n) \<longrightarrow> n = -1)"
  by (auto simp: driver_error_def classify_def module_sentinels_def code_kind_def wrap_def split: option.splits)

lemma tx_query_failure:
  assumes "env_ok c ev" and "replies_driver ev" and "tx_query ev u sql rows bytes t w = (out, t', w')"
    and "Failure out = Some f"
  shows "driver_error f \<or> f = budget_exceeded \<or> f = Sentinel ErrResultLimit"
proof -
  obtain r v where r: "tx_reply ev u sql t w = (r, v)" by (cases "tx_reply ev u sql t w") auto
  have drv: "driver_error e" if "reply_err r = Some e" for e
    using r assms(1,2) that unfolding replies_driver_def env_ok_def tx_reply_def
    by (auto split: status.splits option.splits) (metis fst_conv)
  have "Failure out = reply_err r \<or> f = budget_exceeded \<or> f = Sentinel ErrResultLimit"
    using assms(3,4) by (auto simp: tx_query_def r Let_def query_def reply_err_def split: option.splits prod.splits if_splits)
  with assms(4) drv show ?thesis by auto
qed

lemma with_statement_kind:
  "with_statement i (Some z) = Some x \<Longrightarrow>
     (errors_is x k \<longleftrightarrow> errors_is z k) \<and> (\<forall>q c n. x = IsletError q c n \<longrightarrow> n = int i)"
  by (cases z) (auto simp: with_statement_def)

lemma exec_loop_error:
  assumes env: "env_ok c0 ev" "replies_driver ev"
    and "exec_loop ev m fe md u i sqls rows bytes t w = ((results, Some x), t', w')"
  shows "length results \<le> length sqls \<and>
     (errors_is x ErrPolicy \<longrightarrow> length results < length sqls \<and>
        (\<exists>n d p. check fe (sqls ! length results) (md_schema md) (local_map (Reserved m) (ProcNames ev n (md_schema md) d)) = Some p \<and>
           x = IsletError ErrPolicy (Some p) (int (i + length results)))) \<and>
     (\<forall>k c n. x = IsletError k c n \<longrightarrow> k \<noteq> ErrPolicy \<longrightarrow>
        n = -1 \<or> results \<noteq> [] \<and> n = int (i + length results) - 1) \<and>
     (faultless ev \<longrightarrow> Status t = Healthy \<longrightarrow> \<not> errors_is x ErrPolicy \<longrightarrow> results \<noteq> [] \<and>
        (\<forall>k c n. x = IsletError k c n \<longrightarrow> n = int (i + length results) - 1))"
  using assms(3)
proof (induction sqls arbitrary: i rows bytes t w results)
  case Nil
  then show ?case by simp
next
  case (Cons sql rest)
  obtain y t1 w1 where 1: "local_functions ev m (md_schema md) t w = (y, t1, w1)"
    by (cases "local_functions ev m (md_schema md) t w") auto
  show ?case
  proof (cases y)
    case (Inl z)
    have "driver_error z"
      by (rule tx_call_driver [OF env(1) _ 1 [unfolded local_functions_def Inl]]) simp
    note idx = classify_driver_index [OF this]
    have "\<not> (faultless ev \<and> Status t = Healthy)"
      using 1 Inl by (auto simp: local_functions_def tx_call_def faultless_def)
    moreover from Cons.prems have "results = []" and "classify (Some z) = Some x"
      by (simp_all add: 1 Inl)
    ultimately show ?thesis using idx by auto
  next
    case (Inr local)
    note law1 = local_functions_law [OF 1]
    show ?thesis
    proof (cases "check fe sql (md_schema md) local")
      case (Some p)
      with Cons.prems Inr have "results = []" and "x = IsletError ErrPolicy (Some p) (int i)" by (simp_all add: 1)
      with Some law1 Inr show ?thesis by auto
    next
      case chk: None
      obtain out t2 w2 where 2: "tx_query ev u sql rows bytes t1 w1 = (out, t2, w2)"
        by (cases "tx_query ev u sql rows bytes t1 w1") auto
      show ?thesis
      proof (cases "Failure out")
        case (Some f)
        from Cons.prems have res: "results = [Answer out]" and x: "with_statement i (classify (Some f)) = Some x"
          by (simp_all add: 1 2 Inr chk Some)
        obtain z where z: "classify (Some f) = Some z" using classify_Some by blast
        have "\<not> errors_is z ErrPolicy"
          using tx_query_failure [OF env 2 Some] classify_driver_index [of f] z
          by (auto simp: budget_exceeded_def classify_def wrap_def)
        with with_statement_kind [OF x [unfolded z]] res show ?thesis by simp
      next
        case None
        obtain rs where 3: "exec_loop ev m fe md u (i + 1) rest (RowsLeft out) (BytesLeft out) t2 w2 = ((rs, Some x), t', w')"
          and results: "results = Answer out # rs"
          using Cons.prems by (auto simp: 1 2 Inr chk None split: prod.splits)
        have "Status t = Healthy \<Longrightarrow> Status t2 = Healthy"
          using law1 Inr tx_query_law [OF 2] None by auto
        with Cons.IH [OF 3] show ?thesis by (auto simp: results algebra_simps)
      qed
    qed
  qed
qed

text \<open>
  C28: an error of a batch tells which statement it belongs to. A policy error always carries the index
  of the statement after the results returned, which the policy has refused; any other error of the
  module's own type carries the index of the last statement with a result, or -1; and -1 on an error
  after the first result is left to failures of the connection and of the commit: where nothing fails
  on the way to the server, the error of a batch with results is a policy error or has the index of
  the last of them.
\<close>

theorem batch_error_index:
  "env_ok c0 ev \<Longrightarrow> replies_driver ev \<Longrightarrow> Batch ev m fe h sqls w = ((results, Some x), w') \<Longrightarrow>
     length results \<le> length sqls \<and>
     (errors_is x ErrPolicy \<longrightarrow> length results < length sqls \<and>
        (\<exists>s n d p. check fe (sqls ! length results) s (local_map (Reserved m) (ProcNames ev n s d)) = Some p \<and>
           x = IsletError ErrPolicy (Some p) (int (length results)))) \<and>
     (\<forall>k c n. x = IsletError k c n \<longrightarrow> k \<noteq> ErrPolicy \<longrightarrow>
        n = -1 \<or> results \<noteq> [] \<and> n = int (length results) - 1) \<and>
     (faultless ev \<longrightarrow> results \<noteq> [] \<longrightarrow> \<not> errors_is x ErrPolicy \<longrightarrow>
        (\<forall>k c n. x = IsletError k c n \<longrightarrow> n = int (length results) - 1))"
proof -
  assume env: "env_ok c0 ev" "replies_driver ev" and run: "Batch ev m fe h sqls w = ((results, Some x), w')"
  from env(1) run show ?thesis
  proof (cases rule: batch_results)
    case none
    then show ?thesis by (auto simp: unindexed_def)
  next
    case (loop md u t w1 e1 t1 w2)
    show ?thesis
    proof (cases e1)
      case None
      have "length results = length sqls"
        using exec_loop_run [OF loop(1)] None batch_run_length by blast
      with None loop(3) show ?thesis by (auto simp: unindexed_def)
    next
      case (Some y)
      with loop have "exec_loop ev m fe md u 0 sqls (MaxRows (Settings m)) (MaxResultBytes (Settings m)) t w1 =
          ((results, Some x), t1, w2)" by simp
      from exec_loop_error [OF env this] loop(2) show ?thesis by auto
    qed
  qed
qed

section \<open>The two limit errors\<close>

lemma query_kinds:
  "(Closed (query r start now rows bytes) \<longrightarrow> Failure (query r start now rows bytes) = Some budget_exceeded) \<and>
   (Truncated (Answer (query r start now rows bytes)) \<longrightarrow> \<not> Closed (query r start now rows bytes) \<longrightarrow>
      Failure (query r start now rows bytes) = Some (Sentinel ErrResultLimit))"
  by (cases "row_loop rows (header_loop bytes (FieldDescriptions r)) (RawRows r)")
    (simp add: query_def Let_def empty_result_def split: option.split)

lemma limit_error_text:
  "with_statement i (classify (Some (Sentinel ErrResultLimit))) = Some (Sentinel ErrResultLimit)"
  "with_statement i (classify (Some budget_exceeded)) =
     Some (IsletError ErrResultLimit (Some (Errorf ''batch row or byte budget exceeded; transaction rolled back'')) (int i))"
  by (simp_all add: with_statement_def classify_def budget_exceeded_def wrap_def module_sentinels_def)

text \<open>
  An answer over its limits is reported in one of two ways: with rows, by the module's own error
  that carries the index of the statement; when the column names alone are over the limit, by the
  bare sentinel, which carries no index. Within the limits there is no error.
\<close>

theorem limit_errors_differ:
  "budgets_ok r rows bytes \<Longrightarrow> QueryErr r = None \<Longrightarrow> RowsErr r = None \<Longrightarrow>
     with_statement i (classify (Failure (query r start now rows bytes))) =
       (if int (length (RawRows r)) \<le> rows \<and> reply_cost r \<le> bytes then None
        else if RawRows r = [] then Some (Sentinel ErrResultLimit)
        else Some (IsletError ErrResultLimit
          (Some (Errorf ''batch row or byte budget exceeded; transaction rolled back'')) (int i)))"
proof -
  assume ok: "budgets_ok r rows bytes" and r: "QueryErr r = None" "RowsErr r = None"
  note cut = query_cut [OF ok refl, of start now] and exact = query_exact [OF ok refl, of start now]
  show ?thesis
  proof (cases "int (length (RawRows r)) \<le> rows \<and> reply_cost r \<le> bytes")
    case True
    with exact r have "Failure (query r start now rows bytes) = None" by simp
    with True show ?thesis by (simp add: with_statement_def classify_def)
  next
    case False
    then have "int (length (RawRows r)) > rows \<or> reply_cost r > bytes" by linarith
    with cut r have "Truncated (Answer (query r start now rows bytes))"
      and "Closed (query r start now rows bytes) \<longleftrightarrow> RawRows r \<noteq> []" by blast+
    then have "Failure (query r start now rows bytes) =
        (if RawRows r = [] then Some (Sentinel ErrResultLimit) else Some budget_exceeded)"
      using query_kinds [of r start now rows bytes] by simp
    with False show ?thesis by (simp add: limit_error_text)
  qed
qed

theorem limit_errors_differ_witness:
  "with_statement 3 (classify (Failure (query (sample_reply\<lparr>RawRows := []\<rparr>) 5 9 10 4))) = Some (Sentinel ErrResultLimit)"
proof -
  have "budgets_ok (sample_reply\<lparr>RawRows := []\<rparr>) 10 4"
    by (simp add: budgets_ok_def in_memory_def reply_cost_def column_cost_def sample_reply_def)
  from limit_errors_differ [OF this, of 3 5 9] show ?thesis
    by (simp add: sample_reply_def reply_cost_def column_cost_def)
qed

section \<open>Success\<close>

lemma pool_query_calm: "calm ev \<Longrightarrow> pool_query ev f w = (Inr (f (tick w) (store w)), bump w)"
  by (simp add: pool_query_def calmD)

lemma interfere_calm: "calm ev \<Longrightarrow> interfere ev w = w"
  by (simp add: interfere_def calmD)

lemma lookup_calm:
  "calm ev \<Longrightarrow> row_of (store w) i = Some r \<Longrightarrow> lookup ev i w = ((metadata_of i r, None), bump w)"
  by (simp add: lookup_def interfere_calm pool_query_calm select_metadata_def read_metadata_def scan_def)

text \<open>The credentials and privileges \<open>Create\<close> gave a role are those its connection needs.\<close>

lemma connect_calm:
  assumes "calm ev" and ok: "registry_ok (Database (Runtime m)) (store w)" and row: "row_of (store w) i = Some r"
  shows "connect_runtime ev m (metadata_of i r) w = (Inr (runtime_config m (metadata_of i r)), bump w)"
proof -
  from registry_okD(2) [OF ok row] have r: "row_ok (Database (Runtime m)) (store w) i r" .
  then obtain a where a: "roles (store w) (role_of i) = Some a" "unprivileged a" "role_password a = row_password r"
    and name: "role_name r = role_of i"
    by (auto simp: row_ok_def)
  have "(role_of i, ConnectTo (Database (Runtime m))) \<in> grants (store w)"
    using row_ok_privileges [OF r] by (simp add: islet_privileges_def)
  with a name have "authenticate (runtime_config m (metadata_of i r)) (store w) = None"
    by (simp add: authenticate_def runtime_config_def unprivileged_def)
  with assms(1) show ?thesis by (simp add: connect_runtime_def calmD)
qed

lemma enter_calm:
  assumes "calm ev" and ok: "registry_ok c (View t)" and row: "row_of (View t) i = Some r"
    and state: "row_state r = ''active'' \<and> tok = None \<or> row_state r = ''initializing'' \<and> tok \<noteq> None \<and> init_token r = tok"
    and h: "Status t = Healthy"
  shows "enter_tx ev (role_name r) (metadata_of i r) tok t w = (None, t, bump w)"
proof -
  from registry_okD(2) [OF ok row] have r: "row_ok c (View t) i r" .
  then have name: "role_name r = role_of i" by (simp add: row_ok_def)
  have "may_call (role_name r) enter_fn (View t)"
    using row_ok_privileges [OF r] by (simp add: may_call_def islet_privileges_def name)
  moreover have "enter False (role_name r) i (Some (row_generation r)) tok (View t) = Inr ()"
    using row state by (auto simp: enter_def stale_iff enter_allowed_iff)
  ultimately have "call_enter (Busy ev n) (role_name r) i (row_generation r) tok (View t) = Inr (View t)" for n
    using assms(1) by (simp add: call_enter_def calmD split: unit.split)
  with assms(1) h show ?thesis by (simp add: enter_tx_def tx_call_calm exec_error_def)
qed

lemma execute_calm:
  assumes calm: "calm ev" and ok: "registry_ok (Database (Runtime m)) (store w)"
    and row: "row_of (store w) i = Some r" and active: "row_state r = ''active''"
    and dep: "\<And>n. dependency_query (Catalog ev n (store w)) (schema_name r) = None"
    and size: "check_size (Settings m) [sql] = None"
    and policy: "\<And>n. check fe sql (schema_name r) (local_map (Reserved m) (ProcNames ev n (schema_name r) (store w))) = None"
    and reply: "\<And>n a b. Failure (query (fst (Run ev n (role_name r) sql (store w))) a b
        (MaxRows (Settings m)) (MaxResultBytes (Settings m))) = None"
  shows "\<exists>res w'. execute ev m fe (metadata_of i r) [sql] False w = (([res], None), w')"
proof -
  let ?md = "metadata_of i r"
  define w1 where "w1 = bump w"
  define t where "t = \<lparr>View = store w, Saved = None, Status = Healthy\<rparr>"
  have w1: "store w1 = store w" by (simp add: w1_def)
  have user: "User (runtime_config m ?md) = role_name r" by (simp add: runtime_config_def)
  have ent: "enter_tx ev (role_name r) ?md None t v = (None, t, bump v)" for v
    by (rule enter_calm [OF calm, of "Database (Runtime m)"]) (use ok row active in \<open>simp_all add: t_def w1\<close>)
  have dep0: "dependency_error (Inr (dependency_query (Catalog ev n (store w)) (schema_name r))) = None" for n
    using dep by (simp add: dependency_error_def scan_def)
  have loc: "local_functions ev m (schema_name r) t v =
      (Inr (local_map (Reserved m) (ProcNames ev (tick v) (schema_name r) (store w))), t, bump v)" for v
    using calm by (simp add: local_functions_def tx_call_calm t_def w1)
  have qry: "\<exists>out t' v'. tx_query ev (role_name r) sql (MaxRows (Settings m)) (MaxResultBytes (Settings m)) t v =
      (out, t', v') \<and> Failure out = None \<and> Status t' = Healthy" for v
  proof -
    obtain rep d where rep: "Run ev (tick v) (role_name r) sql (store w) = (rep, d)"
      by (cases "Run ev (tick v) (role_name r) sql (store w)") auto
    with reply [of "tick v"] have f: "Failure (query rep a b (MaxRows (Settings m)) (MaxResultBytes (Settings m))) = None" for a b
      by simp
    from query_ok [OF f] have "reply_err rep = None" and "\<not> Closed (query rep a b (MaxRows (Settings m)) (MaxResultBytes (Settings m)))" for a b
      by blast+
    with f rep calm show ?thesis by (simp add: tx_query_def tx_reply_def calmD t_def w1 Let_def)
  qed
  obtain out t' v' where q: "tx_query ev (role_name r) sql (MaxRows (Settings m)) (MaxResultBytes (Settings m)) t
      (bump (bump (bump (bump w1)))) = (out, t', v')" "Failure out = None" "Status t' = Healthy"
    using qry by blast
  have "with_tx ev (\<lambda>e. ([], classify (Some e))) (execute_tx ev m fe ?md [sql] False (runtime_config m ?md)) w1 =
      (([Answer out], None), rollback (bump (v'\<lparr>store := View t'\<rparr>)))"
    using calm ent dep0 loc policy q
    by (simp add: with_tx_def begin_calm t_def [symmetric] execute_tx_def user pool_query_calm w1 commit_calm)
  with size connect_calm [OF calm ok row] show ?thesis
    by (simp add: execute_def w1_def [symmetric])
qed

lemma execute_refused:
  assumes calm: "calm ev" and ok: "registry_ok (Database (Runtime m)) (store w)"
    and row: "row_of (store w) i = Some r" and active: "row_state r = ''active''"
    and dep: "\<And>n. dependency_query (Catalog ev n (store w)) (schema_name r) = None"
    and size: "check_size (Settings m) [sql] = None"
    and policy: "\<And>n. check fe sql (schema_name r) (local_map (Reserved m) (ProcNames ev n (schema_name r) (store w))) = Some p"
  shows "\<exists>w'. execute ev m fe (metadata_of i r) [sql] False w = (([], Some (IsletError ErrPolicy (Some p) 0)), w')"
proof -
  let ?md = "metadata_of i r"
  define w1 where "w1 = bump w"
  define t where "t = \<lparr>View = store w, Saved = None, Status = Healthy\<rparr>"
  have w1: "store w1 = store w" by (simp add: w1_def)
  have user: "User (runtime_config m ?md) = role_name r" by (simp add: runtime_config_def)
  have ent: "enter_tx ev (role_name r) ?md None t v = (None, t, bump v)" for v
    by (rule enter_calm [OF calm, of "Database (Runtime m)"]) (use ok row active in \<open>simp_all add: t_def w1\<close>)
  have dep0: "dependency_error (Inr (dependency_query (Catalog ev n (store w)) (schema_name r))) = None" for n
    using dep by (simp add: dependency_error_def scan_def)
  have loc: "local_functions ev m (schema_name r) t v =
      (Inr (local_map (Reserved m) (ProcNames ev (tick v) (schema_name r) (store w))), t, bump v)" for v
    using calm by (simp add: local_functions_def tx_call_calm t_def w1)
  have "\<exists>w'. with_tx ev (\<lambda>e. ([], classify (Some e))) (execute_tx ev m fe ?md [sql] False (runtime_config m ?md)) w1 =
      (([], Some (IsletError ErrPolicy (Some p) 0)), w')"
    using calm ent dep0 loc policy
    by (simp add: with_tx_def begin_calm t_def [symmetric] execute_tx_def user pool_query_calm w1)
  with size connect_calm [OF calm ok row] show ?thesis
    by (auto simp: execute_def w1_def [symmetric])
qed

text \<open>
  C25: what the components agreed on is enough: on an orderly database and without faults, \<open>Execute\<close>
  of a statement that the policy accepts and PostgreSQL answers within the budgets succeeds for
  every active islet with a current handle. The password and the \<open>CONNECT\<close> privilege suffice to
  connect, the privileges on the gateway to call it, and the gateway lets the role in.
\<close>

theorem execute_succeeds:
  "calm ev \<Longrightarrow> registry_ok (Database (Runtime m)) (store w) \<Longrightarrow> row_of (store w) (ID h) = Some r \<Longrightarrow>
   row_generation r = Generation h \<Longrightarrow> row_state r = ''active'' \<Longrightarrow>
   (\<And>n. dependency_query (Catalog ev n (store w)) (schema_name r) = None) \<Longrightarrow>
   check_size (Settings m) [sql] = None \<Longrightarrow>
   (\<And>n. check fe sql (schema_name r) (local_map (Reserved m) (ProcNames ev n (schema_name r) (store w))) = None) \<Longrightarrow>
   (\<And>n a b. Failure (query (fst (Run ev n (role_name r) sql (store w))) a b
        (MaxRows (Settings m)) (MaxResultBytes (Settings m))) = None) \<Longrightarrow>
     snd (fst (Execute ev m fe h sql w)) = None"
proof -
  assume calm: "calm ev" and ok: "registry_ok (Database (Runtime m)) (store w)"
    and row: "row_of (store w) (ID h) = Some r" "row_generation r = Generation h" "row_state r = ''active''"
    and dep: "\<And>n. dependency_query (Catalog ev n (store w)) (schema_name r) = None"
    and size: "check_size (Settings m) [sql] = None"
    and policy: "\<And>n. check fe sql (schema_name r) (local_map (Reserved m) (ProcNames ev n (schema_name r) (store w))) = None"
    and reply: "\<And>n a b. Failure (query (fst (Run ev n (role_name r) sql (store w))) a b
        (MaxRows (Settings m)) (MaxResultBytes (Settings m))) = None"
  have "\<exists>res w'. execute ev m fe (metadata_of (ID h) r) [sql] False (bump w) = (([res], None), w')"
    by (rule execute_calm [OF calm]) (use ok row dep size policy reply in simp_all)
  with size lookup_calm [OF calm row(1)] row(2) show ?thesis
    by (auto simp: Execute_def Batch_def)
qed

section \<open>A concrete batch\<close>

definition sample_batch :: "string list" where
  "sample_batch = [''SELECT now()'']"

lemma sample_select_anywhere: "schema \<noteq> [] \<Longrightarrow> check sample_frontend ''SELECT now()'' schema local = None"
  by (simp add: sample_defs policy_eval)

lemma sample_limits: "MaxRows (Settings sample_manager) = 1000" "MaxResultBytes (Settings sample_manager) = 4194304"
  by (simp_all add: sample_manager_def sample_config_def default_config_def empty_config_def)

lemma sample_size: "check_size (Settings sample_manager) sample_batch = None"
  by (simp add: sample_manager_def sample_config_def default_config_def empty_config_def check_size_def
      sample_batch_def sub64_def int64_range_def)

lemma sample_run: "Run quiet_env n u sql d = (sample_reply, d)"
  by (simp add: quiet_env_def)

lemma sample_reply_ok:
  "Failure (query (fst (Run quiet_env n u sql d)) a b (MaxRows (Settings sample_manager))
     (MaxResultBytes (Settings sample_manager))) = None"
proof -
  have "budgets_ok sample_reply 1000 4194304" by (simp add: sample_budgets)
  from query_exact [OF this refl, of a b] show ?thesis
    by (simp add: sample_run sample_limits sample_reply_def reply_cost_def column_cost_def raw_cost_def raw_length_def)
qed

lemma sample_islet:
  obtains r where "row_of (store created_world) (ID sample_handle) = Some r" "row_generation r = Generation sample_handle"
    "row_state r = ''active''" "registry_ok (Database (Runtime sample_manager)) (store created_world)"
    "schema_name r = schema_of sample_id"
proof -
  obtain r where row: "row_of (store created_world) sample_id = Some r" "row_generation r = 1"
    "row_state r = ''active''" and ok: "registry_ok ''app'' (store created_world)"
    using sample_created by metis
  moreover from registry_okD(2) [OF ok row(1)] have "schema_name r = schema_of sample_id" by (simp add: row_ok_def)
  ultimately show ?thesis using that by (simp add: sample_manager_def)
qed

lemma sample_batch_runs:
  "\<exists>res w'. Batch quiet_env sample_manager sample_frontend sample_handle sample_batch created_world = (([res], None), w')"
proof -
  obtain r where row: "row_of (store created_world) (ID sample_handle) = Some r" "row_generation r = Generation sample_handle"
    "row_state r = ''active''" and ok: "registry_ok (Database (Runtime sample_manager)) (store created_world)"
    and name: "schema_name r = schema_of sample_id"
    using sample_islet by metis
  have ne: "schema_of sample_id \<noteq> []" by (simp add: schema_of_def)
  have "\<exists>res w'. execute quiet_env sample_manager sample_frontend (metadata_of (ID sample_handle) r) [''SELECT now()''] False
      (bump created_world) = (([res], None), w')"
    by (rule execute_calm [OF quiet_calm])
      (use ok row sample_no_dependency sample_size sample_reply_ok sample_select_anywhere [OF ne]
        in \<open>simp_all add: sample_batch_def name\<close>)
  with lookup_calm [OF quiet_calm row(1)] row(2) sample_size show ?thesis
    by (auto simp: Batch_def sample_batch_def)
qed

lemma quiet_replies: "replies_fit quiet_env" "replies_driver quiet_env" "confined fe reserved quiet_env"
  by (simp_all add: replies_fit_def replies_driver_def confined_def quiet_env_def)
    (simp_all add: in_memory_def sample_reply_def reply_cost_def column_cost_def raw_cost_def raw_length_def reply_err_def)

theorem execute_succeeds_witness:
  "snd (fst (Execute quiet_env sample_manager sample_frontend sample_handle ''SELECT now()'' created_world)) = None"
proof -
  obtain r where row: "row_of (store created_world) (ID sample_handle) = Some r" "row_generation r = Generation sample_handle"
    "row_state r = ''active''" and ok: "registry_ok (Database (Runtime sample_manager)) (store created_world)"
    and name: "schema_name r = schema_of sample_id"
    using sample_islet by metis
  have ne: "schema_name r \<noteq> []" by (simp add: name schema_of_def)
  show ?thesis
    by (rule execute_succeeds [OF quiet_calm ok row])
      (use sample_no_dependency sample_size sample_reply_ok sample_select_anywhere [OF ne]
        in \<open>simp_all add: sample_batch_def\<close>)
qed

theorem batch_all_or_nothing_witness:
  "\<exists>res w'. Batch quiet_env sample_manager sample_frontend sample_handle sample_batch created_world = (([res], None), w') \<and>
     batch_run quiet_env sample_manager sample_frontend (schema_of sample_id) (role_of sample_id) sample_batch
       (store created_world) [res] (store w')"
proof -
  obtain r where ok: "registry_ok (Database (Runtime sample_manager)) (store created_world)"
    using sample_islet by metis
  obtain res w' where run: "Batch quiet_env sample_manager sample_frontend sample_handle sample_batch created_world = (([res], None), w')"
    using sample_batch_runs by blast
  have "found quiet_env d d' \<Longrightarrow> d' = d" for d d' by (auto simp: found_def quiet_began)
  with batch_all_or_nothing [OF quiet_ok ok run] run show ?thesis by auto
qed


theorem batch_within_budgets_witness:
  "\<exists>res w'. Batch quiet_env sample_manager sample_frontend sample_handle sample_batch created_world = (([res], None), w') \<and>
     int (length (Rows res)) \<le> 1000 \<and> result_cost res \<le> 4194304"
proof -
  obtain res w' where run: "Batch quiet_env sample_manager sample_frontend sample_handle sample_batch created_world = (([res], None), w')"
    using sample_batch_runs by blast
  have "valid_config (Settings sample_manager)"
    by (simp add: sample_manager_def sample_config_def valid_config_def normalized_valid [OF normalized_empty, unfolded valid_config_def])
  from batch_within_budgets [OF quiet_ok quiet_replies(1) this _ _ run] run show ?thesis
    by (simp add: sample_limits)
qed

theorem batch_error_index_witness:
  "\<exists>x w'. Batch quiet_env sample_manager sample_frontend sample_handle [''VACUUM''] created_world = (([], Some x), w') \<and>
     (\<exists>p. x = IsletError ErrPolicy (Some p) 0)"
proof -
  obtain r where row: "row_of (store created_world) (ID sample_handle) = Some r" "row_generation r = Generation sample_handle"
    "row_state r = ''active''" and ok: "registry_ok (Database (Runtime sample_manager)) (store created_world)"
    and name: "schema_name r = schema_of sample_id"
    using sample_islet by metis
  have size: "check_size (Settings sample_manager) [''VACUUM''] = None"
    by (simp add: sample_manager_def sample_config_def default_config_def empty_config_def check_size_def
        sub64_def int64_range_def)
  have "check sample_frontend ''VACUUM'' s local = Some (Errorf ''syntax error'')" for s local
    by (simp add: sample_frontend_def policy_eval)
  from execute_refused [OF quiet_calm, of sample_manager "bump created_world", OF _ _ row(3) _ size, of _ sample_frontend, OF _ _ _ this]
  have "\<exists>w'. execute quiet_env sample_manager sample_frontend (metadata_of (ID sample_handle) r) [''VACUUM''] False (bump created_world) =
      (([], Some (IsletError ErrPolicy (Some (Errorf ''syntax error'')) 0)), w')"
    using ok row sample_no_dependency by (simp add: name)
  with lookup_calm [OF quiet_calm row(1)] row(2) size obtain w'
    where run: "Batch quiet_env sample_manager sample_frontend sample_handle [''VACUUM''] created_world =
      (([], Some (IsletError ErrPolicy (Some (Errorf ''syntax error'')) 0)), w')"
    by (auto simp: Batch_def)
  from batch_error_index [OF quiet_ok quiet_replies(2) run] run show ?thesis by auto
qed

section \<open>How an islet ages\<close>

text \<open>
  What an operation with the handle \<open>h\<close> makes of an islet \<open>i\<close> that is there before and after, the
  database having been \<open>d\<close> when the operation got its locks; \<open>batch\<close> when the operation is a batch.
\<close>

definition aged :: "islet \<Rightarrow> bool \<Rightarrow> db \<Rightarrow> db \<Rightarrow> string \<Rightarrow> islet_row \<Rightarrow> islet_row \<Rightarrow> bool" where
  "aged h batch d d' i r r' \<longleftrightarrow>
     schema_name r' = schema_name r \<and> role_name r' = role_name r \<and>
     row_password r' = row_password r \<and> row_created r' = row_created r \<and>
     (if row_generation r' = row_generation r
      then (r' = r \<or> i = ID h \<and> row_generation r = Generation h \<and> row_state r' = ''failed'') \<and>
        (schemas d' (schema_of i) = schemas d (schema_of i) \<or>
         batch \<and> r' = r \<and> i = ID h \<and> row_generation r = Generation h \<and> row_state r = ''active'')
      else \<not> batch \<and> i = ID h \<and> row_generation r = Generation h \<and> row_generation r' = Generation h + 1 \<and>
        row_state r' = ''active'' \<and> init_token r' = None \<and> schemas d' (schema_of i) = Some [])"

lemma aged_same: "schemas d' (schema_of i) = schemas d (schema_of i) \<Longrightarrow> aged h batch d d' i r r"
  by (simp add: aged_def)

lemma aged_failed:
  "row_of d (ID h) = Some s \<Longrightarrow> row_generation s = Generation h \<Longrightarrow> row_of d i = Some r \<Longrightarrow>
   row_of (update_row (ID h) (mark ''failed'' None u) d) i = Some r' \<Longrightarrow>
     aged h batch d (update_row (ID h) (mark ''failed'' None u) d) i r r'"
  by (cases "i = ID h") (auto simp: aged_def mark_def)

lemma aged_emptied:
  assumes ok: "registry_ok c d" and s: "row_of d (ID h) = Some s" "row_generation s = Generation h"
    and tok: "token_ok False token" and rows: "row_of d i = Some r" "row_of d' i = Some r'"
    and d': "d' = update_row (ID h) (next_row (start_state False) token u) (wiped (schema_name s) (role_name s) d)"
  shows "aged h False d d' i r r'"
proof -
  have names: "schema_name s = schema_of (ID h)" using registry_okD(2) [OF ok s(1)] by (simp add: row_ok_def)
  let ?r = "next_row (start_state False) token u s"
  have new: "schema_name ?r = schema_name s" "role_name ?r = role_name s" "row_password ?r = row_password s"
    "row_created ?r = row_created s" "row_generation ?r = row_generation s + 1" "init_token ?r = None" "row_state ?r = ''active''"
    using tok by (simp_all add: next_row_def mark_def start_state_def token_ok_def nullif_empty_def)
  show ?thesis
  proof (cases "i = ID h")
    case True
    with rows(1) s(1) have r: "r = s" by simp
    have "row_of d' i = Some ?r" using s(1) True by (simp add: d')
    with rows(2) have "r' = ?r" by simp
    with new s(2) True r show ?thesis by (simp add: aged_def) (simp add: d' names)
  next
    case False
    with rows have "r' = r" by (simp add: d')
    with False show ?thesis by (auto intro: aged_same simp: d' names)
  qed
qed

lemma reset_ages:
  assumes ok: "registry_ok c d" and post: "reset_post d h False recovering ((h', e), w')"
    and rows: "row_of d i = Some r" "row_of (store w') i = Some r'"
  shows "aged h False d (store w') i r r'"
proof -
  from post consider "store w' = d"
    | s u where "row_of d (ID h) = Some s" "row_generation s = Generation h" "store w' = update_row (ID h) (mark ''failed'' None u) d"
    | s u token where "row_of d (ID h) = Some s" "row_generation s = Generation h" "token_ok False token"
        "store w' = update_row (ID h) (next_row (start_state False) token u) (wiped (schema_name s) (role_name s) d)"
    unfolding reset_post_def prod.case by blast
  then show ?thesis
  proof cases
    case 1
    with rows show ?thesis by (simp add: aged_same)
  next
    case (2 s u)
    with aged_failed [OF 2(1,2) rows(1)] rows(2) show ?thesis by simp
  next
    case (3 s u token)
    from aged_emptied [OF ok 3(1-3) rows 3(4)] show ?thesis .
  qed
qed

lemma delete_ages:
  assumes ok: "registry_ok c d" and post: "delete_post d h (e, w')"
    and rows: "row_of d i = Some r" "row_of (store w') i = Some r'"
  shows "aged h False d (store w') i r r'"
proof -
  from post consider "store w' = d"
    | s u where "row_of d (ID h) = Some s" "row_generation s = Generation h" "store w' = update_row (ID h) (mark ''failed'' None u) d"
    | s where "row_of d (ID h) = Some s" "store w' = delete_row (ID h) (purged (schema_name s) (role_name s) d)"
    unfolding delete_post_def prod.case by blast
  then show ?thesis
  proof cases
    case 1
    with rows show ?thesis by (simp add: aged_same)
  next
    case (2 s u)
    with aged_failed [OF 2(1,2) rows(1)] rows(2) show ?thesis by simp
  next
    case (3 s)
    then have "schema_name s = schema_of (ID h)" using registry_okD(2) [OF ok] by (simp add: row_ok_def)
    with rows 3 show ?thesis by (auto intro: aged_same split: if_splits)
  qed
qed

lemma create_ages:
  assumes post: "create_post m initializing d ((h', e), w')"
    and rows: "row_of d i = Some r" "row_of (store w') i = Some r'"
  shows "aged h False d (store w') i r r'"
proof -
  from post consider "store w' = d"
    | j s where "row_of d j = None"
        "insert_row j s (provisioned (Database (Runtime m)) j (islet_attrs m j (row_password s)) d) = Inr (store w')"
    unfolding create_post_def prod.case by blast
  then show ?thesis
  proof cases
    case 1
    with rows show ?thesis by (simp add: aged_same)
  next
    case (2 j s)
    from 2(1) rows have "i \<noteq> j" by auto
    with row_of_insert [OF 2(2)] insert_row_frame [OF 2(2)] rows show ?thesis by (auto intro: aged_same)
  qed
qed

lemma batch_ages:
  assumes ok: "registry_ok c d" and conf: "confined fe (Reserved m) ev"
    and post: "batch_post ev m fe h sqls d ((results, e), w')"
    and rows: "row_of d i = Some r" "row_of (store w') i = Some r'"
  shows "aged h True d (store w') i r r'"
proof -
  from batch_post_effect [OF post ok conf] consider "store w' = d"
    | s x where "row_of d (ID h) = Some s" "row_generation s = Generation h" "row_state s = ''active''"
        "store w' = d\<lparr>schemas := (schemas d)(schema_of (ID h) \<mapsto> x)\<rparr>" by blast
  then show ?thesis
  proof cases
    case 1
    with rows show ?thesis by (simp add: aged_same)
  next
    case (2 s x)
    with rows have "r' = r" by (simp add: row_of_def)
    with 2 rows show ?thesis by (cases "i = ID h") (simp_all add: aged_def)
  qed
qed



end
