(* ===== verification/Initialize.thy ===== *)
theory Initialize
  imports BatchSafety
begin

text \<open>
  Initialization (\<open>initialize\<close>, \<open>CreateWithInitialization\<close> and \<open>Reinitialize\<close> in
  \<open>internal/engine/lifecycle.go\<close>): the caller's statements run under the token of an islet that is
  initializing, and a failure is recorded, on a context of its own, only for that generation while
  it is still initializing.
\<close>

section \<open>The operations\<close>

text \<open>\<open>UPDATE ... SET state='failed' ... WHERE id=$1 AND generation=$2 AND state='initializing'\<close>.\<close>

definition fail_initializing :: "string \<Rightarrow> int \<Rightarrow> int \<Rightarrow> db \<Rightarrow> db" where
  "fail_initializing i g now d =
     update_row i (\<lambda>r. if row_generation r = g \<and> row_state r = ''initializing''
                       then mark ''failed'' None now r else r) d"

definition initialize_islet ::
  "env \<Rightarrow> manager \<Rightarrow> frontend \<Rightarrow> islet \<Rightarrow> string list \<Rightarrow> world \<Rightarrow> (islet \<times> err) \<times> world" where
  "initialize_islet ev m fe h sqls w =
     (case lookup ev (ID h) w of
        ((md, e0), w) \<Rightarrow>
     (case (if e0 = None \<and> Generation md \<noteq> Generation h then Some (Sentinel ErrStaleGeneration) else e0) of
        e1 \<Rightarrow>
     (case (if e1 = None then (case execute ev m fe md sqls True w of ((_, e), w) \<Rightarrow> (e, w)) else (e1, w)) of
        (Some e, w) \<Rightarrow>
          (case pool_exec ev (fail_initializing (ID h) (Generation h)) w of
             (stateErr, w) \<Rightarrow>
               (case open_islet ev (ID h) w of
                  ((current, openErr), w) \<Rightarrow>
                    (((if openErr = None then current else h),
                      Some (wrap ErrInitialization (errors_join [Some e, stateErr, openErr]))), w)))
      | (None, w) \<Rightarrow>
          (case open_islet ev (ID h) w of
             ((current, Some e), w) \<Rightarrow> ((h\<lparr>State := ''active''\<rparr>, Some e), w)
           | ((current, None), w) \<Rightarrow> ((current, None), w)))))"

definition CreateWithInitialization ::
  "env \<Rightarrow> manager \<Rightarrow> frontend \<Rightarrow> string list \<Rightarrow> world \<Rightarrow> (islet \<times> err) \<times> world" where
  "CreateWithInitialization ev m fe sqls w =
     (case check_size (Settings m) sqls of
        Some e \<Rightarrow> ((no_islet, Some e), w)
      | None \<Rightarrow>
     (case create_islet ev m True w of
        ((h, Some e), w) \<Rightarrow> ((h, Some e), w)
      | ((h, None), w) \<Rightarrow> initialize_islet ev m fe h sqls w))"

definition Reinitialize ::
  "env \<Rightarrow> manager \<Rightarrow> frontend \<Rightarrow> islet \<Rightarrow> string list \<Rightarrow> world \<Rightarrow> (islet \<times> err) \<times> world" where
  "Reinitialize ev m fe h sqls w =
     (case check_size (Settings m) sqls of
        Some e \<Rightarrow> ((h, Some e), w)
      | None \<Rightarrow>
     (case reset ev h True False w of
        ((next, Some e), w) \<Rightarrow> ((next, Some e), w)
      | ((next, None), w) \<Rightarrow> initialize_islet ev m fe next sqls w))"

section \<open>Recording the failure\<close>

lemma update_row_id: "(\<And>r. row_of d i = Some r \<Longrightarrow> f r = r) \<Longrightarrow> distinct (map fst (islets d)) \<Longrightarrow> update_row i f d = d"
proof -
  assume id: "\<And>r. row_of d i = Some r \<Longrightarrow> f r = r" and dist: "distinct (map fst (islets d))"
  have "(case x of (j, r) \<Rightarrow> (j, if j = i then f r else r)) = x" if "x \<in> set (islets d)" for x
  proof (cases x)
    case (Pair j r)
    with that dist have "row_of d j = Some r" by (simp add: row_of_def map_of_is_SomeI)
    with id [of r] Pair show ?thesis by auto
  qed
  then have "map (\<lambda>(j, r). (j, if j = i then f r else r)) (islets d) = islets d"
    by (simp add: map_idI)
  then show ?thesis by (simp add: update_row_def)
qed

lemma update_row_cong:
  assumes "\<And>r. row_of d i = Some r \<Longrightarrow> f r = g r" and "distinct (map fst (islets d))"
  shows "update_row i f d = update_row i g d"
proof -
  have "(case x of (j, r) \<Rightarrow> (j, if j = i then f r else r)) = (case x of (j, r) \<Rightarrow> (j, if j = i then g r else r))"
    if "x \<in> set (islets d)" for x
  proof (cases x)
    case (Pair j r)
    with that assms(2) have "row_of d j = Some r" by (simp add: row_of_def map_of_is_SomeI)
    with assms(1) [of r] Pair show ?thesis by auto
  qed
  then show ?thesis by (simp add: update_row_def cong: map_cong)
qed

lemma fail_initializing_cases:
  assumes "registry_ok c d"
  shows "fail_initializing i g now d =
     (case row_of d i of
        Some r \<Rightarrow> if row_generation r = g \<and> row_state r = ''initializing''
                  then update_row i (mark ''failed'' None now) d else d
      | None \<Rightarrow> d)"
proof -
  have dist: "distinct (map fst (islets d))" using registry_okD(1) [OF assms] .
  show ?thesis
  proof (cases "row_of d i")
    case None
    then have "fail_initializing i g now d = d"
      unfolding fail_initializing_def by (intro update_row_id dist) simp
    with None show ?thesis by simp
  next
    case (Some r)
    show ?thesis
    proof (cases "row_generation r = g \<and> row_state r = ''initializing''")
      case True
      then have "fail_initializing i g now d = update_row i (mark ''failed'' None now) d"
        unfolding fail_initializing_def using Some by (intro update_row_cong dist) simp
      with Some True show ?thesis by simp
    next
      case False
      then have "fail_initializing i g now d = d"
        unfolding fail_initializing_def using Some by (intro update_row_id dist) auto
      with Some False show ?thesis by auto
    qed
  qed
qed

lemma fail_initializing_change: "registry_ok c d \<Longrightarrow> changes c d (fail_initializing i g now d)"
  by (auto simp: fail_initializing_cases split: option.split intro!: r_into_rtranclp change_refl intro: change.failed)

section \<open>The protocol is kept\<close>

lemma others_changes: "env_ok c ev \<Longrightarrow> registry_ok c d \<Longrightarrow> changes c d (Others ev n d)"
  by (simp add: env_ok_def)

lemma open_changes:
  assumes env: "env_ok c ev" and ok: "registry_ok c (store w)" and run: "open_islet ev i w = ((h, e), w')"
  shows "changes c (store w) (store w')"
proof -
  obtain md e1 where "lookup ev i w = ((md, e1), w')"
    using run by (auto simp: open_islet_def split: prod.splits)
  from lookup_law [OF this] show ?thesis using began_changes [OF env ok] by blast
qed

lemma pool_exec_changes:
  assumes env: "env_ok c ev" and ok: "registry_ok c (store w)"
    and run: "pool_exec ev (fail_initializing i g) w = (e, w')"
  shows "changes c (store w) (store w')"
proof -
  let ?d = "Others ev (tick w) (store w)"
  have 1: "changes c (store w) ?d" by (rule others_changes [OF env ok])
  then have okd: "registry_ok c ?d" using changes_registry_ok ok by blast
  from pool_exec_law [OF run] obtain u where "store w' \<in> {?d, fail_initializing i g u ?d}" by blast
  with 1 fail_initializing_change [OF okd, of i g u] show ?thesis by (auto intro: rtranclp_trans)
qed

lemma execute_changes:
  assumes env: "env_ok c ev" and ok: "registry_ok c (store w)" and conf: "confined fe (Reserved m) ev"
    and md: "md_schema md = schema_of (ID md)" "md_role md = role_of (ID md)"
    and run: "execute ev m fe md sqls initializing w = ((results, e), w')"
  shows "changes c (store w) (store w')"
proof -
  obtain d where d: "d = store w \<or> began ev (store w) d"
    and post: "execute_post ev m fe md sqls initializing d ((results, e), w')"
    using execute_outcome [of w ev m fe md sqls initializing] unfolding run .
  from d have ch: "changes c (store w) d" using began_changes [OF env ok] by auto
  then have okd: "registry_ok c d" using changes_registry_ok ok by blast
  from post consider "store w' = d"
    | r d2 u where "entered d md initializing r"
        "batch_run ev m fe (md_schema md) (md_role md) sqls d results d2"
        "store w' = (if initializing then update_row (ID md) (mark ''active'' None u) d2 else d2)"
    unfolding execute_post_def prod.case by blast
  then show ?thesis
  proof cases
    case 1
    with ch show ?thesis by simp
  next
    case (2 r d2 u)
    then have row: "row_of d (ID md) = Some r" by (simp add: entered_def)
    from registry_okD(2) [OF okd row] have name: "schema_name r = schema_of (ID md)" by (simp add: row_ok_def)
    obtain x where d2: "d2 = d\<lparr>schemas := (schemas d)(schema_of (ID md) \<mapsto> x)\<rparr>"
      using batch_in_schema [OF 2(2) [unfolded md(2)] conf okd row md(1)] by blast
    have "change c d d2"
      unfolding d2 name [symmetric] using 2(1) by (intro change.ran [OF row]) (auto simp: entered_def split: if_splits)
    moreover have "changes c d2 (store w')"
    proof (cases initializing)
      case True
      have "row_of d2 (ID md) = Some r" using row by (simp add: d2 row_of_def)
      moreover have "row_state r = ''initializing''" using 2(1) True by (simp add: entered_def)
      ultimately have "change c d2 (store w')" using 2(3) True change.finished by simp
      then show ?thesis by blast
    qed (use 2 in simp)
    ultimately show ?thesis using ch by (meson converse_rtranclp_into_rtranclp rtranclp_trans)
  qed
qed

lemma initialize_changes:
  assumes env: "env_ok c ev" and ok: "registry_ok c (store w)" and conf: "confined fe (Reserved m) ev"
    and run: "initialize_islet ev m fe h sqls w = ((h', e), w')"
  shows "changes c (store w) (store w')"
proof -
  obtain md e0 w1 where 1: "lookup ev (ID h) w = ((md, e0), w1)" by (cases "lookup ev (ID h) w") auto
  note law = lookup_law [OF 1]
  then have c1: "changes c (store w) (store w1)" using began_changes [OF env ok] by blast
  then have ok1: "registry_ok c (store w1)" using changes_registry_ok ok by blast
  define e1 where "e1 = (if e0 = None \<and> Generation md \<noteq> Generation h then Some (Sentinel ErrStaleGeneration) else e0)"
  obtain e2 w2 where 2: "(if e1 = None then (case execute ev m fe md sqls True w1 of ((_, e), w) \<Rightarrow> (e, w)) else (e1, w1)) = (e2, w2)"
    by (metis surj_pair)
  have "changes c (store w1) (store w2)"
  proof (cases "e1 = None")
    case True
    then obtain r where r: "row_of (store w1) (ID h) = Some r" "md = metadata_of (ID h) r"
      using law by (auto simp: e1_def split: if_splits)
    from registry_okD(2) [OF ok1 r(1)] have "md_schema md = schema_of (ID md)" "md_role md = role_of (ID md)"
      by (simp_all add: row_ok_def r(2))
    moreover obtain results where "execute ev m fe md sqls True w1 = ((results, e2), w2)"
      using 2 True by (auto split: prod.splits)
    ultimately show ?thesis using execute_changes [OF env ok1 conf] by blast
  qed (use 2 in auto)
  with c1 have c2: "changes c (store w) (store w2)" by (rule rtranclp_trans)
  then have ok2: "registry_ok c (store w2)" using changes_registry_ok ok by blast
  show ?thesis
  proof (cases e2)
    case None
    obtain cur e3 w3 where 3: "open_islet ev (ID h) w2 = ((cur, e3), w3)" by (cases "open_islet ev (ID h) w2") auto
    have "w' = w3"
      using run unfolding initialize_islet_def 1 prod.case e1_def [symmetric] 2 None option.case 3
      by (simp split: option.splits)
    with c2 open_changes [OF env ok2 3] show ?thesis by (simp add: rtranclp_trans)
  next
    case (Some x)
    obtain se w3 where 3: "pool_exec ev (fail_initializing (ID h) (Generation h)) w2 = (se, w3)" by (cases "pool_exec ev (fail_initializing (ID h) (Generation h)) w2") auto
    obtain cur e4 w4 where 4: "open_islet ev (ID h) w3 = ((cur, e4), w4)" by (cases "open_islet ev (ID h) w3") auto
    have w': "w' = w4"
      using run unfolding initialize_islet_def 1 prod.case e1_def [symmetric] 2 Some option.case 3 4
      by simp
    from c2 pool_exec_changes [OF env ok2 3] have c3: "changes c (store w) (store w3)" by (rule rtranclp_trans)
    then have ok3: "registry_ok c (store w3)" using changes_registry_ok ok by blast
    from c3 open_changes [OF env ok3 4] show ?thesis by (simp add: w' rtranclp_trans)
  qed
qed

end
