(* ===== verification/Web.thy ===== *)
theory Web
  imports Guard Initialize "HOL-Library.AList"
begin

text \<open>
  The sessions and handlers of the web example (\<open>examples/web/sessions.go\<close>, \<open>handlers.go\<close>,
  \<open>errors.go\<close>, \<open>seed.go\<close>, \<open>decode\<close> and \<open>respond\<close> of \<open>server.go\<close>). The server's own state is its
  table of sessions and the count of pending ones, both under one mutex: a handler is a sequence of
  critical sections, between which other handlers may have run (\<open>Peers\<close>), and of calls of the
  manager. Bodies are values; their JSON text is not modelled.
\<close>

section \<open>State\<close>

record session =
  Sid :: string
  Used :: int

text \<open>\<open>beat\<close> counts the critical sections.\<close>

record site =
  sessions :: "(string \<times> session) list"
  pending :: int
  beat :: nat

text \<open>
  What other handlers do before a critical section, the readings of the clock in it, the bytes of
  \<open>rand.Read\<close>, and the order in which \<open>Cleanup\<close> meets the expired sessions (Go's maps have none).
\<close>

record web =
  Peers :: "nat \<Rightarrow> site \<Rightarrow> site"
  Now :: "nat \<Rightarrow> nat \<Rightarrow> int"
  TokenBytes :: "nat \<Rightarrow> nat list"
  Order :: "(string \<times> session) list \<Rightarrow> (string \<times> session) list"

definition session_ttl :: int where
  "session_ttl = 30 * 60 * second"

definition max_sessions :: int where
  "max_sessions = 32"

definition locked :: "web \<Rightarrow> ((nat \<Rightarrow> int) \<Rightarrow> site \<Rightarrow> 'a \<times> site) \<Rightarrow> site \<Rightarrow> 'a \<times> site" where
  "locked we f s =
     (case f (Now we (beat s)) (Peers we (beat s) s) of (a, s') \<Rightarrow> (a, s'\<lparr>beat := beat s + 1\<rparr>))"

section \<open>Critical sections\<close>

definition alive :: "int \<Rightarrow> session \<Rightarrow> bool" where
  "alive now item \<longleftrightarrow> now - Used item < session_ttl"

text \<open>In \<open>current\<close>: an item that is alive is used now.\<close>

definition touch :: "string \<Rightarrow> (nat \<Rightarrow> int) \<Rightarrow> site \<Rightarrow> session option \<times> site" where
  "touch c now s =
     (case map_of (sessions s) c of
        None \<Rightarrow> (None, s)
      | Some item \<Rightarrow>
          if alive (now 0) item
          then (let item = item\<lparr>Used := now 1\<rparr> in (Some item, s\<lparr>sessions := AList.update c item (sessions s)\<rparr>))
          else (None, s))"

text \<open>In \<open>start\<close>: is the session alive, is there room, and what follows.\<close>

definition is_alive :: "string \<Rightarrow> (nat \<Rightarrow> int) \<Rightarrow> site \<Rightarrow> bool \<times> site" where
  "is_alive c now s = ((case map_of (sessions s) c of None \<Rightarrow> False | Some item \<Rightarrow> alive (now 0) item), s)"

definition admit :: "(nat \<Rightarrow> int) \<Rightarrow> site \<Rightarrow> bool \<times> site" where
  "admit now s =
     (if int (length (sessions s)) + pending s \<ge> max_sessions then (False, s)
      else (True, s\<lparr>pending := pending s + 1\<rparr>))"

definition publish :: "string \<Rightarrow> string \<Rightarrow> (nat \<Rightarrow> int) \<Rightarrow> site \<Rightarrow> unit \<times> site" where
  "publish key i now s =
     ((), s\<lparr>sessions := AList.update key \<lparr>Sid = i, Used = now 0\<rparr> (sessions s)\<rparr>)"

definition release :: "(nat \<Rightarrow> int) \<Rightarrow> site \<Rightarrow> unit \<times> site" where
  "release now s = ((), s\<lparr>pending := pending s - 1\<rparr>)"

text \<open>In \<open>end\<close> and \<open>Cleanup\<close>.\<close>

definition forget :: "string \<Rightarrow> (nat \<Rightarrow> int) \<Rightarrow> site \<Rightarrow> unit \<times> site" where
  "forget c now s = ((), s\<lparr>sessions := AList.delete c (sessions s)\<rparr>)"

definition is_expired :: "bool \<Rightarrow> (nat \<Rightarrow> int) \<Rightarrow> nat \<times> string \<times> session \<Rightarrow> bool" where
  "is_expired all now x \<longleftrightarrow> all \<or> \<not> alive (now (fst x)) (snd (snd x))"

definition expire :: "bool \<Rightarrow> (nat \<Rightarrow> int) \<Rightarrow> site \<Rightarrow> (string \<times> session) list \<times> site" where
  "expire all now s =
     (let items = List.enumerate 0 (sessions s)
      in (map snd (filter (is_expired all now) items),
          s\<lparr>sessions := map snd (filter (\<lambda>x. \<not> is_expired all now x) items)\<rparr>))"

definition restore :: "string \<Rightarrow> session \<Rightarrow> (nat \<Rightarrow> int) \<Rightarrow> site \<Rightarrow> unit \<times> site" where
  "restore c item now s = ((), s\<lparr>sessions := AList.update c item (sessions s)\<rparr>)"

section \<open>Responses\<close>

text \<open>\<open>Renew\<close> is the cookie of \<open>setCookie\<close>, \<open>Expire\<close> the one of \<open>end\<close>.\<close>

datatype cookie = Renew string bool | Expire

record answer =
  AnsColumns :: "column list"
  AnsRows :: "go_any list list"
  AnsTag :: string
  AnsAffected :: int
  AnsMicros :: int
  AnsTruncated :: bool

text \<open>\<open>present\<close>: \<open>durationMs\<close> is a thousandth of \<open>AnsMicros\<close>; Go's division truncates.\<close>

definition present :: "result \<Rightarrow> answer" where
  "present r =
     \<lparr>AnsColumns = Columns r, AnsRows = Rows r, AnsTag = CommandTag r, AnsAffected = RowsAffected r,
      AnsMicros = (if Duration r < 0 then - (- Duration r div 1000) else Duration r div 1000),
      AnsTruncated = Truncated r\<rparr>"

record listing =
  TableName :: string
  TableKind :: string
  TableColumns :: "(string \<times> string) list"

datatype body =
    IsletBody islet
  | ErrorBody api_error "answer option"
  | ResultBody answer
  | TablesBody "listing list" islet
  | DeletedBody

record response =
  Code :: nat
  Body :: body
  Cookies :: "cookie list"

definition respond :: "nat \<Rightarrow> body \<Rightarrow> response" where
  "respond status body = \<lparr>Code = status, Body = body, Cookies = []\<rparr>"

definition write_error :: "nat \<Rightarrow> string \<Rightarrow> string \<Rightarrow> response" where
  "write_error status kind message = respond status (ErrorBody (plain_error kind message) None)"

text \<open>The cookies set before the response is written.\<close>

definition with_cookie :: "cookie \<Rightarrow> response \<Rightarrow> response" where
  "with_cookie c r = r\<lparr>Cookies := c # Cookies r\<rparr>"

section \<open>report\<close>

definition problem :: "go_error \<Rightarrow> nat \<times> api_error" where
  "problem e =
     (if errors_is e ErrOutcomeUnknown then
        (500, plain_error ''unknown'' ''The commit outcome is unknown. Check the data before retrying.'')
      else if errors_is e ErrBusy \<or> errors_is e ErrStaleGeneration then
        (409, plain_error ''busy'' ''Another operation is running or the workspace has changed. Try again shortly.'')
      else if errors_is e ErrFailed \<or> errors_is e ErrUnavailable then
        (409, plain_error ''unavailable'' ''The workspace is unavailable. Restore the sample data or clear the workspace.'')
      else if errors_is e ErrNotFound then
        (401, plain_error ''session'' ''Workspace not found. Reconnect to continue.'')
      else if errors_is e ErrTimeout then
        (408, plain_error ''timeout'' ''Execution timed out. The operation was not committed.'')
      else if errors_is e ErrResultLimit then
        (422, plain_error ''limit'' ''The result limit was exceeded and the entire operation was rolled back. Adjust LIMIT or narrow the query.'')
      else if errors_is e ErrSQLTooLarge then
        (413, plain_error ''limit'' ''SQL input is too large.'')
      else if errors_is e ErrPolicy then
        (400, plain_error ''policy'' ''SQL is not allowed. Run one statement without role, session, or schema management commands.'')
      else if errors_is e ErrRuntimeConnection then
        (503, plain_error ''connection'' ''Unable to connect to PostgreSQL.'')
      else
        (let internal = plain_error ''internal'' ''Unable to complete the operation. Check the server logs and connection.''
         in if errors_is e ErrQuery then
              (400, (case as_pg e of
                       None \<Rightarrow> internal\<lparr>Kind := ''query''\<rparr>
                     | Some p \<Rightarrow> \<lparr>Kind = ''query'', Text = Message p, SqlCode = pg_error.Code p, SqlDetail = Detail p,
                                  SqlHint = Hint p, SqlPosition = Position p\<rparr>))
            else (500, internal)))"

definition report :: "go_error \<Rightarrow> result option \<Rightarrow> response" where
  "report e r =
     (case problem e of (status, p) \<Rightarrow> respond status (ErrorBody p (map_option present r)))"

section \<open>Sessions\<close>

text \<open>\<open>current\<close>: the islet of the request's session, or the response that ends the request.\<close>

definition expired_session :: response where
  "expired_session = write_error 401 ''session'' ''The workspace has expired. Reconnect to continue.''"

definition current ::
  "web \<Rightarrow> env \<Rightarrow> request \<Rightarrow> site \<Rightarrow> world \<Rightarrow> (response + islet \<times> cookie) \<times> site \<times> world" where
  "current we ev r s w =
     (case CookieValue r of
        None \<Rightarrow> (Inl expired_session, s, w)
      | Some c \<Rightarrow>
     (case locked we (touch c) s of
        (None, s) \<Rightarrow> (Inl expired_session, s, w)
      | (Some item, s) \<Rightarrow>
     (case open_islet ev (Sid item) w of
        ((h, Some e), w) \<Rightarrow> (Inl (report e None), s, w)
      | ((h, None), w) \<Rightarrow> (Inr (h, Renew c (Tls r)), s, w))))"

definition remove :: "env \<Rightarrow> manager \<Rightarrow> string \<Rightarrow> world \<Rightarrow> err \<times> world" where
  "remove ev m i w =
     (case open_islet ev i w of
        ((h, e), w) \<Rightarrow>
     (if is_err e ErrNotFound then (None, w)
      else if e \<noteq> None then (e, w)
      else if State h = ''initializing'' then
        (case Recover ev h w of
           ((h, Some e), w) \<Rightarrow> (Some e, w)
         | ((h, None), w) \<Rightarrow> Delete ev m h w)
      else Delete ev m h w))"

definition seed :: "string list" where
  "seed =
     [''CREATE TABLE customers (id int PRIMARY KEY, name text NOT NULL, city text NOT NULL)'',
      ''CREATE TABLE products (id int PRIMARY KEY, name text NOT NULL, category text NOT NULL, price int NOT NULL CHECK(price >= 0))'',
      ''CREATE TABLE orders (id int PRIMARY KEY, customer_id int REFERENCES customers(id), product_id int REFERENCES products(id), quantity int NOT NULL CHECK(quantity > 0))'',
      ''INSERT INTO customers VALUES (1,'Alice','Seoul'),(2,'Bob','Busan'),(3,'Charlie','Jeju')'',
      ''INSERT INTO products VALUES (1,'Mechanical keyboard','Desk',129000),(2,'Desk lamp','Desk',48000),(3,'Canvas tote','Everyday',24000),(4,'Travel mug','Everyday',32000),(5,'Notebook set','Stationery',18000),(6,'Monitor stand','Desk',65000)'',
      ''INSERT INTO orders VALUES (1,1,1,1),(2,1,4,2),(3,2,2,1),(4,3,3,2),(5,2,5,3)'']"

text \<open>The part of \<open>start\<close> between the increment of \<open>pending\<close> and the deferred decrement.\<close>

definition start_admitted ::
  "web \<Rightarrow> env \<Rightarrow> manager \<Rightarrow> frontend \<Rightarrow> request \<Rightarrow> site \<Rightarrow> world \<Rightarrow> response \<times> site \<times> world" where
  "start_admitted we ev m fe r s w =
     (let token = TokenBytes we (beat s)
      in case CreateWithInitialization ev m fe seed w of
           ((h, Some e), w) \<Rightarrow>
             (case (if ID h \<noteq> [] then remove ev m (ID h) w else (None, w)) of
                (_, w) \<Rightarrow> (report e None, s, w))
         | ((h, None), w) \<Rightarrow>
             (let key = hex_encode token
              in case locked we (publish key (ID h)) s of
                   (_, s) \<Rightarrow> (with_cookie (Renew key (Tls r)) (respond 201 (IsletBody h)), s, w)))"

definition start_new ::
  "web \<Rightarrow> env \<Rightarrow> manager \<Rightarrow> frontend \<Rightarrow> request \<Rightarrow> site \<Rightarrow> world \<Rightarrow> response \<times> site \<times> world" where
  "start_new we ev m fe r s w =
     (case locked we admit s of
        (False, s) \<Rightarrow> (write_error 503 ''capacity'' ''All workspace slots are in use. Try again shortly.'', s, w)
      | (True, s) \<Rightarrow>
          (case start_admitted we ev m fe r s w of
             (resp, s, w) \<Rightarrow> (case locked we release s of (_, s) \<Rightarrow> (resp, s, w))))"

definition start ::
  "web \<Rightarrow> env \<Rightarrow> manager \<Rightarrow> frontend \<Rightarrow> request \<Rightarrow> site \<Rightarrow> world \<Rightarrow> response \<times> site \<times> world" where
  "start we ev m fe r s w =
     (case CookieValue r of
        None \<Rightarrow> start_new we ev m fe r s w
      | Some c \<Rightarrow>
     (case locked we (is_alive c) s of
        (False, s) \<Rightarrow> start_new we ev m fe r s w
      | (True, s) \<Rightarrow>
     (case current we ev r s w of
        (Inl resp, s, w) \<Rightarrow> (resp, s, w)
      | (Inr (h, k), s, w) \<Rightarrow> (with_cookie k (respond 200 (IsletBody h)), s, w))))"

definition end_session ::
  "web \<Rightarrow> env \<Rightarrow> manager \<Rightarrow> request \<Rightarrow> site \<Rightarrow> world \<Rightarrow> response \<times> site \<times> world" where
  "end_session we ev m r s w =
     (case current we ev r s w of
        (Inl resp, s, w) \<Rightarrow> (resp, s, w)
      | (Inr (h, k), s, w) \<Rightarrow>
     (case remove ev m (ID h) w of
        (Some e, w) \<Rightarrow> (with_cookie k (report e None), s, w)
      | (None, w) \<Rightarrow>
     (case locked we (forget (the (CookieValue r))) s of
        (_, s) \<Rightarrow> (with_cookie k (with_cookie Expire (respond 200 DeletedBody)), s, w))))"

text \<open>\<open>Cleanup\<close>: what could not be removed goes back into the table.\<close>

fun cleanup_loop ::
  "web \<Rightarrow> env \<Rightarrow> manager \<Rightarrow> (string \<times> session) list \<Rightarrow> site \<Rightarrow> world \<Rightarrow> err list \<times> site \<times> world" where
  "cleanup_loop we ev m [] s w = ([], s, w)"
| "cleanup_loop we ev m ((c, item) # rest) s w =
     (case remove ev m (Sid item) w of
        (None, w) \<Rightarrow> cleanup_loop we ev m rest s w
      | (Some e, w) \<Rightarrow>
          (case locked we (restore c item) s of
             (_, s) \<Rightarrow>
               (case cleanup_loop we ev m rest s w of
                  (failures, s, w) \<Rightarrow> (Some e # failures, s, w))))"

definition Cleanup :: "web \<Rightarrow> env \<Rightarrow> manager \<Rightarrow> bool \<Rightarrow> site \<Rightarrow> world \<Rightarrow> err \<times> site \<times> world" where
  "Cleanup we ev m all s w =
     (case locked we (expire all) s of
        (items, s) \<Rightarrow>
          (case cleanup_loop we ev m (Order we items) s w of
             (failures, s, w) \<Rightarrow> (errors_join failures, s, w)))"

section \<open>Handlers\<close>

text \<open>\<open>strings.TrimSpace\<close> leaves nothing: only white space, in UTF-8.\<close>

fun blank :: "string \<Rightarrow> bool" where
  "blank [] \<longleftrightarrow> True"
| "blank (a # s) \<longleftrightarrow>
     (if is_space a then blank s
      else case s of
        b # s' \<Rightarrow>
          if a = CHR 0xC2 \<and> (b = CHR 0x85 \<or> b = CHR 0xA0) then blank s'
          else (case s' of
                  c # s'' \<Rightarrow>
                    ((a = CHR 0xE1 \<and> b = CHR 0x9A \<and> c = CHR 0x80) \<or>
                     (a = CHR 0xE2 \<and> b = CHR 0x80 \<and>
                        (c \<in> {CHR 0xA8, CHR 0xA9, CHR 0xAF} \<or>
                         (128 \<le> (of_char c :: nat) \<and> (of_char c :: nat) \<le> 138))) \<or>
                     (a = CHR 0xE2 \<and> b = CHR 0x81 \<and> c = CHR 0x9F) \<or>
                     (a = CHR 0xE3 \<and> b = CHR 0x80 \<and> c = CHR 0x80)) \<and> blank s''
                | [] \<Rightarrow> False)
      | [] \<Rightarrow> False)"

text \<open>\<open>decode\<close> into the field \<open>sql\<close>.\<close>

definition decode :: "request \<Rightarrow> response + string" where
  "decode r =
     (if hd (split_on (CHR '';'') (Header r ''Content-Type'')) \<noteq> ''application/json''
      then Inl (write_error 415 ''request'' ''A JSON request is required.'')
      else case BodyJson r of
             InvalidJson \<Rightarrow> Inl (write_error 400 ''request'' ''The request is invalid or exceeds 64 KiB.'')
           | SeveralValues \<Rightarrow> Inl (write_error 400 ''request'' ''Send only one JSON value per request.'')
           | Request sql \<Rightarrow> Inr sql)"

definition handle_query ::
  "web \<Rightarrow> env \<Rightarrow> manager \<Rightarrow> frontend \<Rightarrow> request \<Rightarrow> site \<Rightarrow> world \<Rightarrow> response \<times> site \<times> world" where
  "handle_query we ev m fe r s w =
     (case decode r of
        Inl resp \<Rightarrow> (resp, s, w)
      | Inr sql \<Rightarrow>
     (if blank sql then (write_error 400 ''request'' ''Enter SQL to execute.'', s, w)
      else
     (case current we ev r s w of
        (Inl resp, s, w) \<Rightarrow> (resp, s, w)
      | (Inr (h, k), s, w) \<Rightarrow>
     (case Execute ev m fe h sql w of
        ((res, Some e), w) \<Rightarrow> (with_cookie k (report e (Some res)), s, w)
      | ((res, None), w) \<Rightarrow> (with_cookie k (respond 200 (ResultBody (present res))), s, w)))))"

definition handle_change ::
  "web \<Rightarrow> env \<Rightarrow> manager \<Rightarrow> frontend \<Rightarrow> bool \<Rightarrow> request \<Rightarrow> site \<Rightarrow> world \<Rightarrow> response \<times> site \<times> world" where
  "handle_change we ev m fe reseed r s w =
     (case current we ev r s w of
        (Inl resp, s, w) \<Rightarrow> (resp, s, w)
      | (Inr (h, k), s, w) \<Rightarrow>
     (case (if reseed then Reinitialize ev m fe h seed w else Reset ev h w) of
        ((next, Some e), w) \<Rightarrow> (with_cookie k (report e None), s, w)
      | ((next, None), w) \<Rightarrow> (with_cookie k (respond 200 (IsletBody next)), s, w)))"

section \<open>The list of tables\<close>

definition schema_query :: string where
  "schema_query = ''SELECT c.relname, c.relkind::text, a.attname, t.typname'' @ [CHR 0x0A] @
     ''FROM pg_catalog.pg_class c'' @ [CHR 0x0A] @
     ''JOIN pg_catalog.pg_namespace n ON n.oid=c.relnamespace'' @ [CHR 0x0A] @
     ''LEFT JOIN pg_catalog.pg_attribute a ON a.attrelid=c.oid AND a.attnum>0 AND NOT a.attisdropped'' @ [CHR 0x0A] @
     ''LEFT JOIN pg_catalog.pg_type t ON t.oid=a.atttypid'' @ [CHR 0x0A] @
     ''WHERE n.nspname=current_schema() AND c.relkind IN ('r','p','v','m')'' @ [CHR 0x0A] @
     ''ORDER BY c.relname,a.attnum''"

text \<open>\<open>row[i].(string)\<close>: None is a panic, of the index or of the type assertion.\<close>

definition string_at :: "go_any list \<Rightarrow> nat \<Rightarrow> string option" where
  "string_at row i =
     (if i < length row then (case row ! i of StringValue v \<Rightarrow> Some v | NilValue \<Rightarrow> None) else None)"

definition add_column :: "string \<times> string \<Rightarrow> listing list \<Rightarrow> listing list" where
  "add_column c ts =
     (let t = last ts in butlast ts @ [t\<lparr>TableColumns := TableColumns t @ [c]\<rparr>])"

text \<open>The loop over the rows, with the tables so far.\<close>

fun list_tables :: "listing list \<Rightarrow> go_any list list \<Rightarrow> listing list option" where
  "list_tables ts [] = Some ts"
| "list_tables ts (row # rows) =
     (case string_at row 0 of
        None \<Rightarrow> None
      | Some name \<Rightarrow>
     (case (if ts = [] \<or> TableName (last ts) \<noteq> name
            then map_option (\<lambda>k. ts @ [\<lparr>TableName = name, TableKind = k, TableColumns = []\<rparr>]) (string_at row 1)
            else Some ts) of
        None \<Rightarrow> None
      | Some ts \<Rightarrow>
     (if length row \<le> 2 then None
      else if row ! 2 = NilValue then list_tables ts rows
      else case (string_at row 2, string_at row 3) of
             (Some c, Some t) \<Rightarrow> list_tables (add_column (c, t) ts) rows
           | _ \<Rightarrow> None)))"

text \<open>A handler that panics sends no response (None).\<close>

definition handle_schema ::
  "web \<Rightarrow> env \<Rightarrow> manager \<Rightarrow> frontend \<Rightarrow> request \<Rightarrow> site \<Rightarrow> world \<Rightarrow> response option \<times> site \<times> world" where
  "handle_schema we ev m fe r s w =
     (case current we ev r s w of
        (Inl resp, s, w) \<Rightarrow> (Some resp, s, w)
      | (Inr (h, k), s, w) \<Rightarrow>
     (case Execute ev m fe h schema_query w of
        ((res, Some e), w) \<Rightarrow> (Some (with_cookie k (report e None)), s, w)
      | ((res, None), w) \<Rightarrow>
          (map_option (\<lambda>ts. with_cookie k (respond 200 (TablesBody ts h))) (list_tables [] (Rows res)), s, w)))"

section \<open>Dispatch\<close>

text \<open>\<open>ServeHTTP\<close> and the handlers; the files are not modelled (None).\<close>

definition dispatch ::
  "web \<Rightarrow> env \<Rightarrow> manager \<Rightarrow> frontend \<Rightarrow> route \<Rightarrow> request \<Rightarrow> site \<Rightarrow> world \<Rightarrow> response option \<times> site \<times> world" where
  "dispatch we ev m fe x r s w =
     (let answer = (\<lambda>(resp, s, w). (Some resp, s, w))
      in case x of
           Start \<Rightarrow> answer (start we ev m fe r s w)
         | End \<Rightarrow> answer (end_session we ev m r s w)
         | Query \<Rightarrow> answer (handle_query we ev m fe r s w)
         | ResetIslet \<Rightarrow> answer (handle_change we ev m fe False r s w)
         | Reseed \<Rightarrow> answer (handle_change we ev m fe True r s w)
         | Schema \<Rightarrow> handle_schema we ev m fe r s w
         | NoEndpoint \<Rightarrow> (Some (write_error 404 ''not_found'' ''API endpoint not found.''), s, w)
         | NotAllowed \<Rightarrow> (None, s, w)
         | Files \<Rightarrow> (None, s, w))"

definition ServeHTTP ::
  "(string \<Rightarrow> (string \<times> string) option) \<Rightarrow> web \<Rightarrow> env \<Rightarrow> manager \<Rightarrow> frontend \<Rightarrow> request \<Rightarrow> site \<Rightarrow> world
     \<Rightarrow> response option \<times> site \<times> world" where
  "ServeHTTP origins we ev m fe r s w =
     (case fst (serve origins r) of
        Inl (status, p) \<Rightarrow> (Some (respond status (ErrorBody p None)), s, w)
      | Inr x \<Rightarrow> dispatch we ev m fe x r s w)"

end
