(* ===== verification/Sessions.thy ===== *)
theory Sessions
  imports Web "HOL-Library.Multiset"
begin

text \<open>
  The capacity of the web example: what any interleaving of the critical sections of its handlers
  makes of the table of sessions. The state is the site with the number of handlers that have been
  admitted and not yet published a session, the number of those that are done but have not yet released
  their slot, and the sessions that a cleanup has taken out of the table and not yet settled. The
  locale \<open>shared\<close> of \<open>WebSafety\<close> says what it takes for a property of this state to survive the handlers,
  whatever other handlers do in between.
\<close>

section \<open>Interleavings\<close>

text \<open>
  Every rule is one critical section, or a handler giving up its slot, or a cleanup that has removed
  the workspace of a session it took. With \<open>fails\<close> that removal may fail, and then the session that
  was taken, and no other, is put back.
\<close>

inductive reached :: "bool \<Rightarrow> site \<Rightarrow> nat \<Rightarrow> nat \<Rightarrow> (string \<times> session) multiset \<Rightarrow> bool" for fails where
  empty: "reached fails \<lparr>sessions = [], pending = 0, beat = n\<rparr> 0 0 {#}"
| tick: "reached fails s a p q \<Longrightarrow> reached fails (s\<lparr>beat := n\<rparr>) a p q"
| touched: "reached fails s a p q \<Longrightarrow> reached fails (snd (touch c now s)) a p q"
| admitted: "reached fails s a p q \<Longrightarrow> fst (admit now s) \<Longrightarrow> reached fails (snd (admit now s)) (a + 1) p q"
| published: "reached fails s (a + 1) p q \<Longrightarrow> reached fails (snd (publish key i now s)) a (p + 1) q"
| gave_up: "reached fails s (a + 1) p q \<Longrightarrow> reached fails s a (p + 1) q"
| released: "reached fails s a (p + 1) q \<Longrightarrow> reached fails (snd (release now s)) a p q"
| forgotten: "reached fails s a p q \<Longrightarrow> reached fails (snd (forget c now s)) a p q"
| expired: "reached fails s a p q \<Longrightarrow>
     reached fails (snd (expire every now s)) a p (q + mset (fst (expire every now s)))"
| removed: "reached fails s a p (add_mset x q) \<Longrightarrow> reached fails s a p q"
| restored: "fails \<Longrightarrow> reached fails s a p (add_mset (c, item) q) \<Longrightarrow>
     reached fails (snd (restore c item now s)) a p q"

section \<open>The capacity\<close>

definition roomy :: "site \<Rightarrow> nat \<Rightarrow> nat \<Rightarrow> bool" where
  "roomy s a p \<longleftrightarrow>
     distinct (map fst (sessions s)) \<and> pending s = int (a + p) \<and> length (sessions s) + a \<le> 32"

lemma length_update: "length (AList.update k v xs) = (if k \<in> fst ` set xs then length xs else length xs + 1)"
  by (induction xs) auto

lemma length_delete_le: "length (AList.delete k xs) \<le> length xs"
  by (simp add: AList.delete_eq)

lemma distinct_keys: "distinct (map fst xs) \<Longrightarrow> distinct (map fst (AList.update k v xs))"
  "distinct (map fst xs) \<Longrightarrow> distinct (map fst (AList.delete k xs))"
  by (simp_all add: AList.distinct_update AList.distinct_delete)

lemma enumerate_keys: "map (\<lambda>x. fst (snd x)) (List.enumerate n xs) = map fst xs"
  by (induction xs arbitrary: n) auto

lemma kept_sessions:
  assumes "distinct (map fst xs)"
  shows "distinct (map fst (map snd (filter P (List.enumerate n xs))))"
proof -
  have "distinct (map (\<lambda>x. fst (snd x)) (List.enumerate n xs))"
    using assms by (simp add: enumerate_keys)
  from distinct_map_filter [OF this, of P] show ?thesis by (simp add: o_def)
qed

lemma kept_length: "length (map snd (filter P (List.enumerate n xs))) \<le> length xs"
  by (metis length_enumerate length_filter_le length_map)

lemma touch_sessions:
  "snd (touch c now s) = s \<or>
   (\<exists>item. map_of (sessions s) c = Some item \<and>
      snd (touch c now s) = s\<lparr>sessions := AList.update c (item\<lparr>Used := now 1\<rparr>) (sessions s)\<rparr>)"
  by (auto simp: touch_def Let_def split: option.splits)

lemma roomy_touch: "roomy s a p \<Longrightarrow> roomy (snd (touch c now s)) a p"
  using touch_sessions [of c now s]
proof (elim disjE exE conjE)
  fix item
  assume "roomy s a p" and item: "map_of (sessions s) c = Some item"
    and s': "snd (touch c now s) = s\<lparr>sessions := AList.update c (item\<lparr>Used := now 1\<rparr>) (sessions s)\<rparr>"
  moreover from map_of_SomeD [OF item] have "c \<in> fst ` set (sessions s)" by force
  ultimately show ?thesis by (simp add: roomy_def distinct_keys length_update)
qed simp

lemma reached_roomy: "reached False s a p q \<Longrightarrow> roomy s a p"
proof (induction rule: reached.induct)
  case (touched s a p q c now)
  then show ?case by (simp add: roomy_touch)
next
  case (admitted s a p q now)
  then show ?case by (auto simp: roomy_def admit_def max_sessions_def split: if_splits)
next
  case (published s a p q key i now)
  then show ?case by (auto simp: roomy_def publish_def distinct_keys length_update)
next
  case (forgotten s a p q c now)
  then show ?case
    using length_delete_le [of c "sessions s"] by (simp add: roomy_def forget_def distinct_keys)
next
  case (expired s a p q every now)
  define xs where "xs = map snd (filter (\<lambda>x. \<not> is_expired every now x) (List.enumerate 0 (sessions s)))"
  have s': "snd (expire every now s) = s\<lparr>sessions := xs\<rparr>" by (simp add: expire_def Let_def xs_def)
  have "length xs \<le> length (sessions s)" and "distinct (map fst (sessions s)) \<Longrightarrow> distinct (map fst xs)"
    unfolding xs_def by (rule kept_length, rule kept_sessions)
  with expired show ?case by (simp add: s' roomy_def)
qed (auto simp: roomy_def release_def)

text \<open>
  However the handlers interleave, as long as every expired workspace can be removed, there are
  never more than 32 sessions, and counting the slots promised to handlers that are creating one
  there is always room for them; \<open>pending\<close> is the number of handlers that hold a slot.
\<close>

theorem capacity_kept:
  "reached False s a p q \<Longrightarrow>
     length (sessions s) + a \<le> 32 \<and> pending s = int (a + p) \<and> distinct (map fst (sessions s))"
  using reached_roomy by (simp add: roomy_def)

text \<open>A full table, whose first session was used before the others.\<close>

definition full :: "nat \<Rightarrow> (string \<times> session) list" where
  "full n = map (\<lambda>k. (nat_string k, \<lparr>Sid = nat_string k, Used = (if k = 0 then 0 else second)\<rparr>)) [0..<n]"

lemma update_new: "k \<notin> fst ` set xs \<Longrightarrow> AList.update k v xs = xs @ [(k, v)]"
  by (induction xs) auto

lemma full_Suc: "AList.update (nat_string n) \<lparr>Sid = nat_string n, Used = (if n = 0 then 0 else second)\<rparr> (full n) = full (Suc n)"
  by (subst update_new) (auto simp: full_def)

lemma length_full [simp]: "length (full n) = n"
  by (simp add: full_def)

text \<open>A handler of \<open>start\<close> on its own: admitted, published, released.\<close>

lemma reached_start:
  assumes "reached fails \<lparr>sessions = xs, pending = 0, beat = n\<rparr> 0 0 q" and "length xs < 32"
  shows "reached fails \<lparr>sessions = AList.update key \<lparr>Sid = i, Used = u\<rparr> xs, pending = 0, beat = n\<rparr> 0 0 q"
proof -
  let ?s = "\<lparr>sessions = xs, pending = 0, beat = n\<rparr>"
  have adm: "admit (\<lambda>_. u) ?s = (True, \<lparr>sessions = xs, pending = 1, beat = n\<rparr>)"
    using assms(2) by (simp add: admit_def max_sessions_def)
  from reached.admitted [OF assms(1), of "\<lambda>_. u"] have "reached fails \<lparr>sessions = xs, pending = 1, beat = n\<rparr> (0 + 1) 0 q"
    by (simp add: adm)
  from reached.released [OF reached.published [OF this, of key i "\<lambda>_. u"], of "\<lambda>_. u"] show ?thesis
    by (simp add: publish_def release_def)
qed

definition full_site :: site where
  "full_site = \<lparr>sessions = full 32, pending = 0, beat = 0\<rparr>"

lemma reached_full: "k \<le> 32 \<Longrightarrow> reached fails \<lparr>sessions = full k, pending = 0, beat = 0\<rparr> 0 0 {#}"
proof (induction k)
  case 0
  then show ?case by (simp add: full_def reached.empty)
next
  case (Suc k)
  then have "reached fails \<lparr>sessions = full k, pending = 0, beat = 0\<rparr> 0 0 {#}" and "length (full k) < 32" by simp_all
  from reached_start [OF this, of "nat_string k" "nat_string k" "if k = 0 then 0 else second"]
  show ?case by (simp only: full_Suc)
qed

lemma reached_full_site: "reached fails full_site 0 0 {#}"
  by (simp add: full_site_def reached_full)

lemma full_Cons: "full 32 = (nat_string 0, \<lparr>Sid = nat_string 0, Used = 0\<rparr>) # tl (full 32)"
  by (simp add: full_def upt_rec [of 0 32])

lemma later_used: "(c, x) \<in> set (tl (full 32)) \<Longrightarrow> Used x = second"
  by (auto simp: full_def upt_rec [of 0 32] in_set_conv_nth)

text \<open>When the first session expires the others have not.\<close>

lemma expire_first:
  "expire False (\<lambda>_. session_ttl) (full_site\<lparr>beat := n\<rparr>) =
     ([hd (full 32)], \<lparr>sessions = tl (full 32), pending = 0, beat = n\<rparr>)"
proof -
  let ?now = "\<lambda>_ :: nat. session_ttl"
  have rest: "\<not> is_expired False ?now y" if "y \<in> set (List.enumerate 1 (tl (full 32)))" for y
  proof -
    obtain j c x where y: "y = (j, c, x)" by (cases y) auto
    with that have j: "1 \<le> j" "j - 1 < length (tl (full 32))" "tl (full 32) ! (j - 1) = (c, x)"
      by (auto simp: in_set_enumerate_eq)
    from nth_mem [OF j(2)] j(3) have "(c, x) \<in> set (tl (full 32))" by simp
    from later_used [OF this] show ?thesis by (simp add: is_expired_def y alive_def second_def)
  qed
  have first: "is_expired False ?now (0, nat_string 0, \<lparr>Sid = nat_string 0, Used = 0\<rparr>)"
    by (simp add: is_expired_def alive_def)
  have "filter (is_expired False ?now) (List.enumerate 0 (full 32)) = [(0, hd (full 32))]"
    and "filter (\<lambda>y. \<not> is_expired False ?now y) (List.enumerate 0 (full 32)) = List.enumerate 1 (tl (full 32))"
    using first rest by (subst full_Cons, simp add: filter_empty_conv filter_id_conv)+
  then show ?thesis by (simp add: expire_def Let_def map_snd_enumerate full_site_def)
qed

text \<open>The keys of the full table are distinct, and none of them is \<open>new\<close>.\<close>

lemma full_keys: "nat_string 0 \<notin> fst ` set (tl (full 32))" "''new'' \<notin> fst ` set (tl (full 32))" "nat_string 0 \<noteq> ''new''"
proof -
  have "distinct (map fst (full 32))" by (simp add: full_def o_def distinct_map inj_on_def)
  then show "nat_string 0 \<notin> fst ` set (tl (full 32))" by (subst (asm) full_Cons) simp
  have digits: "c \<in> set (nat_string n) \<Longrightarrow> c \<noteq> CHR ''n''" for c n
  proof -
    have "list_all (\<lambda>d. digit_char d \<noteq> CHR ''n'') [0..<10]" by code_simp
    then have d: "d < 10 \<Longrightarrow> digit_char d \<noteq> CHR ''n''" for d by (simp add: list_all_iff)
    then have d': "d < 10 \<Longrightarrow> CHR ''n'' \<noteq> digit_char d" for d by metis
    show "c \<in> set (nat_string n) \<Longrightarrow> c \<noteq> CHR ''n''"
      by (induction n rule: nat_string.induct) (subst (asm) nat_string.simps, auto simp: d d' split: if_splits)
  qed
  then have other: "nat_string n \<noteq> ''new''" for n by (metis list.set_intros(1))
  have "''new'' \<notin> fst ` set (full 32)" by (auto simp: full_def other [symmetric])
  then show "''new'' \<notin> fst ` set (tl (full 32))" by (subst (asm) full_Cons) simp
  show "nat_string 0 \<noteq> ''new''" by (rule other)
qed

theorem capacity_kept_witness:
  "length (sessions \<lparr>sessions = full 32, pending = 0, beat = 0\<rparr>) + 0 \<le> 32"
  using capacity_kept [OF reached_full [of 32 False]] by blast

end
