(* ===== verification/InitializeSafety.thy ===== *)
theory InitializeSafety
  imports Initialize
begin

text \<open>
  The properties of \<open>CreateWithInitialization\<close> and \<open>Reinitialize\<close>: they keep the registry in order
  whatever fails and whoever interferes, and without interference an islet ends up active with all
  its statements run, or failed with none.
\<close>

section \<open>Order\<close>

lemma create_with_changes:
  assumes env: "env_ok (Database (Runtime m)) ev" and ok: "registry_ok (Database (Runtime m)) (store w)"
    and conf: "confined fe (Reserved m) ev"
  shows "changes (Database (Runtime m)) (store w) (store (snd (CreateWithInitialization ev m fe sqls w)))"
proof (cases "check_size (Settings m) sqls")
  case (Some e)
  then show ?thesis by (simp add: CreateWithInitialization_def)
next
  case size: None
  obtain h e w1 where 1: "create_islet ev m True w = ((h, e), w1)" by (cases "create_islet ev m True w") auto
  have c1: "changes (Database (Runtime m)) (store w) (store w1)"
    using create_changes [OF env ok, of True] by (simp add: 1)
  show ?thesis
  proof (cases e)
    case (Some x)
    with size c1 show ?thesis by (simp add: CreateWithInitialization_def 1)
  next
    case None
    obtain h' e' w' where 2: "initialize_islet ev m fe h sqls w1 = ((h', e'), w')"
      by (cases "initialize_islet ev m fe h sqls w1") auto
    from initialize_changes [OF env changes_registry_ok [OF c1 ok] conf 2] c1
    show ?thesis using size None by (simp add: CreateWithInitialization_def 1 2)
  qed
qed

lemma reinitialize_changes:
  assumes env: "env_ok c ev" and ok: "registry_ok c (store w)" and conf: "confined fe (Reserved m) ev"
  shows "changes c (store w) (store (snd (Reinitialize ev m fe h sqls w)))"
proof (cases "check_size (Settings m) sqls")
  case (Some e)
  then show ?thesis by (simp add: Reinitialize_def)
next
  case size: None
  obtain n e w1 where 1: "reset ev h True False w = ((n, e), w1)" by (cases "reset ev h True False w") auto
  have c1: "changes c (store w) (store w1)"
    using reset_changes [OF env ok, of h True False] by (simp add: 1)
  show ?thesis
  proof (cases e)
    case (Some x)
    with size c1 show ?thesis by (simp add: Reinitialize_def 1)
  next
    case None
    obtain h' e' w' where 2: "initialize_islet ev m fe n sqls w1 = ((h', e'), w')"
      by (cases "initialize_islet ev m fe n sqls w1") auto
    from initialize_changes [OF env changes_registry_ok [OF c1 ok] conf 2] c1
    show ?thesis using size None by (simp add: Reinitialize_def 1 2)
  qed
qed

text \<open>
  C13: initialization keeps to the protocol: whatever fails, whatever the statements are and whatever
  other sessions do in between, \<open>CreateWithInitialization\<close> and \<open>Reinitialize\<close> take the database
  through changes of the protocol only and leave it in order.
\<close>

theorem initialization_keeps_order:
  "env_ok c ev \<Longrightarrow> registry_ok c (store w) \<Longrightarrow> confined fe (Reserved m) ev \<Longrightarrow> c = Database (Runtime m) \<Longrightarrow>
   w' \<in> {snd (CreateWithInitialization ev m fe sqls w), snd (Reinitialize ev m fe h sqls w)} \<Longrightarrow>
     changes c (store w) (store w') \<and> registry_ok c (store w')"
proof -
  assume env: "env_ok c ev" and ok: "registry_ok c (store w)" and conf: "confined fe (Reserved m) ev"
    and c: "c = Database (Runtime m)"
    and w': "w' \<in> {snd (CreateWithInitialization ev m fe sqls w), snd (Reinitialize ev m fe h sqls w)}"
  have "changes c (store w) (store w')"
    using w' create_with_changes [OF env [unfolded c] ok [unfolded c] conf] reinitialize_changes [OF env ok conf]
    unfolding c by auto
  with ok show ?thesis using changes_registry_ok by blast
qed

section \<open>Success or failure\<close>

lemma open_calm:
  "calm ev \<Longrightarrow> row_of (store w) i = Some r \<Longrightarrow>
     open_islet ev i w = ((islet_of (metadata_of i r), None), bump w)"
  by (simp add: open_islet_def lookup_calm)

lemma pool_exec_calm:
  "calm ev \<Longrightarrow> pool_exec ev f w = (None, bump (w\<lparr>store := f (Clock ev (tick w) 0) (store w)\<rparr>))"
  by (simp add: pool_exec_def interfere_calm calmD tx_commit_def Let_def)

lemma islet_of_sel [simp]:
  "ID (islet_of md) = ID md" "Generation (islet_of md) = Generation md" "State (islet_of md) = State md"
  by (simp_all add: islet_of_def islet.truncate_def)

lemma mark_sel [simp]:
  "row_generation (mark st tok u r) = row_generation r" "row_state (mark st tok u r) = st"
  "init_token (mark st tok u r) = tok" "schema_name (mark st tok u r) = schema_name r"
  "role_name (mark st tok u r) = role_name r"
  by (simp_all add: mark_def)

text \<open>What initializing the islet of handle \<open>h\<close> in the database \<open>d\<close> leads to.\<close>

definition initialized ::
  "env \<Rightarrow> manager \<Rightarrow> frontend \<Rightarrow> islet \<Rightarrow> string list \<Rightarrow> db \<Rightarrow> (islet \<times> err) \<times> world \<Rightarrow> bool" where
  "initialized ev m fe h sqls d x \<longleftrightarrow>
     (case x of ((h', e), w') \<Rightarrow>
        ID h' = ID h \<and> Generation h' = Generation h \<and>
        ((e = None \<and> State h' = ''active'' \<and>
            (\<exists>results d2 u. batch_run ev m fe (schema_of (ID h)) (role_of (ID h)) sqls d results d2 \<and>
               store w' = update_row (ID h) (mark ''active'' None u) d2)) \<or>
         (is_err e ErrInitialization \<and> State h' = ''failed'' \<and>
            (\<exists>u. store w' = update_row (ID h) (mark ''failed'' None u) d))))"

lemma initialize_unfold:
  assumes calm: "calm ev" and row: "row_of (store w) (ID h) = Some r" "row_generation r = Generation h"
    and ex: "execute ev m fe (metadata_of (ID h) r) sqls True (bump w) = ((results, e), w2)"
  shows "initialize_islet ev m fe h sqls w =
     (case e of
        Some x \<Rightarrow>
          (case pool_exec ev (fail_initializing (ID h) (Generation h)) w2 of
             (stateErr, w) \<Rightarrow>
               (case open_islet ev (ID h) w of
                  ((current, openErr), w) \<Rightarrow>
                    (((if openErr = None then current else h),
                      Some (wrap ErrInitialization (errors_join [Some x, stateErr, openErr]))), w)))
      | None \<Rightarrow>
          (case open_islet ev (ID h) w2 of
             ((current, Some e), w) \<Rightarrow> ((h\<lparr>State := ''active''\<rparr>, Some e), w)
           | ((current, None), w) \<Rightarrow> ((current, None), w)))"
  using row(2) by (simp add: initialize_islet_def lookup_calm [OF calm row(1)] ex split: option.split)

text \<open>The error of an initialization whose statements failed.\<close>

lemma initialize_error:
  assumes calm: "calm ev" and ok: "registry_ok c (store w)"
    and row: "row_of (store w) (ID h) = Some r" "row_generation r = Generation h" "row_state r = ''initializing''"
    and ex: "execute ev m fe (metadata_of (ID h) r) sqls True (bump w) = ((results, Some x), w2)"
  shows "snd (fst (initialize_islet ev m fe h sqls w)) = Some (wrap ErrInitialization (errors_join [Some x, None, None]))"
proof -
  obtain d where "d = store (bump w) \<or> began ev (store (bump w)) d"
    and post: "execute_post ev m fe (metadata_of (ID h) r) sqls True d ((results, Some x), w2)"
    using execute_outcome [of "bump w" ev m fe "metadata_of (ID h) r" sqls True] unfolding ex .
  then have "d = store w" using calm by (auto simp: began_def calmD)
  moreover have "\<not> (\<exists>n. CommitFault ev n \<noteq> None)" using calm by (simp add: calmD)
  ultimately have "store w2 = store w"
    using post unfolding execute_post_def prod.case metadata_of_sel by auto
  moreover have "row_of (fail_initializing (ID h) (Generation h) u (store w)) (ID h) \<noteq> None" for u
    using fail_initializing_cases [OF ok, of "ID h"] row by simp
  ultimately have "\<exists>r. row_of (store (bump (w2\<lparr>store := fail_initializing (ID h) (Generation h) (Clock ev (tick w2) 0) (store w2)\<rparr>))) (ID h) = Some r"
    by auto
  then show ?thesis
    by (auto simp: initialize_unfold [OF calm row(1,2) ex] pool_exec_calm [OF calm] open_calm [OF calm])
qed

lemma initialize_calm:
  assumes calm: "calm ev" and conf: "confined fe (Reserved m) ev" and ok: "registry_ok c (store w)"
    and row: "row_of (store w) (ID h) = Some r" "row_generation r = Generation h" "row_state r = ''initializing''"
  shows "initialized ev m fe h sqls (store w) (initialize_islet ev m fe h sqls w)"
proof -
  let ?md = "metadata_of (ID h) r" and ?d = "store w"
  have names: "schema_name r = schema_of (ID h)" "role_name r = role_of (ID h)"
    using registry_okD(2) [OF ok row(1)] by (simp_all add: row_ok_def)
  obtain results e w2 where ex: "execute ev m fe ?md sqls True (bump w) = ((results, e), w2)"
    by (cases "execute ev m fe ?md sqls True (bump w)") auto
  obtain d where "d = store (bump w) \<or> began ev (store (bump w)) d"
    and post: "execute_post ev m fe ?md sqls True d ((results, e), w2)"
    using execute_outcome [of "bump w" ev m fe ?md sqls True] unfolding ex .
  then have d: "d = ?d" using calm by (auto simp: began_def calmD)
  have known: "\<not> (\<exists>n. CommitFault ev n \<noteq> None)" using calm by (simp add: calmD)
  note init = initialize_unfold [OF calm row(1,2) ex]
  from post known d consider x where "e = Some x" "store w2 = ?d"
    | d2 u where "e = None" "batch_run ev m fe (schema_of (ID h)) (role_of (ID h)) sqls ?d results d2"
        "store w2 = update_row (ID h) (mark ''active'' None u) d2"
    unfolding execute_post_def prod.case metadata_of_sel names by (cases e) (simp_all, blast+)
  then show ?thesis
  proof cases
    case (1 x)
    have "fail_initializing (ID h) (Generation h) u ?d = update_row (ID h) (mark ''failed'' None u) ?d" for u
      using fail_initializing_cases [OF ok, of "ID h"] row by simp
    with 1 row open_calm [OF calm] show ?thesis
      by (simp add: init pool_exec_calm [OF calm] initialized_def wrap_def) blast
  next
    case (2 d2 u)
    obtain x where "d2 = ?d\<lparr>schemas := (schemas ?d)(schema_of (ID h) \<mapsto> x)\<rparr>"
      using batch_in_schema [OF 2(2) conf ok row(1) refl] by blast
    then have "row_of d2 (ID h) = Some r" using row(1) by (simp add: row_of_def)
    with 2(3) have "row_of (store w2) (ID h) = Some (mark ''active'' None u r)" by simp
    from open_calm [OF calm this] 2 row(2) show ?thesis
      by (simp add: init initialized_def) blast
  qed
qed

lemma initialized_handle: "ID n = ID h \<Longrightarrow> Generation n = Generation h \<Longrightarrow>
    initialized ev m fe n sqls d x \<longleftrightarrow> initialized ev m fe h sqls d x"
  by (simp add: initialized_def)

text \<open>The reset of \<open>Reinitialize\<close>.\<close>

lemma reset_initializing:
  assumes calm: "calm ev" and env: "env_ok c ev" and ok: "registry_ok c (store w)"
    and row: "row_of (store w) (ID h) = Some r" "row_generation r = Generation h"
      "Generation h + 1 < 2 ^ 63" "row_state r \<noteq> ''initializing''"
    and dep: "\<And>n. dependency_query (Catalog ev n (store w)) (schema_name r) = None"
  obtains n w1 token u where "reset ev h True False w = ((n, None), w1)" and "token \<noteq> []"
    and "store w1 = update_row (ID h) (next_row ''initializing'' token u) (wiped (schema_name r) (role_name r) (store w))"
    and "n = islet_of (metadata_of (ID h) (next_row ''initializing'' token u r))"
proof -
  obtain n e w1 where 1: "reset ev h True False w = ((n, e), w1)" by (cases "reset ev h True False w") auto
  have e: "e = None" using reset_runs [OF calm ok row(1,2) _ row(4) dep, of True] row by (simp add: 1)
  obtain d where "began ev (store w) d" and post: "reset_post d h True False ((n, e), w1)"
    using reset_outcome [OF env, of w h True False] unfolding 1 .
  then have d: "d = store w" using calm by (auto simp: began_def calmD)
  from post e obtain token u where tok: "token_ok True token"
    and w1: "store w1 = update_row (ID h) (next_row ''initializing'' token u) (wiped (schema_name r) (role_name r) (store w))"
    and n: "n = islet_of (metadata_of (ID h) (next_row ''initializing'' token u r))"
    unfolding reset_post_def prod.case d by (auto simp: row start_state_def)
  from tok have "token \<noteq> []" by (auto simp: token_ok_def)
  with that 1 e w1 n show ?thesis by blast
qed

text \<open>
  C12: \<open>Reinitialize\<close> of an islet that may be reset, when nothing fails on the way and nobody
  interferes: the islet, emptied and in its next generation, is active with all statements run, in
  order, each accepted by the policy; or failed and empty, and the error says that the
  initialization failed. In both cases the handle returned is the current one.
\<close>

theorem reinitialize_outcome:
  "calm ev \<Longrightarrow> env_ok c ev \<Longrightarrow> confined fe (Reserved m) ev \<Longrightarrow> registry_ok c (store w) \<Longrightarrow>
   row_of (store w) (ID h) = Some r \<Longrightarrow> row_generation r = Generation h \<Longrightarrow> Generation h + 1 < 2 ^ 63 \<Longrightarrow>
   row_state r \<noteq> ''initializing'' \<Longrightarrow>
   (\<And>n. dependency_query (Catalog ev n (store w)) (schema_name r) = None) \<Longrightarrow>
   check_size (Settings m) sqls = None \<Longrightarrow>
     \<exists>token u. token \<noteq> [] \<and>
       initialized ev m fe (h\<lparr>Generation := Generation h + 1\<rparr>) sqls
         (update_row (ID h) (next_row ''initializing'' token u) (wiped (schema_name r) (role_name r) (store w)))
         (Reinitialize ev m fe h sqls w)"
proof -
  assume calm: "calm ev" and env: "env_ok c ev" and conf: "confined fe (Reserved m) ev" and ok: "registry_ok c (store w)"
    and row: "row_of (store w) (ID h) = Some r" "row_generation r = Generation h"
      "Generation h + 1 < 2 ^ 63" "row_state r \<noteq> ''initializing''"
    and dep: "\<And>n. dependency_query (Catalog ev n (store w)) (schema_name r) = None"
    and size: "check_size (Settings m) sqls = None"
  obtain n w1 token u where 1: "reset ev h True False w = ((n, None), w1)" and ne: "token \<noteq> []"
    and w1: "store w1 = update_row (ID h) (next_row ''initializing'' token u) (wiped (schema_name r) (role_name r) (store w))"
    and n: "n = islet_of (metadata_of (ID h) (next_row ''initializing'' token u r))"
    using reset_initializing [OF calm env ok row dep] by blast
  let ?h = "h\<lparr>Generation := Generation h + 1\<rparr>"
  have ids: "ID n = ID ?h" "Generation n = Generation ?h"
    using row(2) by (simp_all add: n next_row_def)
  have c1: "changes c (store w) (store w1)" using reset_changes [OF env ok, of h True False] by (simp add: 1)
  have row1: "row_of (store w1) (ID n) = Some (next_row ''initializing'' token u r)"
    using row ids by (simp add: w1)
  have "initialized ev m fe n sqls (store w1) (initialize_islet ev m fe n sqls w1)"
    by (rule initialize_calm [OF calm conf changes_registry_ok [OF c1 ok] row1]) (simp_all add: n next_row_def)
  then have "initialized ev m fe ?h sqls (store w1) (Reinitialize ev m fe h sqls w)"
    using size initialized_handle [OF ids] by (simp add: Reinitialize_def 1)
  with ne show ?thesis unfolding w1 by blast
qed

text \<open>
  C26: \<open>CreateWithInitialization\<close>, when nothing fails on the way and nobody interferes: a new islet of
  generation 1, with its role, schema and privileges, that is active with all statements run, in
  order, each accepted by the policy; or is kept, empty and failed, and the error says that the
  initialization failed.
\<close>

theorem create_with_outcome:
  "calm ev \<Longrightarrow> env_ok c ev \<Longrightarrow> confined fe (Reserved m) ev \<Longrightarrow> c = Database (Runtime m) \<Longrightarrow> registry_ok c (store w) \<Longrightarrow>
   opaque (Rand ev (tick w)) = (i, None) \<Longrightarrow> row_of (store w) i = None \<Longrightarrow> check_size (Settings m) sqls = None \<Longrightarrow>
     \<exists>r d. created_row True i r \<and>
       insert_row i r (provisioned c i (islet_attrs m i (row_password r)) (store w)) = Inr d \<and>
       initialized ev m fe (no_islet\<lparr>ID := i, Generation := 1\<rparr>) sqls d (CreateWithInitialization ev m fe sqls w)"
proof -
  assume calm: "calm ev" and env: "env_ok c ev" and conf: "confined fe (Reserved m) ev" and c: "c = Database (Runtime m)"
    and ok: "registry_ok c (store w)" and i: "opaque (Rand ev (tick w)) = (i, None)"
    and new: "row_of (store w) i = None" and size: "check_size (Settings m) sqls = None"
  obtain n e w1 where 1: "create_islet ev m True w = ((n, e), w1)" by (cases "create_islet ev m True w") auto
  from create_runs [OF calm ok [unfolded c] i new 1] have e: "e = None" "ID n = i" by simp_all
  obtain d where "d = store w \<or> began ev (store w) d" and post: "create_post m True d ((n, e), w1)"
    using create_outcome [OF env [unfolded c] ok [unfolded c], of True] unfolding 1 .
  then have d: "d = store w" using calm by (auto simp: began_def calmD)
  from post e obtain r where cr: "created_row True i r" and n: "n = islet_of (metadata_of i r)"
    and ins: "insert_row i r (provisioned c i (islet_attrs m i (row_password r)) (store w)) = Inr (store w1)"
    unfolding create_post_def prod.case d c by auto
  let ?h = "no_islet\<lparr>ID := i, Generation := 1\<rparr>"
  have ids: "ID n = ID ?h" "Generation n = Generation ?h" using cr by (simp_all add: n created_row_def)
  have "changes c (store w) (store w1)"
    using create_changes [OF env [unfolded c] ok [unfolded c], of True] by (simp add: 1 c)
  then have ok1: "registry_ok c (store w1)" using changes_registry_ok ok by blast
  have "row_of (store w1) (ID n) = Some r" using row_of_insert [OF ins] e by simp
  then have "initialized ev m fe n sqls (store w1) (initialize_islet ev m fe n sqls w1)"
    by (rule initialize_calm [OF calm conf ok1]) (use cr in \<open>simp_all add: n created_row_def start_state_def\<close>)
  then have "initialized ev m fe ?h sqls (store w1) (CreateWithInitialization ev m fe sqls w)"
    using size e initialized_handle [OF ids] by (simp add: CreateWithInitialization_def 1)
  with cr ins show ?thesis by blast
qed

text \<open>
  The record of a failed initialization touches nothing but the islet it was for: another
  generation, or an islet that has left the state initializing, is left alone, and so is every other
  islet.
\<close>

theorem failure_is_recorded_once:
  "registry_ok c d \<Longrightarrow>
     fail_initializing i g now d =
       (case row_of d i of
          Some r \<Rightarrow> if row_generation r = g \<and> row_state r = ''initializing''
                    then update_row i (mark ''failed'' None now) d else d
        | None \<Rightarrow> d)"
  by (rule fail_initializing_cases)

section \<open>Concrete runs\<close>

lemma sample_app: "''app'' = Database (Runtime sample_manager)"
  by (simp add: sample_manager_def)

theorem initialization_keeps_order_witness:
  "registry_ok ''app'' (store (snd (CreateWithInitialization quiet_env sample_manager sample_frontend sample_batch base_world)))"
proof -
  have "registry_ok ''app'' (store base_world)" by (simp add: base_world_def base_ok)
  from initialization_keeps_order [OF quiet_ok this quiet_replies(3) sample_app] show ?thesis by blast
qed

theorem reinitialize_outcome_witness:
  "Generation (fst (fst (Reinitialize quiet_env sample_manager sample_frontend sample_handle sample_batch created_world))) = 2 \<and>
   State (fst (fst (Reinitialize quiet_env sample_manager sample_frontend sample_handle sample_batch created_world)))
     \<in> {''active'', ''failed''}"
proof -
  obtain r where row: "row_of (store created_world) (ID sample_handle) = Some r" "row_generation r = Generation sample_handle"
    "row_state r = ''active''" and ok: "registry_ok (Database (Runtime sample_manager)) (store created_world)"
    using sample_islet by metis
  obtain h' e w' where x: "Reinitialize quiet_env sample_manager sample_frontend sample_handle sample_batch created_world = ((h', e), w')"
    by (cases "Reinitialize quiet_env sample_manager sample_frontend sample_handle sample_batch created_world") auto
  have "initialized quiet_env sample_manager sample_frontend (sample_handle\<lparr>Generation := Generation sample_handle + 1\<rparr>)
      sample_batch d ((h', e), w') \<Longrightarrow> Generation h' = 2 \<and> State h' \<in> {''active'', ''failed''}" for d
    by (auto simp: initialized_def)
  with reinitialize_outcome [OF quiet_calm quiet_ok quiet_replies(3) ok row(1,2) _ _ sample_no_dependency sample_size,
      of sample_frontend] row(3)
  show ?thesis by (auto simp: x)
qed

theorem create_with_outcome_witness:
  "ID (fst (fst (CreateWithInitialization quiet_env sample_manager sample_frontend sample_batch base_world))) = sample_id \<and>
   State (fst (fst (CreateWithInitialization quiet_env sample_manager sample_frontend sample_batch base_world)))
     \<in> {''active'', ''failed''}"
proof -
  have ok: "registry_ok ''app'' (store base_world)" by (simp add: base_world_def base_ok)
  obtain h' e w' where x: "CreateWithInitialization quiet_env sample_manager sample_frontend sample_batch base_world = ((h', e), w')"
    by (cases "CreateWithInitialization quiet_env sample_manager sample_frontend sample_batch base_world") auto
  have "initialized quiet_env sample_manager sample_frontend (no_islet\<lparr>ID := sample_id, Generation := 1\<rparr>)
      sample_batch d ((h', e), w') \<Longrightarrow> ID h' = sample_id \<and> State h' \<in> {''active'', ''failed''}" for d
    by (auto simp: initialized_def)
  with create_with_outcome [OF quiet_calm quiet_ok quiet_replies(3) sample_app ok sample_draw base_new sample_size,
      of sample_frontend]
  show ?thesis by (auto simp: x)
qed

theorem failure_is_recorded_once_witness:
  "fail_initializing sample_id 1 0 (store created_world) = store created_world"
proof -
  obtain r where row: "row_of (store created_world) sample_id = Some r" "row_state r = ''active''"
    and ok: "registry_ok ''app'' (store created_world)"
    using sample_created by metis
  from failure_is_recorded_once [OF ok] row show ?thesis by simp
qed

end
