(* ===== verification/WebSafety.thy ===== *)
theory WebSafety
  imports Sessions InitializeSafety
begin

text \<open>
  The handlers of the web example as clients: of the table of sessions, through the locale \<open>shared\<close>
  of what its critical sections keep, and of the manager, through the locale \<open>manager_client\<close> of
  what the operations it calls keep.
\<close>

text \<open>\<open>Cleanup\<close> in which every removal succeeds puts nothing back.\<close>

lemma cleanup_loop_ok:
  "cleanup_loop we ev m items s w = (failures, s', w') \<Longrightarrow> errors_join failures = None \<Longrightarrow> s' = s"
  by (induction items arbitrary: s w failures)
    (auto split: prod.splits option.splits)

section \<open>Clients of the table\<close>

locale shared =
  fixes we :: web and P :: "site \<Rightarrow> nat \<Rightarrow> nat \<Rightarrow> (string \<times> session) multiset \<Rightarrow> bool"
  assumes peers: "P s (a + k) (p + l) (q + h) \<Longrightarrow> \<exists>a' p' q'. P (Peers we (beat s) s) (a' + k) (p' + l) (q' + h)"
    and tick: "P s a p q \<Longrightarrow> P (s\<lparr>beat := n\<rparr>) a p q"
    and touched: "P s a p q \<Longrightarrow> P (snd (touch c now s)) a p q"
    and admitted: "P s a p q \<Longrightarrow> fst (admit now s) \<Longrightarrow> P (snd (admit now s)) (a + 1) p q"
    and published: "P s (a + 1) p q \<Longrightarrow> P (snd (publish key i now s)) a (p + 1) q"
    and gave_up: "P s (a + 1) p q \<Longrightarrow> P s a (p + 1) q"
    and released: "P s a (p + 1) q \<Longrightarrow> P (snd (release now s)) a p q"
    and forgotten: "P s a p q \<Longrightarrow> P (snd (forget c now s)) a p q"
    and expired: "P s a p q \<Longrightarrow> P (snd (expire every now s)) a p (q + mset (fst (expire every now s)))"
    and removed: "P s a p (add_mset x q) \<Longrightarrow> P s a p q"
begin

text \<open>The handler holds \<open>k\<close> admissions, \<open>l\<close> slots to release and the sessions \<open>h\<close> it has taken.\<close>

lemma section_keeps:
  assumes "P s (a + k) (p + l) (q + h)" and "locked we f s = (x, s')"
    and "\<And>now s a p q. P s (a + k) (p + l) (q + h) \<Longrightarrow> fst (f now s) = x \<Longrightarrow>
      P (snd (f now s)) (a + k') (p + l') (q + h')"
  shows "\<exists>a p q. P s' (a + k') (p + l') (q + h')"
proof -
  from peers [OF assms(1)] obtain a' p' q' where "P (Peers we (beat s) s) (a' + k) (p' + l) (q' + h)" by blast
  moreover obtain y where y: "f (Now we (beat s)) (Peers we (beat s) s) = (x, y)" "s' = y\<lparr>beat := beat s + 1\<rparr>"
    using assms(2) by (auto simp: locked_def split: prod.splits)
  ultimately have "P y (a' + k') (p' + l') (q' + h')" using assms(3) [of _ a' p' q' "Now we (beat s)"] by fastforce
  then show ?thesis unfolding y(2) using tick by blast
qed

text \<open>A section that takes no sessions.\<close>

lemma slots_keep:
  assumes "P s (a + k) (p + l) q" and "locked we f s = (x, s')"
    and "\<And>now s a p q. P s (a + k) (p + l) q \<Longrightarrow> fst (f now s) = x \<Longrightarrow> P (snd (f now s)) (a + k') (p + l') q"
  shows "\<exists>a p q. P s' (a + k') (p + l') q"
  using section_keeps [where h = "{#}" and h' = "{#}", simplified, OF assms] .

lemma current_keeps:
  assumes "P s a p q" and "current we ev r s w = (x, s', w')"
  shows "\<exists>a p q. P s' a p q"
proof (cases "CookieValue r")
  case None
  with assms show ?thesis by (auto simp: current_def)
next
  case (Some c)
  obtain item s1 where 1: "locked we (touch c) s = (item, s1)" by (cases "locked we (touch c) s") auto
  have "\<exists>a p q. P s1 (a + 0) (p + 0) q"
    by (rule slots_keep [OF _ 1, of a 0 p 0 q]) (use assms(1) touched in simp_all)
  moreover have "s' = s1"
    using assms(2) Some 1 by (auto simp: current_def split: option.splits prod.splits)
  ultimately show ?thesis by simp
qed

lemma start_new_keeps:
  assumes "P s a p q" and "start_new we ev m fe r s w = (x, s', w')"
  shows "\<exists>a p q. P s' a p q"
proof -
  obtain ok s1 where 1: "locked we admit s = (ok, s1)" by (cases "locked we admit s") auto
  show ?thesis
  proof (cases ok)
    case False
    have "\<exists>a p q. P s1 (a + 0) (p + 0) q"
    proof (rule slots_keep [OF _ 1, of a 0 p 0 q])
      fix now s a p q assume "P s (a + 0) (p + 0) q" and "fst (admit now s) = ok"
      then show "P (snd (admit now s)) (a + 0) (p + 0) q" using False by (auto simp: admit_def split: if_splits)
    qed (use assms(1) in simp)
    with assms(2) False show ?thesis by (simp add: start_new_def 1)
  next
    case True
    have "\<exists>a p q. P s1 (a + 1) (p + 0) q"
      by (rule slots_keep [OF _ 1, of a 0 p 0 q]) (use assms(1) admitted True in simp_all)
    then obtain a1 p1 q1 where s1: "P s1 (a1 + 1) (p1 + 0) q1" by blast
    obtain y s2 w2 where 2: "start_admitted we ev m fe r s1 w = (y, s2, w2)"
      by (cases "start_admitted we ev m fe r s1 w") auto
    have s2: "\<exists>a p q. P s2 (a + 0) (p + 1) q"
    proof -
      obtain h e w3 where c: "CreateWithInitialization ev m fe seed w = ((h, e), w3)"
        by (cases "CreateWithInitialization ev m fe seed w") auto
      show ?thesis
      proof (cases e)
        case (Some z)
        with 2 c have "s2 = s1" by (auto simp: start_admitted_def Let_def split: prod.splits)
        moreover have "P s1 (a1 + 0) (p1 + 1) q1" using gave_up s1 by simp
        ultimately show ?thesis by blast
      next
        case None
        obtain u s3 where 3: "locked we (publish (hex_encode (TokenBytes we (beat s1))) (ID h)) s1 = (u, s3)"
          by (cases "locked we (publish (hex_encode (TokenBytes we (beat s1))) (ID h)) s1") auto
        have "\<exists>a p q. P s3 (a + 0) (p + 1) q"
          by (rule slots_keep [OF s1 3]) (use published in simp)
        with 2 c None 3 show ?thesis by (simp add: start_admitted_def Let_def)
      qed
    qed
    then obtain a2 p2 q2 where "P s2 (a2 + 0) (p2 + 1) q2" by blast
    moreover obtain u s3 where 3: "locked we release s2 = (u, s3)" by (cases "locked we release s2") auto
    ultimately have "\<exists>a p q. P s3 (a + 0) (p + 0) q"
      by (rule slots_keep) (use released in simp)
    with assms(2) True show ?thesis by (simp add: start_new_def 1 2 3)
  qed
qed

lemma start_keeps:
  assumes "P s a p q" and "start we ev m fe r s w = (x, s', w')"
  shows "\<exists>a p q. P s' a p q"
proof (cases "CookieValue r")
  case None
  with assms show ?thesis by (auto simp: start_def intro: start_new_keeps)
next
  case (Some c)
  obtain ok s1 where 1: "locked we (is_alive c) s = (ok, s1)" by (cases "locked we (is_alive c) s") auto
  have "\<exists>a p q. P s1 (a + 0) (p + 0) q"
    by (rule slots_keep [OF _ 1, of a 0 p 0 q]) (use assms(1) in \<open>simp_all add: is_alive_def\<close>)
  then obtain a1 p1 q1 where s1: "P s1 a1 p1 q1" by auto
  show ?thesis
  proof (cases ok)
    case False
    with assms(2) Some 1 start_new_keeps [OF s1] show ?thesis by (auto simp: start_def)
  next
    case True
    obtain y s2 w2 where 2: "current we ev r s1 w = (y, s2, w2)" by (cases "current we ev r s1 w") auto
    with assms(2) Some 1 True have "s' = s2" by (auto simp: start_def split: sum.splits prod.splits)
    with current_keeps [OF s1 2] show ?thesis by simp
  qed
qed

lemma end_keeps:
  assumes "P s a p q" and "end_session we ev m r s w = (x, s', w')"
  shows "\<exists>a p q. P s' a p q"
proof -
  obtain y s1 w1 where 1: "current we ev r s w = (y, s1, w1)" by (cases "current we ev r s w") auto
  from current_keeps [OF assms(1) 1] obtain a1 p1 q1 where s1: "P s1 a1 p1 q1" by blast
  show ?thesis
  proof (cases y)
    case (Inl z)
    with assms(2) 1 s1 show ?thesis by (auto simp: end_session_def)
  next
    case (Inr hk)
    obtain h k where hk: "hk = (h, k)" by (cases hk)
    obtain e w2 where 2: "remove ev m (ID h) w1 = (e, w2)" by (cases "remove ev m (ID h) w1") auto
    show ?thesis
    proof (cases e)
      case (Some z)
      with assms(2) 1 2 s1 Inr hk show ?thesis by (auto simp: end_session_def)
    next
      case None
      obtain u s2 where 3: "locked we (forget (the (CookieValue r))) s1 = (u, s2)"
        by (cases "locked we (forget (the (CookieValue r))) s1") auto
      have "\<exists>a p q. P s2 (a + 0) (p + 0) q"
        by (rule slots_keep [OF _ 3, of a1 0 p1 0 q1]) (use s1 forgotten in simp_all)
      with assms(2) 1 2 3 None Inr hk show ?thesis by (simp add: end_session_def)
    qed
  qed
qed

lemma handlers_keep:
  assumes s: "P s a p q" and run: "dispatch we ev m fe x r s w = (y, s', w')"
  shows "\<exists>a p q. P s' a p q"
proof -
  obtain z s1 w1 where 1: "current we ev r s w = (z, s1, w1)" by (cases "current we ev r s w") auto
  from current_keeps [OF s 1] have s1: "\<exists>a p q. P s1 a p q" .
  have q: "fst (snd (handle_query we ev m fe r s w)) = s \<or> fst (snd (handle_query we ev m fe r s w)) = s1"
    by (simp add: handle_query_def 1 split: sum.split prod.split option.split)
  have c: "fst (snd (handle_change we ev m fe b r s w)) = s1" for b
    by (simp add: handle_change_def 1 split: sum.split prod.split option.split)
  have t: "fst (snd (handle_schema we ev m fe r s w)) = s1"
    by (simp add: handle_schema_def 1 split: sum.split prod.split option.split)
  show ?thesis
  proof (cases x)
    case Start
    with run start_keeps [OF s] show ?thesis by (auto simp: dispatch_def split: prod.splits)
  next
    case End
    with run end_keeps [OF s] show ?thesis by (auto simp: dispatch_def split: prod.splits)
  next
    case Query
    with run have "s' = fst (snd (handle_query we ev m fe r s w))" by (auto simp: dispatch_def split: prod.splits)
    with q s s1 show ?thesis by metis
  next
    case ResetIslet
    with run have "s' = fst (snd (handle_change we ev m fe False r s w))" by (auto simp: dispatch_def split: prod.splits)
    with c [of False] s1 show ?thesis by simp
  next
    case Reseed
    with run have "s' = fst (snd (handle_change we ev m fe True r s w))" by (auto simp: dispatch_def split: prod.splits)
    with c [of True] s1 show ?thesis by simp
  next
    case Schema
    with run have "s' = fst (snd (handle_schema we ev m fe r s w))" by (auto simp: dispatch_def)
    with t s1 show ?thesis by simp
  qed (use run s in \<open>auto simp: dispatch_def\<close>)
qed

lemma serve_keeps:
  assumes "P s a p q" and "ServeHTTP origins we ev m fe r s w = (y, s', w')"
  shows "\<exists>a p q. P s' a p q"
proof (cases "fst (serve origins r)")
  case (Inl z)
  with assms show ?thesis by (auto simp: ServeHTTP_def split: prod.splits)
next
  case (Inr x)
  with assms handlers_keep [OF assms(1)] show ?thesis by (simp add: ServeHTTP_def)
qed

lemma all_removed: "P s a p (q + h) \<Longrightarrow> P s a p q"
  by (induction h) (auto intro: removed)

lemma cleanup_ok_keeps:
  assumes "P s a p q" and "Cleanup we ev m every s w = (None, s', w')"
  shows "\<exists>a p q. P s' a p q"
proof -
  obtain items s1 where 1: "locked we (expire every) s = (items, s1)" by (cases "locked we (expire every) s") auto
  have "\<exists>a p q. P s1 (a + 0) (p + 0) (q + mset items)"
    by (rule section_keeps [OF _ 1, of a 0 p 0 q "{#}"]) (use assms(1) expired in fastforce)+
  then have "\<exists>a p q. P s1 a p q" using all_removed by auto
  moreover have "s' = s1"
    using assms(2) cleanup_loop_ok by (auto simp: Cleanup_def 1 split: prod.splits)
  ultimately show ?thesis by simp
qed

end

text \<open>With \<open>restore\<close>, every run of \<open>Cleanup\<close>: it puts back only what it took.\<close>

locale shared_restore = shared +
  assumes restored: "P s a p (add_mset (c, item) q) \<Longrightarrow> P (snd (restore c item now s)) a p q"
    and order: "P s a p (q + mset xs) \<Longrightarrow> P s a p (q + mset (Order we xs))"
begin

lemma cleanup_loop_keeps:
  "P s a p (q + mset items) \<Longrightarrow> cleanup_loop we ev m items s w = (failures, s', w') \<Longrightarrow> \<exists>a p q. P s' a p q"
proof (induction items arbitrary: s w a p q failures)
  case Nil
  then show ?case by auto
next
  case (Cons x rest)
  obtain c item where x: "x = (c, item)" by (cases x)
  obtain e w1 where 1: "remove ev m (Sid item) w = (e, w1)" by (cases "remove ev m (Sid item) w") auto
  show ?case
  proof (cases e)
    case None
    from Cons.prems(1) have "P s a p (q + mset rest)" by (auto intro: removed)
    with Cons.IH Cons.prems(2) None x 1 show ?thesis by simp
  next
    case (Some z)
    obtain u s1 where 2: "locked we (restore c item) s = (u, s1)" by (cases "locked we (restore c item) s") auto
    have "\<exists>a p q. P s1 (a + 0) (p + 0) (q + mset rest)"
      by (rule section_keeps [OF _ 2, of a 0 p 0 q "mset (x # rest)"]) (use Cons.prems(1) x restored in simp_all)
    then obtain a1 p1 q1 where s1: "P s1 a1 p1 (q1 + mset rest)" by auto
    obtain fs s2 w2 where 3: "cleanup_loop we ev m rest s1 w1 = (fs, s2, w2)"
      by (cases "cleanup_loop we ev m rest s1 w1") auto
    with Cons.prems(2) have eqs: "s2 = s'" "w2 = w'" by (simp_all add: x 1 Some 2)
    from Cons.IH [OF s1 3 [unfolded eqs]] show ?thesis .
  qed
qed

lemma cleanup_keeps:
  assumes "P s a p q" and "Cleanup we ev m every s w = (e, s', w')"
  shows "\<exists>a p q. P s' a p q"
proof -
  obtain items s1 where 1: "locked we (expire every) s = (items, s1)" by (cases "locked we (expire every) s") auto
  have "\<exists>a p q. P s1 (a + 0) (p + 0) (q + mset items)"
    by (rule section_keeps [OF _ 1, of a 0 p 0 q "{#}"]) (use assms(1) expired in fastforce)+
  then obtain a1 p1 q1 where "P s1 a1 p1 (q1 + mset items)" by auto
  then have s1: "P s1 a1 p1 (q1 + mset (Order we items))" by (rule order)
  obtain fs s2 w2 where 2: "cleanup_loop we ev m (Order we items) s1 w = (fs, s2, w2)"
    by (cases "cleanup_loop we ev m (Order we items) s1 w") auto
  with assms(2) have "s' = s2" by (simp add: Cleanup_def 1)
  with cleanup_loop_keeps [OF s1 2] show ?thesis by simp
qed

end

text \<open>
  Other handlers keep to the critical sections, to their own slots and to the sessions they took: what
  they do between two sections of a handler leads from a reachable site to a reachable one that still
  counts what the handler holds. And a cleanup meets the sessions it took in some order.
\<close>

definition fair :: "bool \<Rightarrow> web \<Rightarrow> bool" where
  "fair fails we \<longleftrightarrow>
     (\<forall>s a p q k l h. reached fails s (a + k) (p + l) (q + h) \<longrightarrow>
        (\<exists>a' p' q'. reached fails (Peers we (beat s) s) (a' + k) (p' + l) (q' + h))) \<and>
     (\<forall>xs. mset (Order we xs) = mset xs)"

interpretation room: shared we "\<lambda>s a p q. fair fails we \<longrightarrow> reached fails s a p q" for we fails
proof unfold_locales
  fix s a k p l q h
  assume "fair fails we \<longrightarrow> reached fails s (a + k) (p + l) (q + h)"
  then show "\<exists>a' p' q'. fair fails we \<longrightarrow> reached fails (Peers we (beat s) s) (a' + k) (p' + l) (q' + h)"
    unfolding fair_def by blast
qed (auto intro: reached.intros [simplified])

interpretation room_restore: shared_restore we "\<lambda>s a p q. fair True we \<longrightarrow> reached True s a p q" for we
  by unfold_locales (simp_all add: reached.restored fair_def)

text \<open>
  C14: as long as no removal of an expired workspace fails, the web example keeps its capacity: a
  request, served from a site that handlers can reach and with other handlers running in between, leads
  to such a site again, and so does a \<open>Cleanup\<close> that removes every workspace it means to; the
  sessions and the handlers still creating one are never more than 32 together, and \<open>pending\<close> is the
  number of handlers that hold a slot. (When a removal fails there can be more, as the last section shows.)
\<close>

theorem requests_keep_capacity:
  "fair False we \<Longrightarrow> reached False s a p q \<Longrightarrow>
   (\<exists>y w'. ServeHTTP origins we ev m fe r s w = (y, s', w')) \<or>
   (\<exists>w'. Cleanup we ev m every s w = (None, s', w')) \<Longrightarrow>
     \<exists>a p q. reached False s' a p q \<and> length (sessions s') + a \<le> 32 \<and> pending s' = int (a + p)"
proof -
  assume fair: "fair False we" and s: "reached False s a p q"
    and run: "(\<exists>y w'. ServeHTTP origins we ev m fe r s w = (y, s', w')) \<or>
      (\<exists>w'. Cleanup we ev m every s w = (None, s', w'))"
  from run have "\<exists>a p q. fair False we \<longrightarrow> reached False s' a p q"
  proof (elim disjE exE)
    fix y w' assume "ServeHTTP origins we ev m fe r s w = (y, s', w')"
    from room.serve_keeps [OF _ this, of False a p q] s show ?thesis by blast
  next
    fix w' assume "Cleanup we ev m every s w = (None, s', w')"
    from room.cleanup_ok_keeps [OF _ this, of False a p q] s show ?thesis by blast
  qed
  with fair obtain a' p' q' where r: "reached False s' a' p' q'" by blast
  with reached_roomy [OF r] show ?thesis unfolding roomy_def by blast
qed

text \<open>A site without other handlers, and a request that starts a session on the empty one.\<close>

definition quiet_web :: web where
  "quiet_web = \<lparr>Peers = (\<lambda>_ s. s), Now = (\<lambda>_ _. 0), TokenBytes = (\<lambda>_. [1, 2, 3]), Order = (\<lambda>xs. xs)\<rparr>"

lemma quiet_fair: "fair fails quiet_web"
  by (auto simp: fair_def quiet_web_def)

definition empty_site :: site where
  "empty_site = \<lparr>sessions = [], pending = 0, beat = 0\<rparr>"

definition start_request :: request where
  "start_request = sample_request\<lparr>ReqPath := ''/api/session''\<rparr>"

theorem requests_keep_capacity_witness:
  "length (sessions (fst (snd (ServeHTTP (\<lambda>_. None) quiet_web quiet_env sample_manager sample_frontend
     start_request empty_site base_world)))) \<le> 32"
proof -
  obtain y s' w' where r: "ServeHTTP (\<lambda>_. None) quiet_web quiet_env sample_manager sample_frontend
      start_request empty_site base_world = (y, s', w')"
    by (cases "ServeHTTP (\<lambda>_. None) quiet_web quiet_env sample_manager sample_frontend
      start_request empty_site base_world") auto
  have "reached False empty_site 0 0 {#}" by (simp add: empty_site_def reached.empty)
  from requests_keep_capacity [OF quiet_fair this disjI1] r show ?thesis by fastforce
qed

section \<open>When a removal fails\<close>

text \<open>
  A visitor comes while a cleanup is under way: another handler of \<open>start\<close>, between the sections of
  \<open>Cleanup\<close>, that is admitted when there is room, and publishes its session. The clock shows the first
  session of the full table expired.
\<close>

definition visited :: "int \<Rightarrow> site \<Rightarrow> site" where
  "visited now s =
     (case admit (\<lambda>_. now) s of
        (False, s) \<Rightarrow> s
      | (True, s) \<Rightarrow> snd (release (\<lambda>_. now) (snd (publish ''new'' ''new'' (\<lambda>_. now) s))))"

definition busy_web :: web where
  "busy_web = quiet_web\<lparr>Peers := (\<lambda>n s. if n = 1 then visited session_ttl s else s), Now := (\<lambda>_ _. session_ttl)\<rparr>"

lemma busy_fair: "fair fails busy_web"
  unfolding fair_def
proof (intro conjI allI impI)
  fix s a p q k l h
  assume r: "reached fails s (a + k) (p + l) (q + h)"
  have "reached fails (visited now s) (a + k) (p + l) (q + h)" for now
  proof (cases "fst (admit (\<lambda>_. now) s)")
    case True
    from reached.admitted [OF r this] have "reached fails (snd (admit (\<lambda>_. now) s)) ((a + k) + 1) (p + l) (q + h)" .
    from reached.released [OF reached.published [OF this]] True show ?thesis
      by (simp add: visited_def split: prod.split bool.split) (metis fst_conv snd_conv)
  next
    case False
    then have "visited now s = s" by (auto simp: visited_def admit_def split: if_splits)
    with r show ?thesis by simp
  qed
  with r show "\<exists>a' p' q'. reached fails (Peers busy_web (beat s) s) (a' + k) (p' + l) (q' + h)"
    by (auto simp: busy_web_def)
qed (simp add: busy_web_def quiet_web_def)

text \<open>A server that does not answer.\<close>

definition down_env :: env where
  "down_env = quiet_env\<lparr>Fault := (\<lambda>_. Some conn_closed)\<rparr>"

lemma down_ok: "env_ok c down_env"
  using quiet_ok [of c] by (simp add: env_ok_def down_env_def)

lemma down_remove: "\<exists>e w'. remove down_env m i w = (Some e, w')"
  by (simp add: remove_def open_islet_def lookup_def pool_query_def down_env_def read_metadata_def scan_def
      conn_closed_def classify_def sqlstate_def wrap_def code_kind_def split: prod.split)

text \<open>
  C35: when the workspace of an expired session cannot be removed there can be more than 32 sessions:
  a \<open>Cleanup\<close> takes the one expired session out of a full table, a visitor gets its slot, the removal
  fails and the session comes back. All 33 stay, no handler is running and no slot is pending.
\<close>

theorem capacity_exceeded:
  "fair True busy_web \<and> env_ok c down_env \<and> reached True full_site 0 0 {#} \<and> length (sessions full_site) = 32 \<and>
   (\<exists>e s' w'. Cleanup busy_web down_env m False full_site w = (Some e, s', w') \<and>
      length (sessions s') = 33 \<and> pending s' = 0 \<and> reached True s' 0 0 {#})"
proof -
  let ?old = "(nat_string 0, \<lparr>Sid = nat_string 0, Used = 0\<rparr>)"
  let ?new = "AList.update ''new'' \<lparr>Sid = ''new'', Used = session_ttl\<rparr> (tl (full 32))"
  let ?s = "\<lparr>sessions = AList.update (fst ?old) (snd ?old) ?new, pending = 0, beat = 2\<rparr>"
  have hd: "hd (full 32) = ?old" by (subst full_Cons) simp
  have 1: "locked busy_web (expire False) full_site = ([?old], \<lparr>sessions = tl (full 32), pending = 0, beat = 1\<rparr>)"
    using expire_first [of 0] by (simp add: locked_def busy_web_def hd) (simp add: full_site_def)
  have 2: "locked busy_web (restore (fst ?old) (snd ?old)) \<lparr>sessions = tl (full 32), pending = 0, beat = 1\<rparr> = ((), ?s)"
    by (simp add: locked_def busy_web_def visited_def admit_def max_sessions_def publish_def release_def restore_def)
  obtain e w' where 3: "remove down_env m (nat_string 0) w = (Some e, w')" using down_remove by blast
  have "Cleanup busy_web down_env m False full_site w = (errors_join [Some e], ?s, w')"
    using 2 3 by (simp add: Cleanup_def 1) (simp add: busy_web_def quiet_web_def)
  then obtain x where run: "Cleanup busy_web down_env m False full_site w = (Some x, ?s, w')"
    by (cases "errors_join [Some e]") (simp_all add: errors_join_def)
  have "reached True \<lparr>sessions = tl (full 32), pending = 0, beat = 1\<rparr> 0 0 {#?old#}"
    using reached.tick [OF reached.expired [OF reached_full_site, of True False "\<lambda>_. session_ttl"], of 1] expire_first [of 0]
    by (simp add: hd full_site_def)
  then have "reached True \<lparr>sessions = ?new, pending = 0, beat = 1\<rparr> 0 0 {#?old#}" by (rule reached_start) simp
  then have "reached True (snd (restore (fst ?old) (snd ?old) (\<lambda>_. 0) \<lparr>sessions = ?new, pending = 0, beat = 1\<rparr>)) 0 0 {#}"
    by (intro reached.restored) simp_all
  from reached.tick [OF this, of 2] have r: "reached True ?s 0 0 {#}" by (simp add: restore_def)
  have "length (sessions ?s) = 33" using full_keys by (simp add: update_new length_update)
  with run r show ?thesis
    using busy_fair down_ok reached_full_site by (auto simp: full_site_def)
qed

end
