(* ===== verification/Clients.thy ===== *)
theory Clients
  imports WebSafety
begin

text \<open>
  Clients of a manager: what every operation of the manager keeps, every handler of the web example
  keeps. The locale \<open>manager_client\<close> names the operations a client calls; its interpretation is the
  order of the registry, under the changes of the protocol.
\<close>

section \<open>What the operations keep\<close>

locale manager_client =
  fixes ev :: env and m :: manager and fe :: frontend and K :: "world \<Rightarrow> world \<Rightarrow> bool"
  assumes refl: "K w w"
    and trans: "K w w1 \<Longrightarrow> K w1 w2 \<Longrightarrow> K w w2"
    and opens: "open_islet ev i w = (x, w1) \<Longrightarrow> K w w1"
    and executes: "Execute ev m fe h sql w = (y, w1) \<Longrightarrow> K w w1"
    and creates: "Create ev m w = (x, w1) \<Longrightarrow> K w w1"
    and creates_with: "CreateWithInitialization ev m fe sqls w = (x, w1) \<Longrightarrow> K w w1"
    and reinitializes: "Reinitialize ev m fe h sqls w = (x, w1) \<Longrightarrow> K w w1"
    and resets: "Reset ev h w = (x, w1) \<Longrightarrow> K w w1"
    and recovers: "Recover ev h w = (x, w1) \<Longrightarrow> K w w1"
    and deletes: "Delete ev m h w = (e, w1) \<Longrightarrow> K w w1"
begin

lemma removes:
  assumes "remove ev m i w = (e, w')"
  shows "K w w'"
proof -
  obtain h e1 w1 where 1: "open_islet ev i w = ((h, e1), w1)" by (cases "open_islet ev i w") auto
  note k1 = opens [OF 1]
  obtain h2 e2 w2 where 2: "Recover ev h w1 = ((h2, e2), w2)" by (cases "Recover ev h w1") auto
  obtain e3 w3 where 3: "Delete ev m h2 w2 = (e3, w3)" by (cases "Delete ev m h2 w2") auto
  obtain e4 w4 where 4: "Delete ev m h w1 = (e4, w4)" by (cases "Delete ev m h w1") auto
  have "w' \<in> {w1, w2, w3, w4}"
    using assms by (auto simp: remove_def 1 2 3 4 split: if_splits option.splits)
  then show ?thesis
    using k1 trans [OF k1 recovers [OF 2]] trans [OF trans [OF k1 recovers [OF 2]] deletes [OF 3]]
      trans [OF k1 deletes [OF 4]] by auto
qed

lemma currents:
  assumes "current we ev r s w = (x, s', w')"
  shows "K w w'"
proof -
  have "w' = w \<or> (\<exists>i y. open_islet ev i w = (y, w'))"
    using assms by (auto simp: current_def split: option.splits prod.splits)
  with refl opens show ?thesis by blast
qed

lemma queries:
  assumes "handle_query we ev m fe r s w = (x, s', w')"
  shows "K w w'"
proof -
  obtain y s1 w1 where 1: "current we ev r s w = (y, s1, w1)" by (cases "current we ev r s w") auto
  have "w' \<in> {w, w1} \<or> (\<exists>h sql z. Execute ev m fe h sql w1 = (z, w'))"
    using assms by (auto simp: handle_query_def 1 split: sum.splits option.splits prod.splits if_splits)
  with refl currents [OF 1] executes trans show ?thesis by blast
qed

lemma changes_islet:
  assumes "handle_change we ev m fe b r s w = (x, s', w')"
  shows "K w w'"
proof -
  obtain y s1 w1 where 1: "current we ev r s w = (y, s1, w1)" by (cases "current we ev r s w") auto
  have "w' = w1 \<or> (\<exists>h z. (if b then Reinitialize ev m fe h seed w1 else Reset ev h w1) = (z, w'))"
    using assms by (cases b) (auto simp: handle_change_def 1 split: sum.splits option.splits prod.splits)
  then show ?thesis
  proof (elim disjE exE)
    fix h z assume "(if b then Reinitialize ev m fe h seed w1 else Reset ev h w1) = (z, w')"
    then have "K w1 w'" by (cases b) (auto intro: reinitializes resets)
    with currents [OF 1] show ?thesis by (rule trans)
  qed (use currents [OF 1] in simp)
qed

lemma lists:
  assumes "handle_schema we ev m fe r s w = (x, s', w')"
  shows "K w w'"
proof -
  obtain y s1 w1 where 1: "current we ev r s w = (y, s1, w1)" by (cases "current we ev r s w") auto
  have "w' = w1 \<or> (\<exists>h sql z. Execute ev m fe h sql w1 = (z, w'))"
    using assms by (auto simp: handle_schema_def 1 split: sum.splits option.splits prod.splits)
  with currents [OF 1] executes trans show ?thesis by blast
qed

lemma ends:
  assumes "end_session we ev m r s w = (x, s', w')"
  shows "K w w'"
proof -
  obtain y s1 w1 where 1: "current we ev r s w = (y, s1, w1)" by (cases "current we ev r s w") auto
  have "w' = w1 \<or> (\<exists>i e. remove ev m i w1 = (e, w'))"
    using assms by (auto simp: end_session_def 1 split: sum.splits option.splits prod.splits)
  with currents [OF 1] removes trans show ?thesis by blast
qed

lemma admitted_starts:
  assumes "start_admitted we ev m fe r s w = (x, s', w')"
  shows "K w w'"
proof -
  obtain h e w1 where 1: "CreateWithInitialization ev m fe seed w = ((h, e), w1)"
    by (cases "CreateWithInitialization ev m fe seed w") auto
  have "w' = w1 \<or> (\<exists>i e. remove ev m i w1 = (e, w'))"
    using assms by (auto simp: start_admitted_def 1 Let_def split: option.splits prod.splits if_splits)
  with creates_with [OF 1] removes trans show ?thesis by blast
qed

lemma new_starts:
  assumes "start_new we ev m fe r s w = (x, s', w')"
  shows "K w w'"
proof -
  have "w' = w \<or> (\<exists>s1 y s2. start_admitted we ev m fe r s1 w = (y, s2, w'))"
    using assms by (auto simp: start_new_def split: prod.splits bool.splits)
  with refl admitted_starts show ?thesis by blast
qed

lemma starts:
  assumes "start we ev m fe r s w = (x, s', w')"
  shows "K w w'"
proof -
  have "(\<exists>s1. start_new we ev m fe r s1 w = (x, s', w')) \<or> (\<exists>s1 y s2. current we ev r s1 w = (y, s2, w'))"
    using assms by (auto simp: start_def split: prod.splits bool.splits option.splits sum.splits)
  with new_starts currents show ?thesis by blast
qed

lemma loops: "cleanup_loop we ev m items s w = (x, s', w') \<Longrightarrow> K w w'"
proof (induction items arbitrary: s w x)
  case Nil
  with refl show ?case by simp
next
  case (Cons y rest)
  obtain c item where y: "y = (c, item)" by (cases y)
  obtain e w1 where 1: "remove ev m (Sid item) w = (e, w1)" by (cases "remove ev m (Sid item) w") auto
  have "\<exists>s1 z. cleanup_loop we ev m rest s1 w1 = (z, s', w')"
    using Cons.prems by (auto simp: y 1 split: option.splits prod.splits)
  with Cons.IH removes [OF 1] trans show ?case by blast
qed

lemma cleans:
  assumes "Cleanup we ev m every s w = (e, s', w')"
  shows "K w w'"
proof -
  have "\<exists>items s1 x. cleanup_loop we ev m items s1 w = (x, s', w')"
    using assms by (auto simp: Cleanup_def split: prod.splits)
  with loops show ?thesis by blast
qed

lemma dispatches:
  assumes "dispatch we ev m fe x r s w = (y, s', w')"
  shows "K w w'"
  using assms
  by (cases x)
    (auto simp: dispatch_def refl split: prod.splits intro: starts ends queries changes_islet lists)

lemma serves:
  assumes "ServeHTTP origins we ev m fe r s w = (y, s', w')"
  shows "K w w'"
proof (cases "fst (serve origins r)")
  case (Inl z)
  with assms refl show ?thesis by (auto simp: ServeHTTP_def split: prod.splits)
next
  case (Inr x)
  with assms dispatches show ?thesis by (simp add: ServeHTTP_def)
qed

end

section \<open>Order\<close>

text \<open>
  The hypotheses of the engine's own theorems: documented behaviour of the driver and of other
  sessions, the privileges of PostgreSQL, and the database the manager works on.
\<close>

definition sound :: "string \<Rightarrow> env \<Rightarrow> frontend \<Rightarrow> manager \<Rightarrow> bool" where
  "sound c ev fe m \<longleftrightarrow> env_ok c ev \<and> confined fe (Reserved m) ev \<and> c = Database (Runtime m)"

definition orderly :: "string \<Rightarrow> env \<Rightarrow> frontend \<Rightarrow> manager \<Rightarrow> world \<Rightarrow> world \<Rightarrow> bool" where
  "orderly c ev fe m w w' \<longleftrightarrow>
     (sound c ev fe m \<longrightarrow> registry_ok c (store w) \<longrightarrow> changes c (store w) (store w'))"

lemma orderly_trans:
  assumes "orderly c ev fe m w w1" and "orderly c ev fe m w1 w2"
  shows "orderly c ev fe m w w2"
  unfolding orderly_def
proof (intro impI)
  assume s: "sound c ev fe m" and ok: "registry_ok c (store w)"
  with assms(1) have 1: "changes c (store w) (store w1)" by (simp add: orderly_def)
  from changes_registry_ok [OF this ok] s assms(2) have "changes c (store w1) (store w2)" by (simp add: orderly_def)
  with 1 show "changes c (store w) (store w2)" by (rule rtranclp_trans)
qed

lemma execute_orderly:
  assumes "Execute ev m fe h sql w = (y, w')"
  shows "orderly c ev fe m w w'"
proof -
  obtain results e w1 where 1: "Batch ev m fe h [sql] w = ((results, e), w1)"
    by (cases "Batch ev m fe h [sql] w") auto
  with assms have "w' = w1" by (auto simp: Execute_def)
  with batch_effect [OF _ _ _ 1] show ?thesis unfolding orderly_def sound_def by blast
qed

interpretation ordered: manager_client ev m fe "orderly c ev fe m" for ev m fe c
proof unfold_locales
  fix w w1 w2 assume "orderly c ev fe m w w1" "orderly c ev fe m w1 w2"
  then show "orderly c ev fe m w w2" by (rule orderly_trans)
next
  fix i w x w1 assume "open_islet ev i w = (x, w1)"
  then show "orderly c ev fe m w w1"
    unfolding orderly_def sound_def using open_changes [of c ev w i] by (cases x) blast
next
  fix h sql w y w1 assume "Execute ev m fe h sql w = (y, w1)"
  then show "orderly c ev fe m w w1" by (rule execute_orderly)
next
  fix w x w1 assume "Create ev m w = (x, w1)"
  then show "orderly c ev fe m w w1"
    unfolding orderly_def sound_def using create_changes [of m ev w False] by (auto simp: Create_def)
next
  fix sqls w x w1 assume "CreateWithInitialization ev m fe sqls w = (x, w1)"
  then show "orderly c ev fe m w w1"
    unfolding orderly_def sound_def using create_with_changes [of m ev w fe sqls] by auto
next
  fix h sqls w x w1 assume "Reinitialize ev m fe h sqls w = (x, w1)"
  then show "orderly c ev fe m w w1"
    unfolding orderly_def sound_def using reinitialize_changes [of c ev w fe m h sqls] by auto
next
  fix h w x w1 assume "Reset ev h w = (x, w1)"
  then show "orderly c ev fe m w w1"
    unfolding orderly_def sound_def using reset_changes [of c ev w h False False] by (auto simp: Reset_def)
next
  fix h w x w1 assume "Recover ev h w = (x, w1)"
  then show "orderly c ev fe m w w1"
    unfolding orderly_def sound_def using reset_changes [of c ev w h False True] by (auto simp: Recover_def)
next
  fix h w e w1 assume "Delete ev m h w = (e, w1)"
  then show "orderly c ev fe m w w1"
    unfolding orderly_def sound_def using delete_changes [of c ev w m h] by auto
qed (simp add: orderly_def)

text \<open>
  C4: whatever the requests are, whatever fails and whoever interferes, serving a request and
  cleaning up take the database through changes of the protocol only and leave it in order.
\<close>

theorem web_keeps_order:
  "sound c ev fe m \<Longrightarrow> registry_ok c (store w) \<Longrightarrow>
   (\<exists>y s'. ServeHTTP origins we ev m fe r s w = (y, s', w')) \<or>
   (\<exists>e s'. Cleanup we ev m every s w = (e, s', w')) \<Longrightarrow>
     changes c (store w) (store w') \<and> registry_ok c (store w')"
proof -
  assume sound: "sound c ev fe m" and ok: "registry_ok c (store w)"
    and run: "(\<exists>y s'. ServeHTTP origins we ev m fe r s w = (y, s', w')) \<or>
      (\<exists>e s'. Cleanup we ev m every s w = (e, s', w'))"
  from run have "orderly c ev fe m w w'"
    by (elim disjE exE) (erule ordered.serves, erule ordered.cleans)
  with sound ok have "changes c (store w) (store w')" by (simp add: orderly_def)
  with ok show ?thesis using changes_registry_ok by blast
qed

theorem web_keeps_order_witness:
  "registry_ok ''app'' (store (snd (snd (ServeHTTP (\<lambda>_. None) quiet_web quiet_env sample_manager
     sample_frontend start_request empty_site base_world))))"
proof -
  obtain y s' w' where r: "ServeHTTP (\<lambda>_. None) quiet_web quiet_env sample_manager sample_frontend
      start_request empty_site base_world = (y, s', w')"
    by (cases "ServeHTTP (\<lambda>_. None) quiet_web quiet_env sample_manager sample_frontend
      start_request empty_site base_world") auto
  have sound: "sound ''app'' quiet_env sample_frontend sample_manager"
    using quiet_ok quiet_replies(3) sample_app by (simp add: sound_def)
  have "registry_ok ''app'' (store base_world)" by (simp add: base_world_def base_ok)
  from web_keeps_order [OF sound this disjI1] r show ?thesis by fastforce
qed

end
