(* ===== verification/WebOutcomes.thy ===== *)
theory WebOutcomes
  imports Clients
begin

text \<open>
  What the handlers of the web example do for the visitor who sends a request: a query reaches only
  the islet of the session the cookie names, and ending a session leaves neither its islet nor its
  entry behind.
\<close>

section \<open>The session of a request\<close>

text \<open>The entry of the table that the request's cookie names, when the handler looks it up.\<close>

definition own_session :: "web \<Rightarrow> request \<Rightarrow> site \<Rightarrow> session option" where
  "own_session we r s =
     (case CookieValue r of None \<Rightarrow> None | Some c \<Rightarrow> map_of (sessions (Peers we (beat s) s)) c)"

lemma open_law:
  assumes "open_islet ev i w = ((h, e), w')"
  shows "began ev (store w) (store w') \<and>
     (e = None \<longrightarrow> ID h = i \<and> (\<exists>r. row_of (store w') i = Some r \<and> h = islet_of (metadata_of i r)))"
proof -
  obtain md w1 where l: "lookup ev i w = ((md, e), w1)" and h: "h = islet_of md" and w': "w' = w1"
    using assms by (auto simp: open_islet_def split: prod.splits)
  from lookup_law [OF l] show ?thesis by (auto simp: h w' islet_of_def islet.truncate_def)
qed

lemma current_law:
  assumes "current we ev r s w = (x, s', w')"
  shows "case x of
      Inl resp \<Rightarrow> store w' = store w \<or> began ev (store w) (store w')
    | Inr (h, k) \<Rightarrow> began ev (store w) (store w') \<and>
        (\<exists>item. own_session we r s = Some item \<and> Sid item = ID h \<and> alive (Now we (beat s) 0) item)"
proof (cases "CookieValue r")
  case None
  with assms show ?thesis by (auto simp: current_def)
next
  case (Some c)
  obtain found s1 where 1: "locked we (touch c) s = (found, s1)" by (cases "locked we (touch c) s")
  show ?thesis
  proof (cases found)
    case None
    with assms Some 1 show ?thesis by (auto simp: current_def)
  next
    case (Some item)
    note item = this
    have own: "\<exists>old. own_session we r s = Some old \<and> Sid old = Sid item \<and> alive (Now we (beat s) 0) old"
      using 1 \<open>CookieValue r = Some c\<close>
      by (auto simp: item locked_def touch_def own_session_def Let_def split: prod.splits option.splits if_splits)
    obtain h e w1 where 2: "open_islet ev (Sid item) w = ((h, e), w1)" by (cases "open_islet ev (Sid item) w") auto
    from open_law [OF 2] own assms \<open>CookieValue r = Some c\<close> 1 2 item show ?thesis
      by (cases e) (auto simp: current_def)
  qed
qed

section \<open>Queries\<close>

text \<open>The database as other sessions may have left it, from one step of theirs to any number.\<close>

abbreviation left_by_others :: "env \<Rightarrow> db \<Rightarrow> db \<Rightarrow> bool" where
  "left_by_others ev \<equiv> (\<lambda>d d'. began ev d d')\<^sup>*\<^sup>*"

lemma found_others: "found ev d d' \<Longrightarrow> left_by_others ev d d'"
  unfolding found_def by (meson converse_rtranclp_into_rtranclp r_into_rtranclp rtranclp.rtrancl_refl)

text \<open>What a request may have done: nothing, or something to the schema of one islet.\<close>

definition touches :: "env \<Rightarrow> string option \<Rightarrow> db \<Rightarrow> db \<Rightarrow> bool" where
  "touches ev own d d' \<longleftrightarrow>
     (\<exists>d1. left_by_others ev d d1 \<and>
        islets d' = islets d1 \<and> roles d' = roles d1 \<and> grants d' = grants d1 \<and>
        (\<forall>s. (\<forall>i. own = Some i \<longrightarrow> s \<noteq> schema_of i) \<longrightarrow> schemas d' s = schemas d1 s))"

lemma execute_touches:
  assumes env: "env_ok c ev" and ok: "registry_ok c (store w)" and conf: "confined fe (Reserved m) ev"
    and b: "began ev (store w) (store w1)" and run: "Execute ev m fe h sql w1 = (y, w')" and own: "own = Some (ID h)"
  shows "touches ev own (store w) (store w')"
proof -
  obtain results e w2 where 1: "Batch ev m fe h [sql] w1 = ((results, e), w2)"
    by (cases "Batch ev m fe h [sql] w1") auto
  with run have w': "w' = w2" by (auto simp: Execute_def)
  from batch_effect [OF env began_ok [OF env ok b] conf 1] obtain d where "found ev (store w1) d"
    and eff: "islets (store w2) = islets d" "roles (store w2) = roles d" "grants (store w2) = grants d"
      "\<forall>s. s \<noteq> schema_of (ID h) \<longrightarrow> schemas (store w2) s = schemas d s"
    by blast
  with b have "left_by_others ev (store w) d" using found_others by (meson converse_rtranclp_into_rtranclp)
  with eff show ?thesis unfolding touches_def w' own by blast
qed

lemma touches_nothing: "store w' = store w \<or> began ev (store w) (store w') \<Longrightarrow> touches ev own (store w) (store w')"
  unfolding touches_def by (intro exI [of _ "store w'"]) auto

text \<open>
  C7: a visitor's query and the listing of tables reach only the islet of the visitor's own
  session: apart from what other sessions of the database did meanwhile, the registry, the roles,
  the privileges and every schema but the one of that islet are as they were; a request without a
  session that is alive changes nothing at all.
\<close>

theorem queries_stay_in_own_islet:
  "sound c ev fe m \<Longrightarrow> registry_ok c (store w) \<Longrightarrow>
   (\<exists>y s'. handle_query we ev m fe r s w = (y, s', w')) \<or> (\<exists>y s'. handle_schema we ev m fe r s w = (y, s', w')) \<Longrightarrow>
     touches ev (map_option Sid (own_session we r s)) (store w) (store w')"
proof -
  assume sound: "sound c ev fe m" and ok: "registry_ok c (store w)"
    and run: "(\<exists>y s'. handle_query we ev m fe r s w = (y, s', w')) \<or> (\<exists>y s'. handle_schema we ev m fe r s w = (y, s', w'))"
  obtain x s1 w1 where 1: "current we ev r s w = (x, s1, w1)" by (cases "current we ev r s w") auto
  note law = current_law [OF 1]
  have "w' = w \<or> (\<exists>resp. x = Inl resp \<and> w' = w1) \<or> (\<exists>h k sql z. x = Inr (h, k) \<and> Execute ev m fe h sql w1 = (z, w'))"
    using run by (auto simp: handle_query_def handle_schema_def 1 split: sum.splits option.splits prod.splits if_splits)
  then show ?thesis
  proof (elim disjE exE conjE)
    fix h k sql z assume x: "x = Inr (h, k)" and e: "Execute ev m fe h sql w1 = (z, w')"
    from law have "began ev (store w) (store w1)" "map_option Sid (own_session we r s) = Some (ID h)"
      by (auto simp: x)
    with sound ok e show ?thesis unfolding sound_def by (blast intro: execute_touches)
  qed (use law in \<open>auto intro: touches_nothing\<close>)
qed

section \<open>The end of a session\<close>

lemma lookup_missing:
  assumes env: "env_ok c ev" and run: "lookup ev i w = ((md, e), w')" and no: "is_err e ErrNotFound"
  shows "row_of (store w') i = None"
proof -
  obtain row w1 where q: "pool_query ev (\<lambda>_. select_metadata i) (interfere ev w) = (row, w1)"
    by (cases "pool_query ev (\<lambda>_. select_metadata i) (interfere ev w)") auto
  from run have eqs: "read_metadata row = (md, e)" "w' = w1" by (simp_all add: lookup_def q)
  from no obtain y where e: "e = Some y" by (cases e) auto
  show ?thesis
  proof (cases row)
    case (Inl z)
    with q have "\<exists>n. Fault ev n = Some z" by (auto simp: pool_query_def split: option.splits)
    with env have d: "driver_error z" by (auto simp: env_ok_def)
    then have "z \<noteq> Sentinel NoRows" by (auto simp: driver_error_def)
    with read_metadata_errors [OF eqs(1)] Inl e have "e = classify (Some z)" by auto
    with no classify_driver [OF d, of ErrNotFound] show ?thesis by simp
  next
    case (Inr v)
    with read_metadata_errors [OF eqs(1)] e have "v = None" by (cases v) auto
    with q Inr show ?thesis
      by (auto simp: eqs(2) pool_query_def select_metadata_def bump_def split: option.splits)
  qed
qed

lemma delete_gone:
  assumes "env_ok c ev" and "Delete ev m h w = (None, w')"
  shows "row_of (store w') (ID h) = None"
proof -
  obtain d where "delete_post d h (None, w')"
    using delete_outcome [OF assms(1), of w h m] unfolding assms(2) .
  then show ?thesis unfolding delete_post_def prod.case by auto
qed

lemma recover_handle:
  assumes "env_ok c ev" and "Recover ev h w = ((h', None), w')"
  shows "ID h' = ID h"
proof -
  obtain d where "reset_post d h False True ((h', None), w')"
    using reset_outcome [OF assms(1), of w h False True] assms(2) unfolding Recover_def by metis
  then show ?thesis by (auto simp: reset_post_def islet_of_def islet.truncate_def)
qed

lemma remove_gone:
  assumes env: "env_ok c ev" and run: "remove ev m i w = (None, w')"
  shows "row_of (store w') i = None"
proof -
  obtain h e w1 where 1: "open_islet ev i w = ((h, e), w1)" by (cases "open_islet ev i w") auto
  then obtain md where l: "lookup ev i w = ((md, e), w1)" by (auto simp: open_islet_def split: prod.splits)
  show ?thesis
  proof (cases "is_err e ErrNotFound")
    case True
    with run 1 lookup_missing [OF env l] show ?thesis by (simp add: remove_def)
  next
    case False
    with run 1 have e: "e = None" by (cases e) (auto simp: remove_def split: if_splits)
    with open_law [OF 1] have i: "ID h = i" by simp
    show ?thesis
    proof (cases "State h = ''initializing''")
      case False
      with run 1 e delete_gone [OF env] i show ?thesis by (auto simp: remove_def)
    next
      case True
      then obtain h' w2 where "Recover ev h w1 = ((h', None), w2)" "Delete ev m h' w2 = (None, w')"
        using run 1 e by (auto simp: remove_def split: prod.splits option.splits)
      with recover_handle [OF env] delete_gone [OF env] i show ?thesis by metis
    qed
  qed
qed

lemma report_body: "Body (report e x) \<noteq> DeletedBody" "Body (with_cookie k y) = Body y"
  by (simp_all add: report_def respond_def with_cookie_def split: prod.split)

text \<open>
  C19: when the response says that the workspace is deleted, it is: the islet of the visitor's
  session is gone from the registry, its entry is gone from the table, and the visitor's cookie is
  made to expire.
\<close>

theorem ended_sessions_are_gone:
  "env_ok c ev \<Longrightarrow> end_session we ev m r s w = (resp, s', w') \<Longrightarrow> Body resp = DeletedBody \<Longrightarrow>
     \<exists>key item. CookieValue r = Some key \<and> own_session we r s = Some item \<and>
       row_of (store w') (Sid item) = None \<and> map_of (sessions s') key = None \<and> Expire \<in> set (Cookies resp)"
proof -
  assume env: "env_ok c ev" and run: "end_session we ev m r s w = (resp, s', w')" and body: "Body resp = DeletedBody"
  obtain x s1 w1 where 1: "current we ev r s w = (x, s1, w1)" by (cases "current we ev r s w") auto
  note law = current_law [OF 1]
  show ?thesis
  proof (cases x)
    case (Inl y)
    with run 1 have "resp = y" by (simp add: end_session_def)
    moreover have "Body y \<noteq> DeletedBody"
      using 1 Inl by (auto simp: current_def expired_session_def write_error_def respond_def report_body
          split: option.splits prod.splits)
    ultimately show ?thesis using body by simp
  next
    case (Inr z)
    obtain h k where z: "z = (h, k)" by (cases z)
    obtain e w2 where 2: "remove ev m (ID h) w1 = (e, w2)" by (cases "remove ev m (ID h) w1")
    have e: "e = None" using run 1 2 body by (cases e) (auto simp: end_session_def Inr z report_body)
    from law obtain item where item: "own_session we r s = Some item" "Sid item = ID h" by (auto simp: Inr z)
    then obtain key where key: "CookieValue r = Some key" by (auto simp: own_session_def split: option.splits)
    from run 1 2 e have "resp = with_cookie k (with_cookie Expire (respond 200 DeletedBody))" and "w' = w2"
      and "locked we (forget key) s1 = ((), s')" by (auto simp: end_session_def Inr z key split: prod.splits)
    with remove_gone [OF env 2 [unfolded e]] item key show ?thesis
      by (auto simp: with_cookie_def respond_def locked_def forget_def delete_conv')
  qed
qed

section \<open>The list of tables\<close>

text \<open>The rows of the query for a table: one for each column, or one without a column.\<close>

definition column_row :: "listing \<Rightarrow> string \<times> string \<Rightarrow> go_any list" where
  "column_row t = (\<lambda>(c, y). map StringValue [TableName t, TableKind t, c, y])"

definition table_rows :: "listing \<Rightarrow> go_any list list" where
  "table_rows t =
     (if TableColumns t = [] then [[StringValue (TableName t), StringValue (TableKind t), NilValue, NilValue]]
      else map (column_row t) (TableColumns t))"

lemma list_columns:
  "list_tables (ts @ [t\<lparr>TableColumns := cs\<rparr>]) (map (column_row t) ds @ rows) =
     list_tables (ts @ [t\<lparr>TableColumns := cs @ ds\<rparr>]) rows"
  by (induction ds arbitrary: cs) (auto simp: column_row_def string_at_def add_column_def Let_def)

lemma list_table:
  assumes "ts = [] \<or> TableName (last ts) \<noteq> TableName t"
  shows "list_tables ts (table_rows t @ rows) = list_tables (ts @ [t]) rows"
proof (cases "TableColumns t")
  case Nil
  with assms show ?thesis by (cases t) (auto simp: table_rows_def string_at_def)
next
  case (Cons d ds)
  let ?start = "t\<lparr>TableColumns := []\<rparr>"
  have "list_tables ts (table_rows t @ rows) = list_tables (ts @ [?start]) (table_rows t @ rows)"
    using assms Cons by (cases d; cases t) (auto simp: table_rows_def column_row_def string_at_def)
  also have "\<dots> = list_tables (ts @ [t\<lparr>TableColumns := [] @ TableColumns t\<rparr>]) rows"
    using list_columns [where ts = ts and t = t and cs = "[]" and ds = "TableColumns t"] by (simp add: table_rows_def Cons)
  finally show ?thesis by simp
qed

lemma list_rows:
  "distinct_adj (map TableName ts) \<Longrightarrow> acc = [] \<or> ts = [] \<or> TableName (last acc) \<noteq> TableName (hd ts) \<Longrightarrow>
     list_tables acc (concat (map table_rows ts)) = Some (acc @ ts)"
proof (induction ts arbitrary: acc)
  case (Cons t ts)
  have "list_tables acc (concat (map table_rows (t # ts))) = list_tables (acc @ [t]) (concat (map table_rows ts))"
    using list_table [of acc t] Cons.prems(2) by simp
  also have "\<dots> = Some ((acc @ [t]) @ ts)"
    by (rule Cons.IH) (use Cons.prems(1) in \<open>cases ts; simp\<close>)+
  finally show ?case by simp
qed simp

text \<open>
  C38: the listing of tables is read back from the rows of the query exactly: no table is split, merged or
  lost, a table without columns is listed, and the columns come in the order of the rows; the
  handler does not panic.
\<close>

theorem listing_roundtrip:
  "distinct_adj (map TableName ts) \<Longrightarrow> list_tables [] (concat (map table_rows ts)) = Some ts"
  using list_rows [of ts "[]"] by simp

theorem listing_roundtrip_witness:
  "list_tables [] (map (map StringValue) [[''a'', ''r'', ''x'', ''int4''], [''a'', ''r'', ''y'', ''text'']]
     @ [[StringValue ''b'', StringValue ''v'', NilValue, NilValue]]) =
   Some [\<lparr>TableName = ''a'', TableKind = ''r'', TableColumns = [(''x'', ''int4''), (''y'', ''text'')]\<rparr>,
         \<lparr>TableName = ''b'', TableKind = ''v'', TableColumns = []\<rparr>]"
  using listing_roundtrip [of "[\<lparr>TableName = ''a'', TableKind = ''r'', TableColumns = [(''x'', ''int4''), (''y'', ''text'')]\<rparr>,
         \<lparr>TableName = ''b'', TableKind = ''v'', TableColumns = []\<rparr>]"]
  by (simp add: table_rows_def column_row_def)

section \<open>A concrete visit\<close>

definition visit_site :: site where
  "visit_site = \<lparr>sessions = [(''k'', \<lparr>Sid = sample_id, Used = 0\<rparr>)], pending = 0, beat = 0\<rparr>"

definition visit_request :: request where
  "visit_request = sample_request\<lparr>CookieValue := Some ''k'', BodyJson := Request ''SELECT now()'',
     Header := (\<lambda>h. if h = ''Content-Type'' then ''application/json'' else ''playground'')\<rparr>"

lemma visit_sel [simp]: "CookieValue visit_request = Some ''k''"
  by (simp add: visit_request_def)

lemma visit_own: "own_session quiet_web visit_request visit_site = Some \<lparr>Sid = sample_id, Used = 0\<rparr>"
  by (simp add: own_session_def visit_site_def quiet_web_def)

lemma visit_current:
  assumes "row_of (store w) sample_id = Some r"
  shows "current quiet_web quiet_env visit_request visit_site w =
    (Inr (islet_of (metadata_of sample_id r), Renew ''k'' (Tls visit_request)), visit_site\<lparr>beat := 1\<rparr>, bump w)"
  using open_calm [OF quiet_calm assms]
  by (simp add: current_def locked_def touch_def visit_site_def quiet_web_def alive_def session_ttl_def second_def Let_def)

theorem queries_stay_in_own_islet_witness:
  "touches quiet_env (Some sample_id) (store created_world)
     (store (snd (snd (handle_query quiet_web quiet_env sample_manager sample_frontend visit_request visit_site created_world))))"
proof -
  obtain y s' w' where r: "handle_query quiet_web quiet_env sample_manager sample_frontend visit_request visit_site created_world = (y, s', w')"
    by (cases "handle_query quiet_web quiet_env sample_manager sample_frontend visit_request visit_site created_world") auto
  have sound: "sound ''app'' quiet_env sample_frontend sample_manager"
    using quiet_ok quiet_replies(3) sample_app by (simp add: sound_def)
  have "registry_ok ''app'' (store created_world)" using sample_islet by (metis sample_app)
  from queries_stay_in_own_islet [OF sound this disjI1] r visit_own show ?thesis by fastforce
qed

theorem ended_sessions_are_gone_witness:
  "row_of (store (snd (snd (end_session quiet_web quiet_env sample_manager visit_request visit_site created_world)))) sample_id = None"
proof -
  obtain resp s' w' where run: "end_session quiet_web quiet_env sample_manager visit_request visit_site created_world = (resp, s', w')"
    by (cases "end_session quiet_web quiet_env sample_manager visit_request visit_site created_world") auto
  obtain r where row: "row_of (store created_world) sample_id = Some r" "row_state r = ''active''"
    and ok: "registry_ok ''app'' (store created_world)" and own: "owners (store created_world) = {}"
    using sample_created by metis
  let ?h = "islet_of (metadata_of sample_id r)"
  have ok': "registry_ok (Database (Runtime sample_manager)) (store (bump (bump created_world)))"
    using ok by (simp add: sample_manager_def)
  have "fst (Delete quiet_env sample_manager ?h (bump (bump created_world))) = None"
    by (rule delete_calm [OF quiet_calm ok', of _ r]) (use row own sample_no_dependency in simp_all)
  then have "fst (remove quiet_env sample_manager sample_id (bump created_world)) = None"
    using open_calm [OF quiet_calm, of "bump created_world" sample_id r] row by (simp add: remove_def)
  then have "Body resp = DeletedBody"
    using run visit_current [OF row(1)]
    by (cases "remove quiet_env sample_manager sample_id (bump created_world)")
      (auto simp: end_session_def with_cookie_def respond_def split: prod.splits)
  from ended_sessions_are_gone [OF quiet_ok run this] visit_own run show ?thesis by auto
qed

end
