(* ===== verification/Bootstrap.thy ===== *)
theory Bootstrap
  imports Lifecycle
begin

text \<open>
  Making a manager (\<open>New\<close> and \<open>bootstrap\<close> in \<open>internal/engine/manager.go\<close> and \<open>bootstrap.go\<close>): the
  settings of the management connections, and the one transaction that prepares the database. The
  statements act on the part \<open>inst\<close> of the database, on its schemas and on the privileges of
  \<open>PUBLIC\<close>; the management identity is one that may revoke them. Privileges on tables are not
  modelled. The parts of \<open>pgx\<close> that \<open>New\<close> calls are the fields of \<open>driver\<close>, with the row that a query with \<open>LIMIT 1\<close> picks.
\<close>

record driver =
  ParseConfig :: "string \<Rightarrow> go_error + conn_config"
  NewPool :: "conn_config \<Rightarrow> err"
  SanitizeIdentifier :: "string \<Rightarrow> string"
  Pick :: "string set \<Rightarrow> string"

section \<open>Statements\<close>

text \<open>\<open>CREATE SCHEMA IF NOT EXISTS\<close>: a new schema belongs to the current user.\<close>

definition ensure_schema :: "string \<Rightarrow> db \<Rightarrow> db" where
  "ensure_schema s d =
     (if schemas d s \<noteq> None then d
      else d\<lparr>schemas := (schemas d)(s \<mapsto> []),
             inst := (inst d)\<lparr>SchemaOwner := (SchemaOwner (inst d))(s \<mapsto> CurrentUser (inst d))\<rparr>\<rparr>)"

definition ensure_schemas :: "db \<Rightarrow> db" where
  "ensure_schemas d = ensure_schema api_schema (ensure_schema internal_schema d)"

text \<open>The query of \<open>pg_namespace\<close> that asks for two schemas, both of the current user.\<close>

definition owned :: "db \<Rightarrow> bool" where
  "owned d \<longleftrightarrow>
     (\<forall>s \<in> {internal_schema, api_schema}.
        schemas d s \<noteq> None \<and> SchemaOwner (inst d) s = Some (CurrentUser (inst d)))"

text \<open>\<open>CREATE TABLE IF NOT EXISTS\<close> and \<open>INSERT ... ON CONFLICT DO NOTHING\<close> of the version.\<close>

definition ensure_version :: "db \<Rightarrow> db" where
  "ensure_version d =
     (if InternalVersion (inst d) = None then d\<lparr>inst := (inst d)\<lparr>InternalVersion := Some 1\<rparr>\<rparr> else d)"

definition version_sql :: "db \<Rightarrow> go_error + db" where
  "version_sql d =
     (case run_commands [RevokeSchema internal_schema public_role, RevokeSchema api_schema public_role] d of
        Inl e \<Rightarrow> Inl e
      | Inr d \<Rightarrow> Inr (ensure_version d))"

definition registry_sql :: "db \<Rightarrow> go_error + db" where
  "registry_sql d =
     run_commands [RevokeSchema ''public'' public_role] (d\<lparr>inst := (inst d)\<lparr>HasRegistry := True\<rparr>\<rparr>)"

definition revoke_database :: "string \<Rightarrow> db \<Rightarrow> db" where
  "revoke_database c d = revoke (\<lambda>r p. r = public_role \<and> (p = CreateOn c \<or> p = TemporaryOn c)) d"

text \<open>The schemas that grant \<open>PUBLIC\<close> access, among those that are not the server's own.\<close>

definition ordinary :: "string \<Rightarrow> bool" where
  "ordinary s \<longleftrightarrow> take 3 s \<noteq> ''pg_'' \<and> s \<notin> {''information_schema'', ''public''}"

fun schemas_in :: "privilege \<Rightarrow> string set" where
  "schemas_in (UsageOn s) = {s}"
| "schemas_in (CreateIn s) = {s}"
| "schemas_in _ = {}"

definition exposed :: "db \<Rightarrow> string set" where
  "exposed d =
     Set.filter (\<lambda>s. ordinary s \<and> schemas d s \<noteq> None)
       (\<Union>(r, p) \<in> grants d. if r = public_role then schemas_in p else {})"

definition unsafe_schema :: "(string set \<Rightarrow> string) \<Rightarrow> db \<Rightarrow> string option" where
  "unsafe_schema pick d = (if exposed d = {} then None else Some (pick (exposed d)))"

text \<open>
  \<open>CREATE OR REPLACE FUNCTION\<close>, which gives \<open>PUBLIC\<close> the right to execute a function that is new, and the
  revocation of it.
\<close>

definition create_function :: "string \<Rightarrow> db \<Rightarrow> db" where
  "create_function f d =
     (if f \<in> HasFunctions (inst d) then d
      else grant public_role [ExecuteOn f]
             (d\<lparr>inst := (inst d)\<lparr>HasFunctions := insert f (HasFunctions (inst d))\<rparr>\<rparr>))"

definition revoke_function :: "string \<Rightarrow> db \<Rightarrow> db" where
  "revoke_function f d = revoke (\<lambda>r p. r = public_role \<and> p = ExecuteOn f) d"

definition gateway_sql :: "db \<Rightarrow> db" where
  "gateway_sql d =
     revoke_function finish_fn (create_function finish_fn
       (revoke_function enter_fn (create_function enter_fn d)))"

text \<open>
  \<open>pg_advisory_xact_lock\<close>: what others committed while the call waited is seen by the statements
  after it, as the transaction has written nothing before.
\<close>

definition advisory_lock :: "env \<Rightarrow> tx \<Rightarrow> world \<Rightarrow> err \<times> tx \<times> world" where
  "advisory_lock ev t w0 =
     (let w = interfere ev w0
      in case exec_error (tx_call ev (\<lambda>_ v. Inr ((), v)) t w) of
           (None, t, w') \<Rightarrow> (None, t\<lparr>View := store w\<rparr>, w')
         | x \<Rightarrow> x)"

section \<open>bootstrap\<close>

text \<open>The verb \<open>%q\<close>; text outside ASCII is kept as it is.\<close>

definition quoted_char :: "char \<Rightarrow> string" where
  "quoted_char c =
     (if c = CHR 0x22 then [CHR 0x5C, CHR 0x22]
      else if c = CHR 0x5C then [CHR 0x5C, CHR 0x5C]
      else if c = CHR 0x07 then [CHR 0x5C, CHR ''a'']
      else if c = CHR 0x08 then [CHR 0x5C, CHR ''b'']
      else if c = CHR 0x0C then [CHR 0x5C, CHR ''f'']
      else if c = CHR 0x0A then [CHR 0x5C, CHR ''n'']
      else if c = CHR 0x0D then [CHR 0x5C, CHR ''r'']
      else if c = CHR 0x09 then [CHR 0x5C, CHR ''t'']
      else if c = CHR 0x0B then [CHR 0x5C, CHR ''v'']
      else if (of_char c :: nat) < 32 \<or> c = CHR 0x7F then [CHR 0x5C, CHR ''x''] @ hex_encode [of_char c]
      else [c])"

definition quoted :: "string \<Rightarrow> string" where
  "quoted s = [CHR 0x22] @ concat (map quoted_char s) @ [CHR 0x22]"

definition unsupported :: "go_error \<Rightarrow> go_error" where
  "unsupported e = wrap ErrUnsupported (Some e)"

text \<open>The names of \<open>pg_catalog\<close>'s functions all map to false.\<close>

definition reserved_map :: "string list \<Rightarrow> string \<rightharpoonup> bool" where
  "reserved_map names = fold (\<lambda>name m. m(name \<mapsto> False)) names Map.empty"

text \<open>
  The first half, up to the check of the internal version: the name of the database, or the error.
\<close>

definition check_tx ::
  "env \<Rightarrow> tx \<Rightarrow> world \<Rightarrow> (go_error + string) \<times> tx \<times> world" where
  "check_tx ev t w =
     (case tx_call ev (\<lambda>_ d. Inr ((ServerVersion (inst d), CurrentDatabase (inst d)), d)) t w of
        (Inl e, t, w) \<Rightarrow> (Inl (unsupported e), t, w)
      | (Inr server, t, w) \<Rightarrow>
     (case server of (version, database) \<Rightarrow>
     (if version < 170000 \<or> version \<ge> 190000
      then (Inl (unsupported (Errorf (''PostgreSQL 17 or 18 required, got '' @ int_string version))), t, w)
      else
     (case advisory_lock ev t w of
        (Some e, t, w) \<Rightarrow> (Inl e, t, w)
      | (None, t, w) \<Rightarrow>
     (case tx_change ev (\<lambda>_ d. Inr (ensure_schemas d)) t w of
        (Some e, t, w) \<Rightarrow> (Inl (unsupported e), t, w)
      | (None, t, w) \<Rightarrow>
     (case tx_call ev (\<lambda>_ d. Inr (owned d, d)) t w of
        (Inl e, t, w) \<Rightarrow> (Inl e, t, w)
      | (Inr ok, t, w) \<Rightarrow>
     (if \<not> ok
      then (Inl (unsupported (Errorf ''internal schemas must belong to management identity'')), t, w)
      else
     (case tx_change ev (\<lambda>_. version_sql) t w of
        (Some e, t, w) \<Rightarrow> (Inl e, t, w)
      | (None, t, w) \<Rightarrow>
     (case tx_call ev (\<lambda>_ d. Inr (InternalVersion (inst d), d)) t w of
        (row, t, w) \<Rightarrow>
     (case scan row of
        Inl e \<Rightarrow> (Inl e, t, w)
      | Inr version \<Rightarrow>
          if version \<noteq> 1
          then (Inl (unsupported (Errorf (''unsupported internal schema version '' @ int_string version))), t, w)
          else (Inr database, t, w)))))))))))"

text \<open>The second half: the registry, the privileges of \<open>PUBLIC\<close>, the functions, and the commit.\<close>

definition install_tx ::
  "driver \<Rightarrow> env \<Rightarrow> string \<Rightarrow> tx \<Rightarrow> world \<Rightarrow> (go_error + (string \<rightharpoonup> bool)) \<times> world" where
  "install_tx dr ev database t w =
     (case tx_change ev (\<lambda>_. registry_sql) t w of
        (Some e, t, w) \<Rightarrow> (Inl e, w)
      | (None, t, w) \<Rightarrow>
     (case tx_change ev (\<lambda>_ d. Inr (revoke_database database d)) t w of
        (Some e, t, w) \<Rightarrow> (Inl e, w)
      | (None, t, w) \<Rightarrow>
     (case tx_call ev (\<lambda>_ d. Inr (unsafe_schema (Pick dr) d, d)) t w of
        (row, t, w) \<Rightarrow>
     (case scan row of
        Inr s \<Rightarrow> (Inl (unsupported (Errorf (''schema '' @ quoted s @ '' grants PUBLIC access''))), w)
      | Inl e \<Rightarrow>
     (if e \<noteq> Sentinel NoRows then (Inl e, w)
      else
     (case tx_change ev (\<lambda>_ d. Inr (gateway_sql d)) t w of
        (Some e, t, w) \<Rightarrow> (Inl e, w)
      | (None, t, w) \<Rightarrow>
     (case tx_call ev (\<lambda>n d. Inr (reserved_map (ProcNames ev n ''pg_catalog'' d), d)) t w of
        (Inl e, t, w) \<Rightarrow> (Inl e, w)
      | (Inr reserved, t, w) \<Rightarrow>
     (case commit ev t w of
        (e, w) \<Rightarrow> ((case e of Some e \<Rightarrow> Inl e | None \<Rightarrow> Inr reserved), w)))))))))"

definition bootstrap_tx ::
  "driver \<Rightarrow> env \<Rightarrow> tx \<Rightarrow> world \<Rightarrow> (go_error + (string \<rightharpoonup> bool)) \<times> world" where
  "bootstrap_tx dr ev t w =
     (case check_tx ev t w of
        (Inl e, t, w) \<Rightarrow> (Inl e, w)
      | (Inr database, t, w) \<Rightarrow> install_tx dr ev database t w)"

definition bootstrap :: "driver \<Rightarrow> env \<Rightarrow> world \<Rightarrow> (go_error + (string \<rightharpoonup> bool)) \<times> world" where
  "bootstrap dr ev w = with_tx ev (\<lambda>e. Inl (unsupported e)) (bootstrap_tx dr ev) w"

section \<open>New\<close>

text \<open>The settings every management connection gets.\<close>

definition management_config :: "config \<Rightarrow> conn_config \<Rightarrow> conn_config" where
  "management_config cfg pc =
     pc\<lparr>RuntimeParams := (RuntimeParams pc)
        (''search_path'' \<mapsto> ''pg_catalog'',
         ''statement_timeout'' \<mapsto> timeout_setting (OperationTimeout cfg),
         ''lock_timeout'' \<mapsto> timeout_setting (LockTimeout cfg),
         ''idle_in_transaction_session_timeout'' \<mapsto> timeout_setting (IdleTransactionTimeout cfg))\<rparr>"

definition New :: "driver \<Rightarrow> env \<Rightarrow> config \<Rightarrow> world \<Rightarrow> (go_error + manager) \<times> world" where
  "New dr ev cfg w =
     (case normalized cfg of
        (_, Some e) \<Rightarrow> (Inl e, w)
      | (cfg, None) \<Rightarrow>
     (case ParseConfig dr (DSN cfg) of
        Inl e \<Rightarrow> (Inl e, w)
      | Inr pc \<Rightarrow>
     (let pc = management_config cfg pc
      in case NewPool dr pc of
           Some e \<Rightarrow> (Inl e, w)
         | None \<Rightarrow>
     (case bootstrap dr ev w of
        (Inl e, w) \<Rightarrow> (Inl e, w)
      | (Inr reserved, w) \<Rightarrow>
          (Inr \<lparr>Runtime = pc, Settings = cfg, Reserved = reserved, Sanitize = SanitizeIdentifier dr\<rparr>, w)))))"

end
