(* ===== verification/Playground.thy ===== *)
theory Playground
  imports Bootstrap Initialize
begin

text \<open>
  The demonstration program (\<open>examples/playground/playground.go\<close>): two application nodes on one
  database, two islets, and the deferred \<open>cleanup\<close> of both whatever happens in between. What is
  printed is a list of values; \<open>main.go\<close> around it is I/O.
\<close>

datatype line =
    SeedQueried "go_any list list"
  | SeedDropped
  | AccessDenied
  | Fenced
  | Restored go_any
  | AllDeleted
  | CleanupFailed go_error

text \<open>How a run ends: with its error, if any, or with a panic (an index out of range).\<close>

datatype ending = Returns err | Panics

text \<open>\<open>cleanup\<close>.\<close>

definition cleanup :: "env \<Rightarrow> manager \<Rightarrow> string \<Rightarrow> world \<Rightarrow> line list \<times> world" where
  "cleanup ev m i w =
     (case open_islet ev i w of
        ((h, e), w) \<Rightarrow>
          if is_err e ErrNotFound then ([], w)
          else
     (case (if e = None \<and> State h = ''initializing'' then Recover ev h w else ((h, e), w)) of
        ((h, e), w) \<Rightarrow>
     (case (if e = None then Delete ev m h w else (e, w)) of
        (Some e, w) \<Rightarrow> ([CleanupFailed e], w)
      | (None, w) \<Rightarrow> ([], w))))"

text \<open>\<open>rows[0][0]\<close>: None is a panic.\<close>

definition first_value :: "result \<Rightarrow> go_any option" where
  "first_value r = (case Rows r of (x # _) # _ \<Rightarrow> Some x | _ \<Rightarrow> None)"

text \<open>The verb \<open>%s\<close>.\<close>

definition shown :: "go_any \<Rightarrow> string" where
  "shown x = (case x of StringValue s \<Rightarrow> s | NilValue \<Rightarrow> ''%!s(<nil>)'')"

text \<open>The verb \<open>%v\<close>, of an error (\<open>ext\<close> gives the texts of errors from outside) and of rows.\<close>

definition err_text :: "(go_error \<Rightarrow> string) \<Rightarrow> err \<Rightarrow> string" where
  "err_text ext e = (case e of None \<Rightarrow> ''<nil>'' | Some e \<Rightarrow> error_text ext e)"

definition list_text :: "('a \<Rightarrow> string) \<Rightarrow> 'a list \<Rightarrow> string" where
  "list_text f xs = ''['' @ join '' '' (map f xs) @ '']''"

definition rows_text :: "go_any list list \<Rightarrow> string" where
  "rows_text = list_text (list_text (\<lambda>x. case x of StringValue s \<Rightarrow> s | NilValue \<Rightarrow> ''<nil>''))"

definition learners :: "string list" where
  "learners =
     [''CREATE TABLE learners(id int PRIMARY KEY,name text)'',
      ''INSERT INTO learners VALUES(1,'Alice'),(2,'Bob')'']"

text \<open>The last part of \<open>Run\<close>, from \<open>Reset\<close> on.\<close>

definition run_reset ::
  "(go_error \<Rightarrow> string) \<Rightarrow> env \<Rightarrow> manager \<Rightarrow> manager \<Rightarrow> frontend \<Rightarrow> islet \<Rightarrow> islet \<Rightarrow> world \<Rightarrow> (ending \<times> line list) \<times> world" where
  "run_reset ext ev m node fe a b w =
     (case Reset ev a w of
        ((a', Some e), w) \<Rightarrow> ((Returns (Some e), []), w)
      | ((a', None), w) \<Rightarrow>
     (case Execute ev node fe a ''SELECT 1'' w of
        ((_, e), w) \<Rightarrow>
     (if \<not> is_err e ErrStaleGeneration
      then ((Returns (Some (Errorf (''expected stale generation, got '' @ err_text ext e))), []), w)
      else
     (case Reinitialize ev m fe a' learners w of
        ((a', Some e), w) \<Rightarrow> ((Returns (Some e), [Fenced]), w)
      | ((a', None), w) \<Rightarrow>
     (case Execute ev node fe a' ''SELECT count(*) FROM learners'' w of
        ((_, Some e), w) \<Rightarrow> ((Returns (Some e), [Fenced]), w)
      | ((r, None), w) \<Rightarrow>
     (case first_value r of
        None \<Rightarrow> ((Panics, [Fenced]), w)
      | Some v \<Rightarrow>
     (if v \<noteq> StringValue ''2''
      then ((Returns (Some (Errorf (''unexpected restored rows: '' @ rows_text (Rows r)))), [Fenced]), w)
      else
     (case Delete ev m a' w of
        (Some e, w) \<Rightarrow> ((Returns (Some e), [Fenced, Restored v]), w)
      | (None, w) \<Rightarrow>
     (case Delete ev m b w of
        (Some e, w) \<Rightarrow> ((Returns (Some e), [Fenced, Restored v]), w)
      | (None, w) \<Rightarrow> ((Returns None, [Fenced, Restored v, AllDeleted]), w))))))))))"

text \<open>The part of \<open>Run\<close> that works on both islets.\<close>

definition run_islets ::
  "(go_error \<Rightarrow> string) \<Rightarrow> env \<Rightarrow> manager \<Rightarrow> manager \<Rightarrow> frontend \<Rightarrow> islet \<Rightarrow> islet \<Rightarrow> world \<Rightarrow> (ending \<times> line list) \<times> world" where
  "run_islets ext ev m node fe a b w =
     (case Execute ev node fe a ''SELECT name FROM learners ORDER BY id'' w of
        ((_, Some e), w) \<Rightarrow> ((Returns (Some e), []), w)
      | ((r, None), w) \<Rightarrow>
     (case Execute ev m fe a ''DROP TABLE learners'' w of
        ((_, Some e), w) \<Rightarrow> ((Returns (Some e), [SeedQueried (Rows r)]), w)
      | ((_, None), w) \<Rightarrow>
     (case Execute ev m fe b ''SELECT current_schema()'' w of
        ((_, Some e), w) \<Rightarrow> ((Returns (Some e), [SeedQueried (Rows r), SeedDropped]), w)
      | ((schema, None), w) \<Rightarrow>
     (case Execute ev m fe b ''CREATE TABLE private_data(n int)'' w of
        ((_, Some e), w) \<Rightarrow> ((Returns (Some e), [SeedQueried (Rows r), SeedDropped]), w)
      | ((_, None), w) \<Rightarrow>
     (case first_value schema of
        None \<Rightarrow> ((Panics, [SeedQueried (Rows r), SeedDropped]), w)
      | Some s \<Rightarrow>
     (case Execute ev m fe a (''SELECT * FROM '' @ shown s @ ''.private_data'') w of
        ((_, e), w) \<Rightarrow>
     (if \<not> is_err e ErrQuery
      then ((Returns (Some (Errorf (''expected PostgreSQL isolation error, got '' @ err_text ext e))), [SeedQueried (Rows r), SeedDropped]), w)
      else
     (case run_reset ext ev m node fe a b w of
        ((x, out), w) \<Rightarrow> ((x, [SeedQueried (Rows r), SeedDropped, AccessDenied] @ out), w)))))))))"

text \<open>\<open>Run\<close>: the deferred calls run in reverse order, also on a panic.\<close>

definition run_managers ::
  "(go_error \<Rightarrow> string) \<Rightarrow> env \<Rightarrow> manager \<Rightarrow> manager \<Rightarrow> frontend \<Rightarrow> world \<Rightarrow> (ending \<times> line list) \<times> world" where
  "run_managers ext ev m node fe w =
     (case CreateWithInitialization ev m fe learners w of
        ((a, Some e), w) \<Rightarrow> ((Returns (Some e), []), w)
      | ((a, None), w) \<Rightarrow>
     (case Create ev m w of
        ((b, Some e), w) \<Rightarrow>
          (case cleanup ev m (ID a) w of (out, w) \<Rightarrow> ((Returns (Some e), out), w))
      | ((b, None), w) \<Rightarrow>
     (case run_islets ext ev m node fe a b w of
        ((x, out), w) \<Rightarrow>
     (case cleanup ev m (ID b) w of
        (out1, w) \<Rightarrow>
     (case cleanup ev m (ID a) w of
        (out2, w) \<Rightarrow> ((x, out @ out1 @ out2), w))))))"

definition Run_playground ::
  "(go_error \<Rightarrow> string) \<Rightarrow> driver \<Rightarrow> env \<Rightarrow> frontend \<Rightarrow> string \<Rightarrow> world \<Rightarrow> (ending \<times> line list) \<times> world" where
  "Run_playground ext dr ev fe dsn w =
     (let cfg = empty_config\<lparr>DSN := dsn\<rparr>
      in case New dr ev cfg w of
           (Inl e, w) \<Rightarrow> ((Returns (Some e), []), w)
         | (Inr m, w) \<Rightarrow>
     (case New dr ev cfg w of
        (Inl e, w) \<Rightarrow> ((Returns (Some e), []), w)
      | (Inr node, w) \<Rightarrow> run_managers ext ev m node fe w))"

end
