(* ===== verification/BootstrapSafety.thy ===== *)
theory BootstrapSafety
  imports Bootstrap Outcomes
begin

text \<open>
  What \<open>New\<close> does to the database. The specification is one function, \<open>install\<close>, on the databases
  that \<open>supported\<close> takes: a call of \<open>New\<close> has the whole effect of \<open>install\<close> or none. Installing keeps
  every islet, brings a database without islets in order, closes it to \<open>PUBLIC\<close>, and does nothing
  the second time.
\<close>

section \<open>The specification\<close>

definition install :: "db \<Rightarrow> db" where
  "install d0 =
     (let d = ensure_schemas d0;
          d = revoke (\<lambda>r p. r = public_role \<and> on_schema internal_schema p) d;
          d = revoke (\<lambda>r p. r = public_role \<and> on_schema api_schema p) d;
          d = ensure_version d;
          d = d\<lparr>inst := (inst d)\<lparr>HasRegistry := True\<rparr>\<rparr>;
          d = revoke (\<lambda>r p. r = public_role \<and> on_schema ''public'' p) d;
          d = revoke_database (CurrentDatabase (inst d)) d
      in gateway_sql d)"

definition supported :: "db \<Rightarrow> bool" where
  "supported d \<longleftrightarrow>
     170000 \<le> ServerVersion (inst d) \<and> ServerVersion (inst d) < 190000 \<and>
     (\<forall>s \<in> {internal_schema, api_schema}.
        schemas d s \<noteq> None \<longrightarrow> SchemaOwner (inst d) s = Some (CurrentUser (inst d))) \<and>
     InternalVersion (inst d) \<in> {None, Some 1} \<and>
     schemas d ''public'' \<noteq> None \<and>
     (\<forall>s. ordinary s \<longrightarrow> s \<notin> {internal_schema, api_schema} \<longrightarrow> schemas d s \<noteq> None \<longrightarrow>
        (public_role, UsageOn s) \<notin> grants d \<and> (public_role, CreateIn s) \<notin> grants d)"

text \<open>The privileges that \<open>PUBLIC\<close> loses.\<close>

definition closed :: "string \<Rightarrow> privilege \<Rightarrow> bool" where
  "closed c p \<longleftrightarrow>
     on_schema internal_schema p \<or> on_schema api_schema p \<or> on_schema ''public'' p \<or>
     p \<in> {CreateOn c, TemporaryOn c, ExecuteOn enter_fn, ExecuteOn finish_fn}"

section \<open>The statements, field by field\<close>

lemma public_apart [simp]: "internal_schema \<noteq> ''public''" "''public'' \<noteq> internal_schema"
  "api_schema \<noteq> ''public''" "''public'' \<noteq> api_schema" "schema_of i \<noteq> ''public''" "''public'' \<noteq> schema_of i"
  by (simp_all add: internal_schema_def api_schema_def schema_of_def)

lemma functions_apart [simp]: "enter_fn \<noteq> finish_fn" "finish_fn \<noteq> enter_fn"
  by (simp_all add: enter_fn_def finish_fn_def)

lemma ensure_schemas_sel [simp]:
  "islets (ensure_schemas d) = islets d" "roles (ensure_schemas d) = roles d"
  "grants (ensure_schemas d) = grants d" "owners (ensure_schemas d) = owners d"
  "ServerVersion (inst (ensure_schemas d)) = ServerVersion (inst d)"
  "CurrentDatabase (inst (ensure_schemas d)) = CurrentDatabase (inst d)"
  "CurrentUser (inst (ensure_schemas d)) = CurrentUser (inst d)"
  "InternalVersion (inst (ensure_schemas d)) = InternalVersion (inst d)"
  "HasRegistry (inst (ensure_schemas d)) = HasRegistry (inst d)"
  "HasFunctions (inst (ensure_schemas d)) = HasFunctions (inst d)"
  "schemas (ensure_schemas d) s =
     (if s \<in> {internal_schema, api_schema} \<and> schemas d s = None then Some [] else schemas d s)"
  "SchemaOwner (inst (ensure_schemas d)) s =
     (if s \<in> {internal_schema, api_schema} \<and> schemas d s = None then Some (CurrentUser (inst d))
      else SchemaOwner (inst d) s)"
  by (auto simp: ensure_schemas_def ensure_schema_def)

lemma ensure_version_sel [simp]:
  "islets (ensure_version d) = islets d" "roles (ensure_version d) = roles d"
  "grants (ensure_version d) = grants d" "owners (ensure_version d) = owners d"
  "schemas (ensure_version d) = schemas d"
  "inst (ensure_version d) = (inst d)\<lparr>InternalVersion := Some (case InternalVersion (inst d) of None \<Rightarrow> 1 | Some v \<Rightarrow> v)\<rparr>"
  by (auto simp: ensure_version_def split: option.splits)

lemma create_function_sel [simp]:
  "islets (create_function f d) = islets d" "roles (create_function f d) = roles d"
  "schemas (create_function f d) = schemas d" "owners (create_function f d) = owners d"
  "inst (create_function f d) = (inst d)\<lparr>HasFunctions := insert f (HasFunctions (inst d))\<rparr>"
  "(g, p) \<in> grants (create_function f d) \<longleftrightarrow>
     (g, p) \<in> grants d \<or> (f \<notin> HasFunctions (inst d) \<and> g = public_role \<and> p = ExecuteOn f)"
  by (auto simp: create_function_def insert_absorb)

lemma install_sel [simp]:
  "islets (install d) = islets d" "roles (install d) = roles d" "owners (install d) = owners d"
  "schemas (install d) s = schemas (ensure_schemas d) s"
  "ServerVersion (inst (install d)) = ServerVersion (inst d)"
  "CurrentDatabase (inst (install d)) = CurrentDatabase (inst d)"
  "CurrentUser (inst (install d)) = CurrentUser (inst d)"
  "SchemaOwner (inst (install d)) s = SchemaOwner (inst (ensure_schemas d)) s"
  "InternalVersion (inst (install d)) = Some (case InternalVersion (inst d) of None \<Rightarrow> 1 | Some v \<Rightarrow> v)"
  "HasRegistry (inst (install d))"
  "HasFunctions (inst (install d)) = {enter_fn, finish_fn} \<union> HasFunctions (inst d)"
  "(g, p) \<in> grants (install d) \<longleftrightarrow>
     (g, p) \<in> grants d \<and> \<not> (g = public_role \<and> closed (CurrentDatabase (inst d)) p)"
  by (auto simp: install_def Let_def gateway_sql_def revoke_function_def revoke_database_def closed_def)

lemma installed_twice: "install (install d) = install d"
  by (intro db_eqI installation.equality) (auto simp: fun_eq_iff split: option.splits)

lemma supported_install: "supported d \<Longrightarrow> supported (install d)"
  by (auto simp: supported_def split: option.splits)

section \<open>A run of bootstrap\<close>

text \<open>The version, the database and the user are those of the connection.\<close>

definition same_server :: "env \<Rightarrow> bool" where
  "same_server ev \<longleftrightarrow>
     (\<forall>n d. ServerVersion (inst (Others ev n d)) = ServerVersion (inst d) \<and>
        CurrentDatabase (inst (Others ev n d)) = CurrentDatabase (inst d))"

text \<open>The database after the first half.\<close>

definition prepared :: "db \<Rightarrow> db" where
  "prepared d =
     ensure_version (revoke (\<lambda>r p. r = public_role \<and> on_schema api_schema p)
       (revoke (\<lambda>r p. r = public_role \<and> on_schema internal_schema p) (ensure_schemas d)))"

lemma version_sql_prepared: "version_sql (ensure_schemas d) = Inr (prepared d)"
  by (auto simp: version_sql_def prepared_def with_schema_def with_role_def)

lemma advisory_lock_rule:
  assumes "\<And>e t' w'. began ev (store w) (store w') \<Longrightarrow> Q (A e t' w')"
    and "\<And>t' w'. began ev (store w) (store w') \<Longrightarrow> View t' = store w' \<Longrightarrow> Status t' = Healthy \<Longrightarrow> Q (B t' w')"
  shows "Q (case advisory_lock ev t w of (Some e, t, w) \<Rightarrow> A e t w | (None, t, w) \<Rightarrow> B t w)"
proof -
  let ?w = "interfere ev w"
  obtain e t1 w1 where c: "exec_error (tx_call ev (\<lambda>_ v. Inr ((), v)) t ?w) = (e, t1, w1)"
    by (cases "exec_error (tx_call ev (\<lambda>_ v. Inr ((), v)) t ?w)") auto
  have b: "began ev (store w) (store ?w)" by (auto simp: began_def interfere_def)
  show ?thesis
    using assms exec_error_call [OF c] b by (cases e) (simp_all add: advisory_lock_def c)
qed

definition passes :: "db \<Rightarrow> bool" where
  "passes d \<longleftrightarrow>
     170000 \<le> ServerVersion (inst d) \<and> ServerVersion (inst d) < 190000 \<and> owned (ensure_schemas d) \<and>
     InternalVersion (inst d) \<in> {None, Some 1}"

lemma check_tx_law:
  assumes same: "same_server ev" and view: "View t = store w"
    and err: "\<And>e t' w'. store w' = store w \<or> began ev (store w) (store w') \<Longrightarrow> P (Inl e, t', w')"
    and ok: "\<And>t' w'. began ev (store w) (store w') \<Longrightarrow> passes (store w') \<Longrightarrow>
      View t' = prepared (store w') \<Longrightarrow> Status t' = Healthy \<Longrightarrow> P (Inr (CurrentDatabase (inst (store w'))), t', w')"
  shows "P (check_tx ev t w)"
  unfolding check_tx_def
proof (rule tx_call_branch_rule, goal_cases)
  case (1 e t1 w1)
  then show ?case by (auto intro: err)
next
  case (2 server t1 w1 n)
  then have server: "server = (ServerVersion (inst (store w)), CurrentDatabase (inst (store w)))"
    and w1: "store w1 = store w" by (auto simp: view)
  show ?case
  proof (cases "ServerVersion (inst (store w)) < 170000 \<or> 190000 \<le> ServerVersion (inst (store w))")
    case True
    with w1 show ?thesis by (auto simp: server intro: err)
  next
    case False
    note version = this
    show ?thesis
      unfolding server prod.case if_not_P [OF False]
    proof (rule advisory_lock_rule, goal_cases)
      case (1 e t2 w2)
      with w1 show ?case by (auto intro: err)
    next
      case (2 t2 w2)
      then have b: "began ev (store w) (store w2)" and at2: "View t2 = store w2" using w1 by auto
      from b same have "ServerVersion (inst (store w2)) = ServerVersion (inst (store w))"
        and db: "CurrentDatabase (inst (store w)) = CurrentDatabase (inst (store w2))"
        by (auto simp: began_def same_server_def)
      with version have version: "170000 \<le> ServerVersion (inst (store w2))" "ServerVersion (inst (store w2)) < 190000"
        by auto
      show ?case
        unfolding db
      proof (rule tx_change_rule, goal_cases)
        case (1 e t3 w3)
        with b show ?case by (auto intro: err)
      next
        case (2 t3 w3 now)
        note at3 = 2 [unfolded at2]
        show ?case
        proof (rule tx_call_branch_rule, goal_cases)
          case (1 e t4 w4)
          with b at3 show ?case by (auto intro: err)
        next
          case (2 own t4 w4 n)
          then have own: "own = owned (ensure_schemas (store w2))" and at4: "View t4 = ensure_schemas (store w2)"
            "store w4 = store w2" using at3 by auto
          show ?case
          proof (cases own)
            case False
            with b at4 show ?thesis by (auto intro: err)
          next
            case True
            then have go: "\<not> \<not> own" by simp
            show ?thesis
              unfolding if_not_P [OF go]
            proof (rule tx_change_rule, goal_cases)
              case (1 e t5 w5)
              with b at4 show ?case by (auto intro: err)
            next
              case (2 t5 w5 now)
              then have at5: "View t5 = prepared (store w2)" "store w5 = store w2" using at4
                by (simp_all add: version_sql_prepared)
              show ?case
              proof (rule tx_call_rule, goal_cases)
                case (1 e t6 w6)
                with b at5 show ?case by (auto simp: scan_def intro: err)
              next
                case (2 v t6 w6 n)
                then have at6: "View t6 = prepared (store w2)" "store w6 = store w2" "Status t6 = Healthy"
                  and v: "v = Some (case InternalVersion (inst (store w2)) of None \<Rightarrow> 1 | Some v \<Rightarrow> v)"
                  using at5 by (simp_all add: prepared_def)
                show ?case
                proof (cases "the v = 1")
                  case False
                  with b at6 show ?thesis by (auto simp: v scan_def intro: err)
                next
                  case True
                  with version own \<open>own\<close> have "passes (store w2)"
                    by (auto simp: passes_def v split: option.splits)
                  with ok [of w6 t6] b at6 True show ?thesis by (simp add: v scan_def)
                qed
              qed
            qed
          qed
        qed
      qed
    qed
  qed
qed

text \<open>The second half.\<close>

definition opened :: "db \<Rightarrow> db" where
  "opened d =
     revoke_database (CurrentDatabase (inst d))
       (revoke (\<lambda>r p. r = public_role \<and> on_schema ''public'' p)
         ((prepared d)\<lparr>inst := (inst (prepared d))\<lparr>HasRegistry := True\<rparr>\<rparr>))"

lemma prepared_sel [simp]:
  "schemas (prepared d) s = schemas (ensure_schemas d) s"
  "CurrentDatabase (inst (prepared d)) = CurrentDatabase (inst d)"
  "(g, p) \<in> grants (prepared d) \<longleftrightarrow>
     (g, p) \<in> grants d \<and> \<not> (g = public_role \<and> (on_schema internal_schema p \<or> on_schema api_schema p))"
  by (auto simp: prepared_def)

lemma registry_sql_opened:
  "registry_sql (prepared d) = Inr v \<longleftrightarrow>
     schemas d ''public'' \<noteq> None \<and> revoke_database (CurrentDatabase (inst d)) v = opened d \<and>
     v = revoke (\<lambda>r p. r = public_role \<and> on_schema ''public'' p)
         ((prepared d)\<lparr>inst := (inst (prepared d))\<lparr>HasRegistry := True\<rparr>\<rparr>)"
  by (auto simp: registry_sql_def opened_def with_schema_def with_role_def split: sum.splits)

lemma install_opened: "gateway_sql (opened d) = install d"
  by (simp add: install_def opened_def prepared_def Let_def)

lemma exposed_empty:
  "exposed d = {} \<longleftrightarrow>
     (\<forall>s. ordinary s \<longrightarrow> schemas d s \<noteq> None \<longrightarrow>
        (public_role, UsageOn s) \<notin> grants d \<and> (public_role, CreateIn s) \<notin> grants d)"
proof -
  have in_schema: "s \<in> schemas_in p \<longleftrightarrow> on_schema s p" for s p
    by (cases p) auto
  have "s \<in> exposed d \<longleftrightarrow> ordinary s \<and> schemas d s \<noteq> None \<and> (\<exists>p. (public_role, p) \<in> grants d \<and> on_schema s p)" for s
    unfolding in_schema [symmetric] by (force simp: exposed_def split: if_splits)
  then show ?thesis unfolding on_schema_def by blast
qed

lemma opened_sel:
  "schemas (opened d) s = schemas (ensure_schemas d) s"
  "(public_role, UsageOn s) \<in> grants (opened d) \<longleftrightarrow>
     (public_role, UsageOn s) \<in> grants d \<and> s \<notin> {internal_schema, api_schema, ''public''}"
  "(public_role, CreateIn s) \<in> grants (opened d) \<longleftrightarrow>
     (public_role, CreateIn s) \<in> grants d \<and> s \<notin> {internal_schema, api_schema, ''public''}"
  by (auto simp: opened_def revoke_database_def)

lemma owned_ensured:
  "owned (ensure_schemas d) \<longleftrightarrow>
     (\<forall>s \<in> {internal_schema, api_schema}.
        schemas d s \<noteq> None \<longrightarrow> SchemaOwner (inst d) s = Some (CurrentUser (inst d)))"
  by (auto simp: owned_def)

lemma supported_passes: "supported d \<Longrightarrow> passes d"
  unfolding supported_def passes_def owned_ensured by blast

lemma supported_opened:
  assumes "passes d" and "schemas d ''public'' \<noteq> None"
  shows "exposed (opened d) = {} \<longleftrightarrow> supported d"
proof -
  have public: "\<not> ordinary ''public''" by (simp add: ordinary_def)
  have "(ordinary s \<longrightarrow> schemas (opened d) s \<noteq> None \<longrightarrow>
        (public_role, UsageOn s) \<notin> grants (opened d) \<and> (public_role, CreateIn s) \<notin> grants (opened d)) \<longleftrightarrow>
      (ordinary s \<longrightarrow> s \<notin> {internal_schema, api_schema} \<longrightarrow> schemas d s \<noteq> None \<longrightarrow>
        (public_role, UsageOn s) \<notin> grants d \<and> (public_role, CreateIn s) \<notin> grants d)" for s
  proof (cases "s \<in> {internal_schema, api_schema, ''public''}")
    case True
    with public show ?thesis by (auto simp: opened_sel(2,3))
  next
    case False
    then show ?thesis by (simp add: opened_sel)
  qed
  then show ?thesis using assms unfolding exposed_empty supported_def passes_def owned_ensured by blast
qed

lemma broken_change:
  "Status t \<noteq> Healthy \<Longrightarrow> \<exists>e w'. tx_change ev f t w = (Some e, t, w') \<and> store w' = store w"
  by (cases "Status t") (simp_all add: tx_change_def exec_error_def tx_call_def)

lemma install_tx_law:
  assumes view: "View t = prepared (store w)" and pass: "passes (store w)"
    and err: "\<And>e w'. store w' = store w \<Longrightarrow> P (Inl e, w')"
    and ok: "\<And>x w'. supported (store w) \<Longrightarrow> store w' = install (store w) \<Longrightarrow>
      (case x of Inl e \<Rightarrow> errors_is e ErrOutcomeUnknown | Inr m \<Rightarrow> True) \<Longrightarrow> P (x, w')"
  shows "P (install_tx dr ev (CurrentDatabase (inst (store w))) t w)"
  unfolding install_tx_def
proof (rule tx_change_rule, goal_cases)
  case (1 e t1 w1)
  then show ?case by (auto intro: err)
next
  case (2 t1 w1 now)
  then have public: "schemas (store w) ''public'' \<noteq> None" and w1: "store w1 = store w"
    and at1: "revoke_database (CurrentDatabase (inst (store w))) (View t1) = opened (store w)"
    using view by (auto simp: registry_sql_opened)
  show ?case
  proof (rule tx_change_rule, goal_cases)
    case (1 e t2 w2)
    with w1 show ?case by (auto intro: err)
  next
    case (2 t2 w2 now)
    with at1 w1 have at2: "View t2 = opened (store w)" "store w2 = store w" by simp_all
    show ?case
    proof (rule tx_call_rule, goal_cases)
      case (1 e t3 w3)
      from broken_change [OF 1(4)] obtain e' w4
        where "tx_change ev (\<lambda>_ d. Inr (gateway_sql d)) t3 w3 = (Some e', t3, w4)" "store w4 = store w3" by blast
      with 1 at2 show ?case by (auto simp: scan_def intro: err)
    next
      case (2 row t3 w3 n)
      then have at3: "View t3 = opened (store w)" "store w3 = store w"
        and row: "row = unsafe_schema (Pick dr) (opened (store w))" using at2 by auto
      show ?case
      proof (cases row)
        case (Some s)
        with at3 show ?thesis by (auto simp: scan_def intro: err)
      next
        case None
        then have sup: "supported (store w)" using supported_opened [OF pass public] row
          by (simp add: unsafe_schema_def split: if_splits)
        have "P (case tx_change ev (\<lambda>_ d. Inr (gateway_sql d)) t3 w3 of
            (None, t, w) \<Rightarrow> case tx_call ev (\<lambda>n d. Inr (reserved_map (ProcNames ev n ''pg_catalog'' d), d)) t w of
                (Inl e, t, x) \<Rightarrow> (Inl e, x)
              | (Inr reserved, t, w) \<Rightarrow> case commit ev t w of (e, w) \<Rightarrow> (case e of None \<Rightarrow> Inr reserved | Some x \<Rightarrow> Inl x, w)
          | (Some e, t, x) \<Rightarrow> (Inl e, x))"
        proof (rule tx_change_rule, goal_cases)
          case (1 e t4 w4)
          with at3 show ?case by (auto intro: err)
        next
          case (2 t4 w4 now)
          then have at4: "View t4 = install (store w)" "store w4 = store w" using at3 install_opened by auto
          show ?case
          proof (rule tx_call_branch_rule, goal_cases)
            case (1 e t5 w5)
            with at4 show ?case by (auto intro: err)
          next
            case (2 m t5 w5 n)
            then have at5: "View t5 = install (store w)" "store w5 = store w" using at4 by auto
            show ?case
            proof (rule commit_rule, goal_cases)
              case (1 e w6)
              then show ?case using at5 by (auto intro: err)
            next
              case (2 e w6)
              then show ?case using at5 sup by (auto intro!: ok split: option.splits)
            qed
          qed
        qed
        then show ?thesis by (simp add: None scan_def)
      qed
    qed
  qed
qed

definition installed :: "db \<Rightarrow> (go_error + 'a) \<times> world \<Rightarrow> bool" where
  "installed d y \<longleftrightarrow>
     (store (snd y) = d \<and> (\<exists>e. fst y = Inl e)) \<or>
     (supported d \<and> store (snd y) = install d \<and>
      (case fst y of Inl e \<Rightarrow> errors_is e ErrOutcomeUnknown | Inr m \<Rightarrow> True))"

lemma bootstrap_law:
  assumes same: "same_server ev"
  shows "\<exists>d. found ev (store w) d \<and> installed d (bootstrap dr ev w)"
  unfolding bootstrap_def
proof (rule with_tx_rule, goal_cases)
  case (1 e w')
  then show ?case by (intro exI [of _ "store w'"]) (simp add: found_def installed_def)
next
  case (2 t w1 a w')
  then have b: "began ev (store w) (store w1)" by simp
  have "\<exists>d. found ev (store w) d \<and> installed d (bootstrap_tx dr ev t w1)"
    unfolding bootstrap_tx_def
  proof (rule check_tx_law [OF same 2(2), where P = "\<lambda>x. \<exists>d. found ev (store w) d \<and> installed d (case x of
      (Inl e, t, w) \<Rightarrow> (Inl e, w) | (Inr database, t, w) \<Rightarrow> install_tx dr ev database t w)"], goal_cases)
    case (1 e t' w2)
    with b show ?case by (intro exI [of _ "store w2"]) (auto simp: found_def installed_def)
  next
    case (2 t2 w2)
    with b have f: "found ev (store w) (store w2)" by (auto simp: found_def)
    have "installed (store w2) (install_tx dr ev (CurrentDatabase (inst (store w2))) t2 w2)"
      by (rule install_tx_law [OF 2(3,2)]) (simp_all add: installed_def)
    with f show ?case by auto
  qed
  with 2(5) show ?case by (simp add: installed_def)
qed

section \<open>New\<close>

lemma new_cases:
  assumes "New dr ev cfg w = (x, w')"
  shows "(\<exists>e. x = Inl e \<and> w' = w) \<or>
    (\<exists>y pc. bootstrap dr ev w = (y, w') \<and> normalized cfg = (default_config cfg, None) \<and>
       ParseConfig dr (DSN cfg) = Inr pc \<and>
       x = map_sum id (\<lambda>reserved. \<lparr>Runtime = management_config (default_config cfg) pc,
         Settings = default_config cfg, Reserved = reserved, Sanitize = SanitizeIdentifier dr\<rparr>) y)"
proof (cases "invalid_limits (default_config cfg)")
  case True
  with assms show ?thesis by (auto simp: New_def normalized_def Let_def)
next
  case False
  then have n: "normalized cfg = (default_config cfg, None)" by (simp add: normalized_def Let_def)
  have dsn: "DSN (default_config cfg) = DSN cfg" by (simp add: default_config_def)
  show ?thesis
  proof (cases "ParseConfig dr (DSN cfg)")
    case (Inl e)
    with assms n dsn show ?thesis by (auto simp: New_def)
  next
    case (Inr pc)
    obtain y w1 where y: "bootstrap dr ev w = (y, w1)" by (cases "bootstrap dr ev w")
    show ?thesis
      using assms n dsn Inr y
      by (cases "NewPool dr (management_config (default_config cfg) pc)"; cases y) (auto simp: New_def)
  qed
qed

lemma new_refines_law:
  assumes same: "same_server ev" and run: "New dr ev cfg w = (x, w')"
  shows "\<exists>d. found ev (store w) d \<and>
     (case x of
        Inr m \<Rightarrow> supported d \<and> store w' = install d \<and> Settings m = default_config cfg \<and> valid_config (Settings m) \<and>
          RuntimeParams (Runtime m) ''search_path'' = Some ''pg_catalog''
      | Inl e \<Rightarrow> store w' = d \<or> (errors_is e ErrOutcomeUnknown \<and> supported d \<and> store w' = install d))"
proof -
  from new_cases [OF run] show ?thesis
  proof (elim disjE exE conjE)
    fix e assume "x = Inl e" "w' = w"
    then show ?thesis by (intro exI [of _ "store w"]) (simp add: found_def)
  next
    fix y pc assume y: "bootstrap dr ev w = (y, w')" and n: "normalized cfg = (default_config cfg, None)"
      and x: "x = map_sum id (\<lambda>reserved. \<lparr>Runtime = management_config (default_config cfg) pc,
         Settings = default_config cfg, Reserved = reserved, Sanitize = SanitizeIdentifier dr\<rparr>) y"
    from bootstrap_law [OF same, of w dr] obtain d where "found ev (store w) d" "installed d (y, w')"
      unfolding y by blast
    with x normalized_valid [OF n] show ?thesis
      by (intro exI [of _ d]) (auto simp: installed_def management_config_def split: sum.splits)
  qed
qed

text \<open>
  C6: \<open>New\<close> has the whole effect of \<open>install\<close> or none. When it returns a manager, the
  database it found (its own, or as other sessions left it) is a supported one and is installed, and
  the manager has the settings of the configuration with its defaults; when it returns an error,
  nothing has changed, unless the error says that the outcome of the commit is unknown.
\<close>

theorem new_refines:
  "same_server ev \<Longrightarrow> New dr ev cfg w = (x, w') \<Longrightarrow>
   \<exists>d. found ev (store w) d \<and>
     (case x of
        Inr m \<Rightarrow> supported d \<and> store w' = install d \<and> Settings m = default_config cfg \<and> valid_config (Settings m) \<and>
          RuntimeParams (Runtime m) ''search_path'' = Some ''pg_catalog''
      | Inl e \<Rightarrow> store w' = d \<or> (errors_is e ErrOutcomeUnknown \<and> supported d \<and> store w' = install d))"
  by (rule new_refines_law)

section \<open>Without faults\<close>

lemma advisory_lock_calm:
  "calm ev \<Longrightarrow> Status t = Healthy \<Longrightarrow> View t = store w \<Longrightarrow> advisory_lock ev t w = (None, t, bump w)"
  by (simp add: advisory_lock_def Let_def interfere_def calmD exec_error_def tx_call_calm)

lemma unsupported_is [simp]: "errors_is (unsupported e) ErrUnsupported"
  by (simp add: unsupported_def wrap_def)

lemma check_tx_calm:
  assumes calm: "calm ev" and t: "Status t = Healthy" "View t = store w"
  shows "case check_tx ev t w of (x, t', w') \<Rightarrow> store w' = store w \<and>
    (if passes (store w)
     then x = Inr (CurrentDatabase (inst (store w))) \<and> View t' = prepared (store w) \<and> Status t' = Healthy
     else \<exists>e. x = Inl e \<and> errors_is e ErrUnsupported)"
proof (cases "ServerVersion (inst (store w)) < 170000 \<or> 190000 \<le> ServerVersion (inst (store w))")
  case True
  with calm t show ?thesis by (auto simp: check_tx_def tx_call_calm passes_def)
next
  case False
  note version = this
  show ?thesis
  proof (cases "owned (ensure_schemas (store w))")
    case False
    with calm t version show ?thesis
      by (simp add: check_tx_def tx_call_calm tx_change_calm advisory_lock_calm passes_def)
  next
    case True
    have "InternalVersion (inst (prepared (store w))) = Some (case InternalVersion (inst (store w)) of None \<Rightarrow> 1 | Some v \<Rightarrow> v)"
      by (simp add: prepared_def)
    with calm t version True show ?thesis
      by (cases "InternalVersion (inst (store w))")
        (simp_all add: check_tx_def tx_call_calm tx_change_calm advisory_lock_calm passes_def version_sql_prepared scan_def)
  qed
qed

definition decides :: "db \<Rightarrow> go_error + 'a \<Rightarrow> bool" where
  "decides d x \<longleftrightarrow>
     (case x of
        Inr m \<Rightarrow> supported d
      | Inl e \<Rightarrow> \<not> supported d \<and>
          (errors_is e ErrUnsupported \<or> (schemas d ''public'' = None \<and> e = sqlstate ''3F000'')))"

lemma registry_sql_missing:
  "schemas d ''public'' = None \<Longrightarrow> registry_sql (prepared d) = Inl (sqlstate ''3F000'')"
  by (simp add: registry_sql_def with_schema_def)

lemma install_tx_calm:
  assumes calm: "calm ev" and t: "Status t = Healthy" "View t = prepared (store w)" and pass: "passes (store w)"
  shows "decides (store w) (fst (install_tx dr ev (CurrentDatabase (inst (store w))) t w))"
proof (cases "schemas (store w) ''public''")
  case None
  then have "tx_change ev (\<lambda>_. registry_sql) t w = (Some (sqlstate ''3F000''), t\<lparr>Status := Aborted\<rparr>, bump w)"
    using calm t by (simp add: tx_change_def exec_error_def tx_call_def calmD registry_sql_missing status_after_def)
  with None show ?thesis by (simp add: install_tx_def supported_def decides_def)
next
  case (Some x)
  then obtain v where v: "registry_sql (prepared (store w)) = Inr v"
    "revoke_database (CurrentDatabase (inst (store w))) v = opened (store w)"
    by (simp add: registry_sql_opened opened_def)
  note sup = supported_opened [OF pass, symmetric]
  show ?thesis
  proof (cases "exposed (opened (store w)) = {}")
    case True
    with calm t v Some sup show ?thesis
      by (simp add: decides_def install_tx_def tx_change_calm tx_call_calm commit_calm unsafe_schema_def scan_def)
  next
    case False
    with calm t v Some sup show ?thesis
      by (simp add: decides_def install_tx_def tx_change_calm tx_call_calm unsafe_schema_def scan_def)
  qed
qed

lemma bootstrap_calm:
  assumes calm: "calm ev"
  shows "decides (store w) (fst (bootstrap dr ev w))"
proof -
  let ?t = "\<lparr>View = store w, Saved = None, Status = Healthy\<rparr>"
  obtain x t1 w1 where c: "check_tx ev ?t (bump w) = (x, t1, w1)" by (cases "check_tx ev ?t (bump w)")
  note law = check_tx_calm [OF calm, of ?t "bump w", simplified, unfolded c]
  show ?thesis
  proof (cases "passes (store w)")
    case False
    moreover have "\<not> supported (store w)" using False supported_passes by blast
    ultimately show ?thesis using law by (auto simp: decides_def bootstrap_def with_tx_def begin_calm calm bootstrap_tx_def c)
  next
    case True
    with law have "store w1 = store w" and x: "x = Inr (CurrentDatabase (inst (store w1)))"
      and "View t1 = prepared (store w1)" "Status t1 = Healthy" by auto
    with install_tx_calm [OF calm, of t1 w1 dr] True
    have "decides (store w) (fst (install_tx dr ev (CurrentDatabase (inst (store w1))) t1 w1))" by simp
    then show ?thesis
      by (cases "install_tx dr ev (CurrentDatabase (inst (store w1))) t1 w1")
        (simp add: bootstrap_def with_tx_def begin_calm calm bootstrap_tx_def c x)
  qed
qed

text \<open>
  C18: without faults, a configuration that is valid, parses and gets its pool makes \<open>New\<close> succeed
  exactly on a supported database. On any other the error is \<open>ErrUnsupported\<close>, with one
  exception: a database without a schema \<open>public\<close> gets the bare error of the server.
\<close>

theorem new_decides:
  "calm ev \<Longrightarrow> normalized cfg = (cfg', None) \<Longrightarrow> ParseConfig dr (DSN cfg) = Inr pc \<Longrightarrow>
   (\<And>pc. NewPool dr pc = None) \<Longrightarrow>
     (case fst (New dr ev cfg w) of
        Inr m \<Rightarrow> supported (store w) \<and> Database (Runtime m) = Database pc \<and> Settings m = cfg'
      | Inl e \<Rightarrow> \<not> supported (store w) \<and>
          (errors_is e ErrUnsupported \<or> (schemas (store w) ''public'' = None \<and> e = sqlstate ''3F000'')))"
proof -
  assume calm: "calm ev" and n: "normalized cfg = (cfg', None)" and pc: "ParseConfig dr (DSN cfg) = Inr pc"
    and pool: "\<And>pc. NewPool dr pc = None"
  from n have "DSN cfg' = DSN cfg" by (auto simp: normalized_def default_config_def Let_def split: if_splits)
  with n pc pool bootstrap_calm [OF calm, where dr = dr and w = w] show ?thesis
    by (cases "bootstrap dr ev w"; cases "fst (bootstrap dr ev w)")
      (auto simp: New_def Let_def management_config_def decides_def)
qed

section \<open>The registry\<close>

text \<open>A database in which nothing of an islet exists.\<close>

definition fresh :: "db \<Rightarrow> bool" where
  "fresh d \<longleftrightarrow>
     islets d = [] \<and> (\<forall>i. schemas d (schema_of i) = None \<and> roles d (role_of i) = None) \<and>
     (\<forall>g p. (g, p) \<in> grants d \<longrightarrow> (\<forall>i. g \<noteq> role_of i \<and> \<not> on_schema (schema_of i) p))"

definition tidy :: "string \<Rightarrow> db \<Rightarrow> bool" where
  "tidy c d \<longleftrightarrow> fresh d \<or> registry_ok c d"

lemma not_closed:
  "on_schema (schema_of i) p \<Longrightarrow> \<not> closed c p"
  by (cases p) (auto simp: closed_def)

text \<open>\<open>New\<close> leaves \<open>PUBLIC\<close> no way into a schema: it closes its own and \<open>public\<close>, and asks for the others.\<close>

lemma install_secludes:
  assumes "secluded d \<or> supported d"
  shows "secluded (install d)"
  unfolding secluded_def
proof (intro allI impI notI)
  fix s p
  assume s: "schemas (install d) s \<noteq> None" "\<not> system_schema s" "on_schema s p"
    and g: "(public_role, p) \<in> grants (install d)"
  from s(3) have p: "p = UsageOn s \<or> p = CreateIn s" by (simp add: on_schema_def)
  from g have g: "(public_role, p) \<in> grants d" and open_: "\<not> closed (CurrentDatabase (inst d)) p" by simp_all
  from open_ s(3) have other: "s \<notin> {internal_schema, api_schema, ''public''}" by (auto simp: closed_def)
  with s(1) have here: "schemas d s \<noteq> None" by simp
  from other s(2) have "ordinary s" by (simp add: ordinary_def system_schema_def)
  with here other p g assms s(2,3) show False unfolding secluded_def supported_def by blast
qed

lemma install_same_islets: "registry_ok c d \<Longrightarrow> same_islets d (install d)"
  using registry_okD(6) [of c d] registry_okD(7) [of c d] not_closed install_secludes [of d]
  by (auto simp: same_islets_def)

lemma install_changes: "registry_ok c d \<Longrightarrow> changes c d (install d)"
  using install_same_islets change.outside by (blast intro: r_into_rtranclp)

lemma install_order: "tidy c d \<Longrightarrow> supported d \<Longrightarrow> registry_ok c (install d)"
proof -
  assume "tidy c d" and sup: "supported d"
  then consider "fresh d" | "registry_ok c d" by (auto simp: tidy_def)
  then show ?thesis
  proof cases
    case 1
    with install_secludes [of d] sup show ?thesis
      by (auto simp: fresh_def registry_ok_def row_of_def grant_ok_def)
  next
    case 2
    with install_changes changes_registry_ok show ?thesis by blast
  qed
qed

text \<open>What other sessions do to a database without islets, or with a registry in order, keeps it so.\<close>

definition cooperative :: "string \<Rightarrow> env \<Rightarrow> bool" where
  "cooperative c ev \<longleftrightarrow> (\<forall>n d. tidy c d \<longrightarrow> tidy c (Others ev n d))"

lemma found_tidy: "cooperative c ev \<Longrightarrow> found ev d d' \<Longrightarrow> tidy c d \<Longrightarrow> tidy c d'"
  by (auto simp: cooperative_def found_def began_def)

lemma new_manager:
  assumes "New dr ev cfg w = (Inr m, w')"
  obtains pc reserved where "bootstrap dr ev w = (Inr reserved, w')"
    and "normalized cfg = (default_config cfg, None)" and "ParseConfig dr (DSN cfg) = Inr pc"
    and "m = \<lparr>Runtime = management_config (default_config cfg) pc, Settings = default_config cfg,
         Reserved = reserved, Sanitize = SanitizeIdentifier dr\<rparr>"
proof -
  from new_cases [OF assms] obtain y pc where y: "bootstrap dr ev w = (y, w')"
    and n: "normalized cfg = (default_config cfg, None)" and pc: "ParseConfig dr (DSN cfg) = Inr pc"
    and m: "Inr m = map_sum id (\<lambda>reserved. \<lparr>Runtime = management_config (default_config cfg) pc,
         Settings = default_config cfg, Reserved = reserved, Sanitize = SanitizeIdentifier dr\<rparr>) y"
    by blast
  with that show ?thesis by (cases y) auto
qed

lemma new_runtime:
  assumes "New dr ev cfg w = (Inr m, w')"
  shows "\<exists>pc. ParseConfig dr (DSN cfg) = Inr pc \<and> Database (Runtime m) = Database pc"
  by (rule new_manager [OF assms]) (simp add: management_config_def)

text \<open>The reserved names are those of a catalog that the server showed.\<close>

lemma reserved_names:
  assumes "tx_call ev (\<lambda>n d. Inr (reserved_map (ProcNames ev n ''pg_catalog'' d), d)) t w = (Inr reserved, t', w')"
  shows "\<exists>n d. reserved = reserved_map (ProcNames ev n ''pg_catalog'' d)"
  using tx_call_law [OF assms] by auto

lemma install_tx_reserved:
  "install_tx dr ev database t w = (Inr reserved, w') \<Longrightarrow>
     \<exists>n d. reserved = reserved_map (ProcNames ev n ''pg_catalog'' d)"
  unfolding install_tx_def
  by (auto split: prod.splits option.splits sum.splits if_splits dest!: reserved_names)

lemma new_reserved:
  assumes run: "New dr ev cfg w = (Inr m, w')"
  shows "\<exists>n d. Reserved m = reserved_map (ProcNames ev n ''pg_catalog'' d)"
proof -
  from new_manager [OF run] obtain reserved where b: "bootstrap dr ev w = (Inr reserved, w')"
    and m: "Reserved m = reserved" by (metis manager.select_convs(3))
  from b obtain t w1 w2 where "bootstrap_tx dr ev t w1 = (Inr reserved, w2)"
    by (auto simp: bootstrap_def with_tx_def split: prod.splits sum.splits)
  then obtain database t3 w3 where "install_tx dr ev database t3 w3 = (Inr reserved, w2)"
    by (auto simp: bootstrap_tx_def split: prod.splits sum.splits)
  from install_tx_reserved [OF this] m show ?thesis by simp
qed

lemma new_installs:
  assumes "same_server ev" and "New dr ev cfg w = (Inr m, w')"
  obtains d pc reserved where "found ev (store w) d" and "supported d" and "store w' = install d"
    and "bootstrap dr ev w = (Inr reserved, w')" and "normalized cfg = (default_config cfg, None)"
    and "ParseConfig dr (DSN cfg) = Inr pc"
proof -
  from new_manager [OF assms(2)] obtain pc reserved where y: "bootstrap dr ev w = (Inr reserved, w')"
    and n: "normalized cfg = (default_config cfg, None)" and pc: "ParseConfig dr (DSN cfg) = Inr pc" by blast
  from bootstrap_law [OF assms(1), of w dr] obtain d where "found ev (store w) d" "installed d (Inr reserved, w')"
    unfolding y by blast
  with that y n pc show ?thesis by (simp add: installed_def)
qed

lemma new_changes:
  assumes env: "env_ok c ev" and same: "same_server ev" and ok: "registry_ok c (store w)"
    and run: "New dr ev cfg w = (x, w')"
  shows "changes c (store w) (store w')"
proof -
  from new_refines_law [OF same run] obtain d where d: "found ev (store w) d"
    and w': "store w' = d \<or> store w' = install d" by (cases x) auto
  from found_changes [OF env ok d] have 1: "changes c (store w) d" .
  with ok have "registry_ok c d" using changes_registry_ok by blast
  from rtranclp_trans [OF 1 install_changes [OF this]] 1 w' show ?thesis by auto
qed

text \<open>
  C17: a manager that \<open>New\<close> returns finds its database in order: whether the database had no islets or
  a registry already, the registry is in order, both functions of the gateway exist, and \<open>PUBLIC\<close>
  has no privilege on the module's schemas and functions, on the schema \<open>public\<close>, nor to create
  schemas or temporary tables in the database.
\<close>

theorem new_establishes_order:
  "same_server ev \<Longrightarrow> cooperative c ev \<Longrightarrow> tidy c (store w) \<Longrightarrow> New dr ev cfg w = (Inr m, w') \<Longrightarrow>
     registry_ok c (store w') \<and> {enter_fn, finish_fn} \<subseteq> HasFunctions (inst (store w')) \<and>
     (public_role, UsageOn ''public'') \<notin> grants (store w') \<and> (public_role, CreateIn ''public'') \<notin> grants (store w') \<and>
     (public_role, CreateOn (CurrentDatabase (inst (store w')))) \<notin> grants (store w') \<and>
     (public_role, TemporaryOn (CurrentDatabase (inst (store w')))) \<notin> grants (store w') \<and>
     \<not> may_call public_role enter_fn (store w') \<and> \<not> may_call public_role finish_fn (store w')"
proof -
  assume same: "same_server ev" and co: "cooperative c ev" and tidy: "tidy c (store w)"
    and run: "New dr ev cfg w = (Inr m, w')"
  from new_installs [OF same run] obtain d where "found ev (store w) d" and "supported d" and w': "store w' = install d"
    by blast
  with found_tidy [OF co _ tidy] have "registry_ok c (install d)" by (blast intro: install_order)
  then show ?thesis by (auto simp: w' may_call_def closed_def)
qed

lemma calm_found: "calm ev \<Longrightarrow> found ev d d' \<Longrightarrow> d' = d"
  by (auto simp: found_def began_def calmD)

lemma calm_same_server: "calm ev \<Longrightarrow> same_server ev"
  by (simp add: same_server_def calmD)

text \<open>
  C21: another application node that makes its manager on the same database succeeds too and changes
  nothing: installing is idempotent, and an installed database is a supported one.
\<close>

theorem new_again_changes_nothing:
  "calm ev \<Longrightarrow> New dr ev cfg w = (Inr m, w') \<Longrightarrow> (\<And>pc. NewPool dr pc = None) \<Longrightarrow>
     (\<exists>m' w''. New dr ev cfg w' = (Inr m', w'') \<and> store w'' = store w' \<and>
        Settings m' = Settings m \<and> Runtime m' = Runtime m)"
proof -
  assume calm: "calm ev" and run: "New dr ev cfg w = (Inr m, w')" and pool: "\<And>pc. NewPool dr pc = None"
  note same = calm_same_server [OF calm]
  from new_installs [OF same run] obtain d pc reserved where sup: "supported d" and w': "store w' = install d"
    and b: "bootstrap dr ev w = (Inr reserved, w')" and n: "normalized cfg = (default_config cfg, None)"
    and pc: "ParseConfig dr (DSN cfg) = Inr pc" by metis
  obtain y w'' where y: "bootstrap dr ev w' = (y, w'')" by (cases "bootstrap dr ev w'")
  from supported_install [OF sup] bootstrap_calm [OF calm, where dr = dr and w = w']
  obtain reserved' where r: "y = Inr reserved'" by (cases y) (simp_all add: y w' decides_def)
  from bootstrap_law [OF same, of w' dr] have "installed (store w') (y, w'')"
    using calm_found [OF calm] y by auto
  then have "store w'' = store w'" by (simp add: installed_def r w' installed_twice)
  moreover have dsn: "DSN (default_config cfg) = DSN cfg" by (simp add: default_config_def)
  let ?m = "\<lambda>reserved. \<lparr>Runtime = management_config (default_config cfg) pc, Settings = default_config cfg,
      Reserved = reserved, Sanitize = SanitizeIdentifier dr\<rparr>"
  have new: "New dr ev cfg w1 = (map_sum id ?m z, w2)" if "bootstrap dr ev w1 = (z, w2)" for w1 z w2
    using n pc pool that by (cases z) (simp_all add: New_def dsn)
  from new [OF b] run have "m = ?m reserved" by simp
  moreover from new [OF y] r have "New dr ev cfg w' = (Inr (?m reserved'), w'')" by simp
  ultimately show ?thesis by auto
qed

section \<open>Witnesses\<close>

text \<open>A new database as PostgreSQL makes it, on a server without faults.\<close>

definition new_db :: db where
  "new_db = \<lparr>islets = [], schemas = [''public'' \<mapsto> []], roles = Map.empty,
     grants = {(public_role, UsageOn ''public''), (public_role, ConnectTo ''app''), (public_role, TemporaryOn ''app'')},
     owners = {}, inst = sample_installation\<rparr>"

definition new_world :: world where
  "new_world = \<lparr>store = new_db, tick = 0, advanced = []\<rparr>"

lemma store_new: "store new_world = new_db"
  by (simp add: new_world_def)

definition sample_driver :: driver where
  "sample_driver = \<lparr>ParseConfig = (\<lambda>_. Inr (Runtime sample_manager)), NewPool = (\<lambda>_. None),
     SanitizeIdentifier = (\<lambda>s. s), Pick = (\<lambda>_. [])\<rparr>"

lemma new_supported: "supported new_db"
  by (simp add: supported_def new_db_def sample_installation_def ordinary_def internal_schema_def api_schema_def)

lemma new_tidy: "tidy c new_db"
  by (auto simp: tidy_def fresh_def new_db_def schema_of_def role_of_def public_role_def on_schema_def)

lemma quiet_server: "same_server quiet_env" "cooperative c quiet_env"
  by (simp_all add: same_server_def cooperative_def quiet_env_def)

lemma sample_driver_sel [simp]: "NewPool sample_driver pc = None" "ParseConfig sample_driver s = Inr (Runtime sample_manager)"
  by (simp_all add: sample_driver_def)

lemma sample_new:
  obtains m w' where "New sample_driver quiet_env empty_config new_world = (Inr m, w')"
proof -
  obtain y w' where y: "bootstrap sample_driver quiet_env new_world = (y, w')"
    by (cases "bootstrap sample_driver quiet_env new_world")
  have "decides new_db y"
    using bootstrap_calm [OF quiet_calm, where dr = sample_driver and w = new_world] by (simp add: y store_new)
  with new_supported obtain r where "y = Inr r" by (cases y) (simp_all add: decides_def)
  with y that normalized_empty show ?thesis by (simp add: New_def)
qed

theorem new_decides_witness:
  "isl (fst (New sample_driver quiet_env empty_config (new_world\<lparr>store := base_db\<rparr>)))"
proof -
  have "\<not> supported base_db" by (simp add: supported_def base_db_def api_schema_def)
  with new_decides [OF quiet_calm normalized_empty sample_driver_sel(2,1), of "new_world\<lparr>store := base_db\<rparr>"]
  show ?thesis
    by (cases "fst (New sample_driver quiet_env empty_config (new_world\<lparr>store := base_db\<rparr>))") simp_all
qed

theorem new_refines_witness:
  "\<exists>m w'. New sample_driver quiet_env empty_config new_world = (Inr m, w') \<and> store w' = install new_db"
proof -
  obtain m w' where r: "New sample_driver quiet_env empty_config new_world = (Inr m, w')" by (rule sample_new)
  from new_refines [OF quiet_server(1) r] calm_found [OF quiet_calm] have "store w' = install new_db"
    by (auto simp: new_world_def)
  with r show ?thesis by blast
qed

theorem new_establishes_order_witness:
  "registry_ok ''app'' (store (snd (New sample_driver quiet_env empty_config new_world)))"
proof -
  obtain m w' where r: "New sample_driver quiet_env empty_config new_world = (Inr m, w')" by (rule sample_new)
  have "tidy ''app'' (store new_world)" by (simp add: new_world_def new_tidy)
  from new_establishes_order [OF quiet_server this r] r show ?thesis by simp
qed

theorem new_again_changes_nothing_witness:
  "\<exists>m m' w' w''. New sample_driver quiet_env empty_config new_world = (Inr m, w') \<and>
     New sample_driver quiet_env empty_config w' = (Inr m', w'') \<and> store w'' = store w'"
proof -
  obtain m w' where r: "New sample_driver quiet_env empty_config new_world = (Inr m, w')" by (rule sample_new)
  from new_again_changes_nothing [OF quiet_calm r] r show ?thesis by (metis sample_driver_sel(1))
qed

end
