(* ===== verification/PlaygroundSafety.thy ===== *)
theory PlaygroundSafety
  imports Clients Playground BootstrapSafety
begin

text \<open>
  The demonstration program as a client of two managers, and its \<open>cleanup\<close> against the \<open>remove\<close> of
  the web example: the two are the same operation, which leaves no islet behind when it reports no
  error.
\<close>

section \<open>cleanup and remove\<close>

lemma cleanup_remove:
  "cleanup ev m i w = (case remove ev m i w of (e, w') \<Rightarrow> ((case e of None \<Rightarrow> [] | Some e \<Rightarrow> [CleanupFailed e]), w'))"
  by (auto simp: cleanup_def remove_def split: prod.splits option.splits)

section \<open>What a run keeps\<close>

locale two_nodes =
  first: manager_client ev m fe K + second: manager_client ev node fe K
  for ev :: env and m :: manager and node :: manager and fe :: frontend and K :: "world \<Rightarrow> world \<Rightarrow> bool"
begin

lemma cleanups: "cleanup ev m i w = (out, w') \<Longrightarrow> K w w'"
  by (auto simp: cleanup_remove split: prod.splits intro: first.removes)

lemma resets_nodes:
  assumes "run_reset ext ev m node fe a b w = (x, w')"
  shows "K w w'"
proof -
  obtain a1 e1 w1 where 1: "Reset ev a w = ((a1, e1), w1)" by (cases "Reset ev a w") auto
  obtain r2 e2 w2 where 2: "Execute ev node fe a ''SELECT 1'' w1 = ((r2, e2), w2)"
    by (cases "Execute ev node fe a ''SELECT 1'' w1") auto
  obtain a3 e3 w3 where 3: "Reinitialize ev m fe a1 learners w2 = ((a3, e3), w3)"
    by (cases "Reinitialize ev m fe a1 learners w2") auto
  obtain r4 e4 w4 where 4: "Execute ev node fe a3 ''SELECT count(*) FROM learners'' w3 = ((r4, e4), w4)"
    by (cases "Execute ev node fe a3 ''SELECT count(*) FROM learners'' w3") auto
  obtain e5 w5 where 5: "Delete ev m a3 w4 = (e5, w5)" by (cases "Delete ev m a3 w4") auto
  obtain e6 w6 where 6: "Delete ev m b w5 = (e6, w6)" by (cases "Delete ev m b w5") auto
  note k1 = first.resets [OF 1] and k2 = second.executes [OF 2] and k3 = first.reinitializes [OF 3]
    and k4 = second.executes [OF 4] and k5 = first.deletes [OF 5] and k6 = first.deletes [OF 6]
  note c2 = first.trans [OF k1 k2]
  note c3 = first.trans [OF c2 k3]
  note c4 = first.trans [OF c3 k4]
  note c5 = first.trans [OF c4 k5]
  have "w' \<in> {w1, w2, w3, w4, w5, w6}"
    using assms by (auto simp: run_reset_def 1 2 3 4 5 6 split: if_splits option.splits)
  then show ?thesis using k1 c2 c3 c4 c5 first.trans [OF c5 k6] by auto
qed

lemma islets_nodes:
  assumes "run_islets ext ev m node fe a b w = (x, w')"
  shows "K w w'"
proof -
  obtain r1 e1 w1 where 1: "Execute ev node fe a ''SELECT name FROM learners ORDER BY id'' w = ((r1, e1), w1)"
    by (cases "Execute ev node fe a ''SELECT name FROM learners ORDER BY id'' w") auto
  obtain r2 e2 w2 where 2: "Execute ev m fe a ''DROP TABLE learners'' w1 = ((r2, e2), w2)"
    by (cases "Execute ev m fe a ''DROP TABLE learners'' w1") auto
  obtain r3 e3 w3 where 3: "Execute ev m fe b ''SELECT current_schema()'' w2 = ((r3, e3), w3)"
    by (cases "Execute ev m fe b ''SELECT current_schema()'' w2") auto
  obtain r4 e4 w4 where 4: "Execute ev m fe b ''CREATE TABLE private_data(n int)'' w3 = ((r4, e4), w4)"
    by (cases "Execute ev m fe b ''CREATE TABLE private_data(n int)'' w3") auto
  let ?sql = "''SELECT * FROM '' @ shown (the (first_value r3)) @ ''.private_data''"
  obtain r5 e5 w5 where 5: "Execute ev m fe a ?sql w4 = ((r5, e5), w5)"
    by (cases "Execute ev m fe a ?sql w4") auto
  obtain y w6 where 6: "run_reset ext ev m node fe a b w5 = (y, w6)" by (cases "run_reset ext ev m node fe a b w5")
  note k1 = second.executes [OF 1] and k2 = first.executes [OF 2] and k3 = first.executes [OF 3]
    and k4 = first.executes [OF 4] and k5 = first.executes [OF 5] and k6 = resets_nodes [OF 6]
  note c2 = first.trans [OF k1 k2]
  note c3 = first.trans [OF c2 k3]
  note c4 = first.trans [OF c3 k4]
  note c5 = first.trans [OF c4 k5]
  have "w' \<in> {w1, w2, w3, w4, w5, w6}"
    using assms 5 6 by (auto simp: run_islets_def 1 2 3 4 split: if_splits option.splits prod.splits)
  then show ?thesis using k1 c2 c3 c4 c5 first.trans [OF c5 k6] by auto
qed

lemma runs:
  assumes "run_managers ext ev m node fe w = (x, w')"
  shows "K w w'"
proof -
  obtain a e1 w1 where 1: "CreateWithInitialization ev m fe learners w = ((a, e1), w1)"
    by (cases "CreateWithInitialization ev m fe learners w") auto
  obtain b e2 w2 where 2: "Create ev m w1 = ((b, e2), w2)" by (cases "Create ev m w1") auto
  obtain out w3 where 3: "cleanup ev m (ID a) w2 = (out, w3)" by (cases "cleanup ev m (ID a) w2")
  obtain y w4 where 4: "run_islets ext ev m node fe a b w2 = (y, w4)" by (cases "run_islets ext ev m node fe a b w2")
  obtain out5 w5 where 5: "cleanup ev m (ID b) w4 = (out5, w5)" by (cases "cleanup ev m (ID b) w4")
  obtain out6 w6 where 6: "cleanup ev m (ID a) w5 = (out6, w6)" by (cases "cleanup ev m (ID a) w5")
  note k1 = first.creates_with [OF 1] and k2 = first.creates [OF 2]
  note c2 = first.trans [OF k1 k2]
  note c3 = first.trans [OF c2 cleanups [OF 3]]
  note c4 = first.trans [OF c2 islets_nodes [OF 4]]
  note c6 = first.trans [OF first.trans [OF c4 cleanups [OF 5]] cleanups [OF 6]]
  have "w' \<in> {w1, w3, w6}"
    using assms by (auto simp: run_managers_def 1 2 3 4 5 6 split: option.splits prod.splits)
  then show ?thesis using k1 c3 c6 by auto
qed

end

lemma orderly_sound: "sound c ev fe m = sound c ev fe m' \<Longrightarrow> orderly c ev fe m = orderly c ev fe m'"
  by (simp add: orderly_def fun_eq_iff)

lemma client_if: "(c \<Longrightarrow> manager_client ev m fe K) \<Longrightarrow> manager_client ev m fe (\<lambda>w w'. c \<longrightarrow> K w w')"
  by (cases c) (simp_all add: manager_client_def)

text \<open>Two managers of one database, with the order of the registry.\<close>

interpretation nodes: two_nodes ev m node fe
    "\<lambda>w w'. sound c ev fe m = sound c ev fe node \<longrightarrow> orderly c ev fe m w w'" for ev m node fe c
proof -
  let ?same = "sound c ev fe m = sound c ev fe node"
  have "manager_client ev node fe (orderly c ev fe m)" if ?same
    using ordered.manager_client_axioms [of ev node fe c] orderly_sound [OF that] by simp
  then show "two_nodes ev m node fe (\<lambda>w w'. ?same \<longrightarrow> orderly c ev fe m w w')"
    by (intro two_nodes.intro client_if) (rule ordered.manager_client_axioms)
qed

text \<open>\<open>confined\<close> for the reserved names that \<open>New\<close> may read from the server's catalog.\<close>

definition confined_catalog :: "frontend \<Rightarrow> env \<Rightarrow> bool" where
  "confined_catalog fe ev \<longleftrightarrow> (\<forall>n d. confined fe (reserved_map (ProcNames ev n ''pg_catalog'' d)) ev)"

lemma new_sound:
  assumes "env_ok c ev" and "confined_catalog fe ev" and "\<And>pc. ParseConfig dr (DSN cfg) = Inr pc \<Longrightarrow> Database pc = c"
    and run: "New dr ev cfg w = (Inr m, w')"
  shows "sound c ev fe m"
  using new_runtime [OF run] new_reserved [OF run] assms(1-3)
  by (auto simp: sound_def confined_catalog_def)

lemma managers_changes:
  assumes "sound c ev fe m" and "sound c ev fe node" and "registry_ok c (store w)"
    and "run_managers ext ev m node fe w = (x, w')"
  shows "changes c (store w) (store w')"
  using nodes.runs [OF assms(4), of c] assms(1-3) by (simp add: orderly_def)

text \<open>What a run of the demonstration did, from the first \<open>New\<close> on.\<close>

lemma playground_changes:
  assumes env: "env_ok c ev" and conf: "confined_catalog fe ev" and same: "same_server ev" and ok: "registry_ok c (store w)"
    and db: "\<And>pc. ParseConfig dr dsn = Inr pc \<Longrightarrow> Database pc = c"
    and run: "Run_playground ext dr ev fe dsn w = (x, w')"
  shows "changes c (store w) (store w')"
proof -
  let ?cfg = "empty_config\<lparr>DSN := dsn\<rparr>"
  obtain y1 w1 where 1: "New dr ev ?cfg w = (y1, w1)" by (cases "New dr ev ?cfg w")
  obtain y2 w2 where 2: "New dr ev ?cfg w1 = (y2, w2)" by (cases "New dr ev ?cfg w1")
  from new_changes [OF env same ok 1] have c1: "changes c (store w) (store w1)" .
  with ok have ok1: "registry_ok c (store w1)" using changes_registry_ok by blast
  from c1 new_changes [OF env same ok1 2] have c2: "changes c (store w) (store w2)" by (rule rtranclp_trans)
  with ok have ok2: "registry_ok c (store w2)" using changes_registry_ok by blast
  have "w' \<in> {w1, w2} \<or> (\<exists>m node. y1 = Inr m \<and> y2 = Inr node \<and> run_managers ext ev m node fe w2 = (x, w'))"
    using run by (auto simp: Run_playground_def Let_def 1 2 split: sum.splits)
  then show ?thesis
  proof (elim disjE exE conjE)
    fix m node assume m: "y1 = Inr m" and n: "y2 = Inr node" and r: "run_managers ext ev m node fe w2 = (x, w')"
    have "sound c ev fe m" and "sound c ev fe node"
      by (rule new_sound [OF env conf _ 1 [unfolded m]], simp add: db)
        (rule new_sound [OF env conf _ 2 [unfolded n]], simp add: db)
    from rtranclp_trans [OF c2 managers_changes [OF this ok2 r]] show ?thesis .
  qed (use c1 c2 in auto)
qed

section \<open>What a run prints\<close>

text \<open>
  What each line says of the two islets: the calls that were made, on which manager and with which
  handle, and what they returned.
\<close>

fun justified :: "env \<Rightarrow> manager \<Rightarrow> manager \<Rightarrow> frontend \<Rightarrow> islet \<Rightarrow> islet \<Rightarrow> line \<Rightarrow> bool" where
  "justified ev m node fe a b (SeedQueried rows) \<longleftrightarrow>
     (\<exists>r w w'. Execute ev node fe a ''SELECT name FROM learners ORDER BY id'' w = ((r, None), w') \<and> Rows r = rows)"
| "justified ev m node fe a b SeedDropped \<longleftrightarrow>
     (\<exists>r w w'. Execute ev m fe a ''DROP TABLE learners'' w = ((r, None), w'))"
| "justified ev m node fe a b AccessDenied \<longleftrightarrow>
     (\<exists>r0 w0 w1 r1 w2 w3 s r e w w'. Execute ev m fe b ''SELECT current_schema()'' w0 = ((r0, None), w1) \<and> first_value r0 = Some s \<and>
        Execute ev m fe b ''CREATE TABLE private_data(n int)'' w2 = ((r1, None), w3) \<and>
        Execute ev m fe a (''SELECT * FROM '' @ shown s @ ''.private_data'') w = ((r, e), w') \<and> is_err e ErrQuery)"
| "justified ev m node fe a b Fenced \<longleftrightarrow>
     (\<exists>a' w r e w1 w'. Reset ev a w = ((a', None), w1) \<and> Execute ev node fe a ''SELECT 1'' w1 = ((r, e), w') \<and>
        is_err e ErrStaleGeneration)"
| "justified ev m node fe a b (Restored v) \<longleftrightarrow> v = StringValue ''2'' \<and>
     (\<exists>a' a'' r w w1 w2. Reinitialize ev m fe a' learners w = ((a'', None), w1) \<and>
        Execute ev node fe a'' ''SELECT count(*) FROM learners'' w1 = ((r, None), w2) \<and> first_value r = Some v)"
| "justified ev m node fe a b AllDeleted \<longleftrightarrow>
     (\<exists>a' w w1 w2. Delete ev m a' w = (None, w1) \<and> Delete ev m b w1 = (None, w2))"
| "justified ev m node fe a b (CleanupFailed e) \<longleftrightarrow>
     (\<exists>i w w'. (i = ID a \<or> i = ID b) \<and> remove ev m i w = (Some e, w'))"

definition cleanup_line :: "line \<Rightarrow> bool" where
  "cleanup_line l \<longleftrightarrow> (\<exists>e. l = CleanupFailed e)"

lemma reset_lines:
  assumes "run_reset ext ev m node fe a b w = ((x, out), w')"
  shows "(\<forall>l \<in> set out. justified ev m node fe a b l) \<and>
    (x = Returns None \<longrightarrow> out = [Fenced, Restored (StringValue ''2''), AllDeleted])"
proof -
  obtain a1 e1 w1 where 1: "Reset ev a w = ((a1, e1), w1)" by (cases "Reset ev a w") auto
  obtain r2 e2 w2 where 2: "Execute ev node fe a ''SELECT 1'' w1 = ((r2, e2), w2)"
    by (cases "Execute ev node fe a ''SELECT 1'' w1") auto
  obtain a3 e3 w3 where 3: "Reinitialize ev m fe a1 learners w2 = ((a3, e3), w3)"
    by (cases "Reinitialize ev m fe a1 learners w2") auto
  obtain r4 e4 w4 where 4: "Execute ev node fe a3 ''SELECT count(*) FROM learners'' w3 = ((r4, e4), w4)"
    by (cases "Execute ev node fe a3 ''SELECT count(*) FROM learners'' w3") auto
  obtain e5 w5 where 5: "Delete ev m a3 w4 = (e5, w5)" by (cases "Delete ev m a3 w4") auto
  obtain e6 w6 where 6: "Delete ev m b w5 = (e6, w6)" by (cases "Delete ev m b w5") auto
  have fenced: "justified ev m node fe a b Fenced" if "e1 = None" "is_err e2 ErrStaleGeneration"
    unfolding justified.simps using 1 2 that by blast
  have restored: "justified ev m node fe a b (Restored (StringValue ''2''))"
    if "e3 = None" "e4 = None" "first_value r4 = Some (StringValue ''2'')"
    unfolding justified.simps using 3 4 that by blast
  have deleted: "justified ev m node fe a b AllDeleted" if "e5 = None" "e6 = None"
    unfolding justified.simps using 5 6 that by blast
  show ?thesis
    using assms fenced restored deleted
    by (auto simp: run_reset_def 1 2 3 4 5 6 simp del: justified.simps split: if_splits option.splits)
qed

lemma islets_lines:
  assumes "run_islets ext ev m node fe a b w = ((x, out), w')"
  shows "(\<forall>l \<in> set out. justified ev m node fe a b l) \<and>
    (x = Returns None \<longrightarrow> (\<exists>rows. out = [SeedQueried rows, SeedDropped, AccessDenied, Fenced, Restored (StringValue ''2''), AllDeleted]))"
proof -
  obtain r1 e1 w1 where 1: "Execute ev node fe a ''SELECT name FROM learners ORDER BY id'' w = ((r1, e1), w1)"
    by (cases "Execute ev node fe a ''SELECT name FROM learners ORDER BY id'' w") auto
  obtain r2 e2 w2 where 2: "Execute ev m fe a ''DROP TABLE learners'' w1 = ((r2, e2), w2)"
    by (cases "Execute ev m fe a ''DROP TABLE learners'' w1") auto
  obtain r3 e3 w3 where 3: "Execute ev m fe b ''SELECT current_schema()'' w2 = ((r3, e3), w3)"
    by (cases "Execute ev m fe b ''SELECT current_schema()'' w2") auto
  obtain r4 e4 w4 where 4: "Execute ev m fe b ''CREATE TABLE private_data(n int)'' w3 = ((r4, e4), w4)"
    by (cases "Execute ev m fe b ''CREATE TABLE private_data(n int)'' w3") auto
  let ?sql = "''SELECT * FROM '' @ shown (the (first_value r3)) @ ''.private_data''"
  obtain r5 e5 w5 where 5: "Execute ev m fe a ?sql w4 = ((r5, e5), w5)"
    by (cases "Execute ev m fe a ?sql w4") auto
  obtain y out6 w6 where 6: "run_reset ext ev m node fe a b w5 = ((y, out6), w6)"
    by (cases "run_reset ext ev m node fe a b w5") auto
  have queried: "justified ev m node fe a b (SeedQueried (Rows r1))" if "e1 = None" using 1 that by auto
  have dropped: "justified ev m node fe a b SeedDropped" if "e2 = None" using 2 that by auto
  have denied: "justified ev m node fe a b AccessDenied"
    if "e3 = None" "e4 = None" "first_value r3 = Some s" "is_err e5 ErrQuery" for s
    unfolding justified.simps using 3 4 5 that by (metis option.sel)
  show ?thesis
    using assms 5 queried dropped denied reset_lines [OF 6]
    by (auto simp: run_islets_def 1 2 3 4 6 simp del: justified.simps split: if_splits option.splits)
qed

lemma cleanup_lines:
  assumes "cleanup ev m i w = (out, w')" and "i = ID a \<or> i = ID b"
  shows "(\<forall>l \<in> set out. justified ev m node fe a b l) \<and> list_all cleanup_line out"
proof -
  obtain e w1 where 1: "remove ev m i w = (e, w1)" by (cases "remove ev m i w")
  have "justified ev m node fe a b (CleanupFailed x)" if "e = Some x" for x
    unfolding justified.simps using 1 assms(2) that by blast
  with assms(1) show ?thesis
    by (auto simp: cleanup_remove 1 cleanup_line_def simp del: justified.simps split: option.splits)
qed

text \<open>
  The demonstration program, on a database with a registry in order, goes through changes of the
  protocol only and leaves the registry in order: making two managers, whatever its statements
  do, whichever step fails or panics, and cleaning up.
\<close>

theorem playground_keeps_order:
  "env_ok c ev \<Longrightarrow> confined_catalog fe ev \<Longrightarrow> same_server ev \<Longrightarrow> registry_ok c (store w) \<Longrightarrow>
   (\<And>pc. ParseConfig dr dsn = Inr pc \<Longrightarrow> Database pc = c) \<Longrightarrow>
   Run_playground ext dr ev fe dsn w = (x, w') \<Longrightarrow>
     changes c (store w) (store w') \<and> registry_ok c (store w')"
  using playground_changes [of c ev fe w dr dsn ext x w'] changes_registry_ok [of c "store w" "store w'"] by blast

lemma quiet_catalog: "confined_catalog fe quiet_env"
  using quiet_replies(3) by (simp add: confined_catalog_def)

theorem playground_keeps_order_witness:
  "registry_ok ''app'' (store (snd (Run_playground (\<lambda>_. []) sample_driver quiet_env sample_frontend [] base_world)))"
proof -
  obtain x w' where r: "Run_playground (\<lambda>_. []) sample_driver quiet_env sample_frontend [] base_world = (x, w')"
    by (cases "Run_playground (\<lambda>_. []) sample_driver quiet_env sample_frontend [] base_world")
  have ok: "registry_ok ''app'' (store base_world)" by (simp add: base_world_def base_ok)
  have db: "Database pc = ''app''" if "ParseConfig sample_driver [] = Inr pc" for pc
    using that sample_app by simp
  from playground_keeps_order [OF quiet_ok quiet_catalog quiet_server(1) ok db r] r show ?thesis by simp
qed

end
