(* ===== verification/Programs.thy ===== *)
theory Programs
  imports WebOutcomes PlaygroundSafety
begin

text \<open>
  The two example programs as a whole. \<open>run\<close> in \<open>examples/web/main.go\<close>: from the flags to the manager,
  the loop that cleans up once a minute until a signal or the server ends it, and the cleanup of
  every workspace on the way out. The server answers requests between the steps of the loop: what its
  handlers do to the table of sessions is \<open>Peers\<close>, what they do to the database \<open>Others\<close>. And \<open>run\<close> in
  \<open>examples/playground/main.go\<close>, around \<open>Run\<close>.
\<close>

section \<open>run\<close>

text \<open>
  What the outside gives: flags (the DSN's default is a variable of the environment), assets, the
  container when it is asked for, with its DSN, and \<open>server.Shutdown\<close>. What is printed, and the error
  of ending the container, which is printed only, are left out.
\<close>

record launch =
  FlagError :: err
  Addr :: string
  AssetsError :: err
  Container :: "(go_error + string) option"
  GivenDsn :: string
  ShutdownError :: err

text \<open>What \<open>select\<close> receives.\<close>

datatype signal = Interrupted | Stopped err | Ticked

text \<open>The loop, over the signals there will be; None while it is still running.\<close>

fun select_loop ::
  "web \<Rightarrow> env \<Rightarrow> manager \<Rightarrow> signal list \<Rightarrow> site \<Rightarrow> world \<Rightarrow> (err \<times> site \<times> world) option" where
  "select_loop we ev m [] s w = None"
| "select_loop we ev m (Interrupted # xs) s w = Some (None, s, w)"
| "select_loop we ev m (Stopped e # xs) s w = Some (e, s, w)"
| "select_loop we ev m (Ticked # xs) s w =
     (case Cleanup we ev m False s w of (_, s, w) \<Rightarrow> select_loop we ev m xs s w)"

text \<open>From the manager on.\<close>

definition serve_until ::
  "launch \<Rightarrow> web \<Rightarrow> env \<Rightarrow> manager \<Rightarrow> signal list \<Rightarrow> site \<Rightarrow> world \<Rightarrow> (err \<times> site \<times> world) option" where
  "serve_until l we ev m signals s w =
     (case select_loop we ev m signals s w of
        None \<Rightarrow> None
      | Some (e, s, w) \<Rightarrow>
          (let e = (if ShutdownError l \<noteq> None then errors_join [e, ShutdownError l] else e)
           in case Cleanup we ev m True s w of
                (cleanupErr, s, w) \<Rightarrow>
                  Some (errors_join [(if is_err e ServerClosed then None else e), cleanupErr], s, w)))"

definition management_dsn :: "launch \<Rightarrow> go_error + string" where
  "management_dsn l =
     (case (case Container l of None \<Rightarrow> Inr (GivenDsn l) | Some x \<Rightarrow> x) of
        Inl e \<Rightarrow> Inl e
      | Inr dsn \<Rightarrow> if dsn = [] then Inl (Errorf ''provide -container, -dsn, or PGISLET_DSN'') else Inr dsn)"

definition no_sessions :: site where
  "no_sessions = \<lparr>sessions = [], pending = 0, beat = 0\<rparr>"

definition run_web ::
  "driver \<Rightarrow> launch \<Rightarrow> web \<Rightarrow> env \<Rightarrow> signal list \<Rightarrow> world \<Rightarrow> (err \<times> site \<times> world) option" where
  "run_web dr l we ev signals w =
     (case FlagError l of
        Some e \<Rightarrow> Some (Some e, no_sessions, w)
      | None \<Rightarrow>
     (case listen_error (Addr l) of
        Some e \<Rightarrow> Some (Some e, no_sessions, w)
      | None \<Rightarrow>
     (case AssetsError l of
        Some e \<Rightarrow> Some (Some (Wrapf ''frontend assets'' e), no_sessions, w)
      | None \<Rightarrow>
     (case management_dsn l of
        Inl e \<Rightarrow> Some (Some e, no_sessions, w)
      | Inr dsn \<Rightarrow>
     (case New dr ev (empty_config\<lparr>DSN := dsn, MaxSQLBytes := 64 * 1024\<rparr>) w of
        (Inl e, w) \<Rightarrow> Some (Some e, no_sessions, w)
      | (Inr m, w) \<Rightarrow> serve_until l we ev m signals no_sessions w)))))"

text \<open>The program of the playground; \<open>flag.Parse\<close> ends the program when it fails.\<close>

definition run_playground ::
  "(go_error \<Rightarrow> string) \<Rightarrow> driver \<Rightarrow> env \<Rightarrow> frontend \<Rightarrow> launch \<Rightarrow> world \<Rightarrow> (ending \<times> line list) \<times> world" where
  "run_playground ext dr ev fe l w =
     (case management_dsn l of
        Inl e \<Rightarrow> ((Returns (Some e), []), w)
      | Inr dsn \<Rightarrow> Run_playground ext dr ev fe dsn w)"

section \<open>Removing every workspace\<close>

text \<open>Nobody else makes an islet whose identifier is one of the table's; and \<open>Order\<close> only orders.\<close>

definition creates_none :: "env \<Rightarrow> bool" where
  "creates_none ev \<longleftrightarrow> (\<forall>n d i. row_of d i = None \<longrightarrow> row_of (Others ev n d) i = None)"

definition only_orders :: "web \<Rightarrow> bool" where
  "only_orders we \<longleftrightarrow> (\<forall>xs. set (Order we xs) = set xs)"

lemma began_absent: "creates_none ev \<Longrightarrow> began ev d d' \<Longrightarrow> row_of d i = None \<Longrightarrow> row_of d' i = None"
  by (auto simp: creates_none_def began_def)

lemma recover_absent:
  assumes "env_ok c ev" and "creates_none ev" and "Recover ev h w = (x, w')" and "row_of (store w) j = None"
  shows "row_of (store w') j = None"
proof -
  obtain d where b: "began ev (store w) d" and post: "reset_post d h False True (x, w')"
    using reset_outcome [OF assms(1), of w h False True] assms(3) unfolding Recover_def by metis
  from began_absent [OF assms(2) b assms(4)] post show ?thesis
    by (cases x) (auto simp: reset_post_def)
qed

lemma delete_absent:
  assumes "env_ok c ev" and "creates_none ev" and "Delete ev m h w = (e, w')" and "row_of (store w) j = None"
  shows "row_of (store w') j = None"
proof -
  obtain d where b: "began ev (store w) d" and post: "delete_post d h (e, w')"
    using delete_outcome [OF assms(1), of w h m] unfolding assms(3) .
  from began_absent [OF assms(2) b assms(4)] post show ?thesis by (auto simp: delete_post_def)
qed

lemma remove_absent:
  assumes env: "env_ok c ev" and others: "creates_none ev" and run: "remove ev m i w = (e, w')"
    and none: "row_of (store w) j = None"
  shows "row_of (store w') j = None"
proof -
  obtain h e1 w1 where 1: "open_islet ev i w = ((h, e1), w1)" by (cases "open_islet ev i w") auto
  have n1: "row_of (store w1) j = None" using open_law [OF 1] began_absent [OF others _ none] by blast
  obtain h2 e2 w2 where 2: "Recover ev h w1 = ((h2, e2), w2)" by (cases "Recover ev h w1") auto
  note n2 = recover_absent [OF env others 2 n1]
  obtain e3 w3 where 3: "Delete ev m h2 w2 = (e3, w3)" by (cases "Delete ev m h2 w2")
  obtain e4 w4 where 4: "Delete ev m h w1 = (e4, w4)" by (cases "Delete ev m h w1")
  have "w' \<in> {w1, w2, w3, w4}"
    using run by (auto simp: remove_def 1 2 3 4 split: if_splits option.splits)
  with n1 n2 delete_absent [OF env others 3 n2] delete_absent [OF env others 4 n1] show ?thesis by auto
qed

lemma loop_absent:
  assumes "env_ok c ev" and "creates_none ev"
  shows "cleanup_loop we ev m items s w = (failures, s', w') \<Longrightarrow> row_of (store w) j = None \<Longrightarrow> row_of (store w') j = None"
proof (induction items arbitrary: s w failures)
  case (Cons x rest)
  obtain c item where x: "x = (c, item)" by (cases x)
  obtain e w1 where 1: "remove ev m (Sid item) w = (e, w1)" by (cases "remove ev m (Sid item) w")
  have "\<exists>s1 fs. cleanup_loop we ev m rest s1 w1 = (fs, s', w')"
    using Cons.prems(1) by (auto simp: x 1 split: option.splits prod.splits)
  with Cons.IH remove_absent [OF assms 1 Cons.prems(2)] show ?case by blast
qed simp

lemma loop_removes:
  assumes env: "env_ok c ev" and others: "creates_none ev"
  shows "cleanup_loop we ev m items s w = (failures, s', w') \<Longrightarrow> errors_join failures = None \<Longrightarrow>
    x \<in> set items \<Longrightarrow> row_of (store w') (Sid (snd x)) = None"
proof (induction items arbitrary: s w failures)
  case (Cons y rest)
  obtain c item where y: "y = (c, item)" by (cases y)
  obtain e w1 where 1: "remove ev m (Sid item) w = (e, w1)" by (cases "remove ev m (Sid item) w")
  from Cons.prems(1,2) have e: "e = None" and rest: "cleanup_loop we ev m rest s w1 = (failures, s', w')"
    by (cases e; auto simp: y 1 split: prod.splits)+
  show ?case
  proof (cases "x = y")
    case True
    with remove_gone [OF env 1 [unfolded e]] loop_absent [OF env others rest] show ?thesis by (simp add: y)
  next
    case False
    with Cons.IH [OF rest Cons.prems(2)] Cons.prems(3) show ?thesis by auto
  qed
qed simp

text \<open>The removals one by one: after its own, each islet is gone, whoever interferes.\<close>

definition gone_meanwhile :: "string \<Rightarrow> string \<Rightarrow> db \<Rightarrow> db \<Rightarrow> bool" where
  "gone_meanwhile c i d d' \<longleftrightarrow> (\<exists>e. changes c d e \<and> row_of e i = None \<and> changes c e d')"

lemma loop_gone:
  assumes sound: "sound c ev fe m"
  shows "registry_ok c (store w) \<Longrightarrow> cleanup_loop we ev m items s w = (failures, s', w') \<Longrightarrow>
    errors_join failures = None \<Longrightarrow> x \<in> set items \<Longrightarrow> gone_meanwhile c (Sid (snd x)) (store w) (store w')"
proof (induction items arbitrary: s w failures)
  case (Cons y rest)
  obtain k item where y: "y = (k, item)" by (cases y)
  obtain e w1 where 1: "remove ev m (Sid item) w = (e, w1)" by (cases "remove ev m (Sid item) w")
  from Cons.prems(2,3) have e: "e = None" and rest: "cleanup_loop we ev m rest s w1 = (failures, s', w')"
    by (cases e; auto simp: y 1 split: prod.splits)+
  have c1: "changes c (store w) (store w1)"
    using ordered.removes [OF 1, of c] sound Cons.prems(1) by (simp add: orderly_def)
  with Cons.prems(1) have ok1: "registry_ok c (store w1)" using changes_registry_ok by blast
  have c2: "changes c (store w1) (store w')"
    using ordered.loops [OF rest, of c] sound ok1 by (simp add: orderly_def)
  show ?case
  proof (cases "x = y")
    case True
    from sound have "env_ok c ev" unfolding sound_def by blast
    from remove_gone [OF this 1 [unfolded e]] c1 c2 show ?thesis by (auto simp: gone_meanwhile_def True y)
  next
    case False
    with Cons.IH [OF ok1 rest Cons.prems(3)] Cons.prems(4) c1 show ?thesis
      by (auto simp: gone_meanwhile_def intro: rtranclp_trans)
  qed
qed simp

lemma cleanup_removes:
  assumes sound: "sound c ev fe m" and ok: "registry_ok c (store w)" and order: "only_orders we"
    and run: "Cleanup we ev m True s w = (None, s', w')"
  shows "sessions s' = [] \<and> (\<forall>x \<in> set (sessions (Peers we (beat s) s)).
    gone_meanwhile c (Sid (snd x)) (store w) (store w') \<and> (creates_none ev \<longrightarrow> row_of (store w') (Sid (snd x)) = None))"
proof -
  from sound have env: "env_ok c ev" unfolding sound_def by blast
  obtain items s1 where 1: "locked we (expire True) s = (items, s1)" by (cases "locked we (expire True) s")
  then have items: "items = sessions (Peers we (beat s) s)" and s1: "sessions s1 = []"
    by (auto simp: locked_def expire_def is_expired_def Let_def map_snd_enumerate)
  obtain fs s2 w2 where 2: "cleanup_loop we ev m (Order we items) s1 w = (fs, s2, w2)"
    by (cases "cleanup_loop we ev m (Order we items) s1 w") auto
  with run have none: "errors_join fs = None" and eqs: "s' = s2" "w' = w2" by (auto simp: Cleanup_def 1)
  have "\<And>x. x \<in> set items \<Longrightarrow> x \<in> set (Order we items)" using order by (simp add: only_orders_def)
  with cleanup_loop_ok [OF 2 none] loop_removes [OF env _ 2 none] loop_gone [OF sound ok 2 none]
  show ?thesis by (auto simp: eqs s1 items)
qed

section \<open>The end of the program\<close>

text \<open>The loop only cleans up: a client of the manager.\<close>

context manager_client
begin

lemma selects: "select_loop we ev m signals s w = Some (e, s', w') \<Longrightarrow> K w w'"
proof (induction signals arbitrary: s w)
  case (Cons x rest)
  show ?case
  proof (cases x)
    case Ticked
    obtain e1 s1 w1 where 1: "Cleanup we ev m False s w = (e1, s1, w1)" by (cases "Cleanup we ev m False s w") auto
    with Cons Ticked have "K w1 w'" by simp
    with cleans [OF 1] show ?thesis by (rule trans)
  qed (use Cons.prems refl in auto)
qed simp

lemma serves_until:
  assumes "serve_until l we ev m signals s w = Some (e, s', w')"
  obtains e1 s1 w1 e2 where "select_loop we ev m signals s w = Some (e1, s1, w1)"
    and "Cleanup we ev m True s1 w1 = (e2, s', w')" and "e = None \<longrightarrow> e2 = None" and "K w w1" and "K w1 w'"
proof -
  from assms obtain e1 s1 w1 where 1: "select_loop we ev m signals s w = Some (e1, s1, w1)"
    by (auto simp: serve_until_def split: option.splits prod.splits)
  obtain e2 s2 w2 where 2: "Cleanup we ev m True s1 w1 = (e2, s2, w2)" by (cases "Cleanup we ev m True s1 w1") auto
  with assms 1 have "\<exists>e3. errors_join [e3, e2] = e \<and> s2 = s' \<and> w2 = w'"
    unfolding serve_until_def Let_def by (simp only: option.case prod.case option.inject prod.inject) blast
  then obtain e3 where eqs: "s2 = s'" "w2 = w'" and "errors_join [e3, e2] = e" by blast
  then have "e = None \<longrightarrow> e2 = None" by auto
  with that [OF 1 2 [unfolded eqs]] selects [OF 1] cleans [OF 2 [unfolded eqs]] show ?thesis by blast
qed

end

text \<open>Cleaning up runs no SQL of visitors: it does not matter what the policy would accept.\<close>

definition no_frontend :: frontend where
  "no_frontend = \<lparr>ParseToJSON = (\<lambda>_. Inl (Errorf [])), Unmarshal = (\<lambda>_. Inr [])\<rparr>"

lemma no_frontend_confined: "confined no_frontend reserved ev"
proof -
  have "\<not> accepted no_frontend reserved s sql" for s sql
    by (simp add: accepted_def check_def parse.simps parse_tree_def no_frontend_def)
  then show ?thesis by (simp add: confined_def)
qed

text \<open>
  C5: the program of the web example goes through changes of the protocol only, from making the
  manager to the last cleanup, however it ends. When it ends without an error the table of sessions
  is empty, and each workspace that was in it when the last cleanup began was removed by that
  cleanup; none of them exists at the end unless another session has made it again.
\<close>

theorem stopped_program_leaves_nothing:
  "env_ok c ev \<Longrightarrow> same_server ev \<Longrightarrow> registry_ok c (store w) \<Longrightarrow> only_orders we \<Longrightarrow>
   (\<And>dsn pc. ParseConfig dr dsn = Inr pc \<Longrightarrow> Database pc = c) \<Longrightarrow>
   run_web dr l we ev signals w = Some (e, s', w') \<Longrightarrow>
     changes c (store w) (store w') \<and> registry_ok c (store w') \<and>
     (e = None \<longrightarrow> sessions s' = [] \<and>
       (\<exists>m s1 w1 e1 w0. select_loop we ev m signals no_sessions w0 = Some (e1, s1, w1) \<and>
          Cleanup we ev m True s1 w1 = (None, s', w') \<and>
          (\<forall>x \<in> set (sessions (Peers we (beat s1) s1)).
             gone_meanwhile c (Sid (snd x)) (store w1) (store w') \<and>
             (creates_none ev \<longrightarrow> row_of (store w') (Sid (snd x)) = None))))"
proof -
  assume env: "env_ok c ev" and same: "same_server ev" and ok: "registry_ok c (store w)"
    and order: "only_orders we" and db: "\<And>dsn pc. ParseConfig dr dsn = Inr pc \<Longrightarrow> Database pc = c"
    and run: "run_web dr l we ev signals w = Some (e, s', w')"
  let ?cfg = "\<lambda>dsn. empty_config\<lparr>DSN := dsn, MaxSQLBytes := 64 * 1024\<rparr>"
  have "(e \<noteq> None \<and> w' = w) \<or> (\<exists>dsn y. e = Some y \<and> New dr ev (?cfg dsn) w = (Inl y, w')) \<or>
    (\<exists>dsn m w0. New dr ev (?cfg dsn) w = (Inr m, w0) \<and> serve_until l we ev m signals no_sessions w0 = Some (e, s', w'))"
    using run by (auto simp: run_web_def split: option.splits sum.splits prod.splits)
  then show ?thesis
  proof (elim disjE exE conjE)
    fix dsn m w0
    assume n: "New dr ev (?cfg dsn) w = (Inr m, w0)" and r: "serve_until l we ev m signals no_sessions w0 = Some (e, s', w')"
    let ?fe = "no_frontend"
    from new_runtime [OF n] db have sound: "sound c ev ?fe m" using env no_frontend_confined by (auto simp: sound_def)
    from new_changes [OF env same ok n] have c0: "changes c (store w) (store w0)" .
    with ok have ok0: "registry_ok c (store w0)" using changes_registry_ok by blast
    from r obtain e1 s1 w1 e2 where 1: "select_loop we ev m signals no_sessions w0 = Some (e1, s1, w1)"
      and 2: "Cleanup we ev m True s1 w1 = (e2, s', w')" and e2: "e = None \<longrightarrow> e2 = None"
      and "orderly c ev ?fe m w0 w1" "orderly c ev ?fe m w1 w'"
      by (rule ordered.serves_until)
    with sound ok0 have c1: "changes c (store w0) (store w1)" by (simp add: orderly_def)
    with ok0 have ok1: "registry_ok c (store w1)" using changes_registry_ok by blast
    with \<open>orderly c ev ?fe m w1 w'\<close> sound have c2: "changes c (store w1) (store w')" by (simp add: orderly_def)
    with c0 c1 have c: "changes c (store w) (store w')" by (blast intro: rtranclp_trans)
    moreover from c ok have "registry_ok c (store w')" using changes_registry_ok by blast
    moreover have "sessions s' = [] \<and> (\<exists>m s1 w1 e1 w0. select_loop we ev m signals no_sessions w0 = Some (e1, s1, w1) \<and>
        Cleanup we ev m True s1 w1 = (None, s', w') \<and>
        (\<forall>x \<in> set (sessions (Peers we (beat s1) s1)). gone_meanwhile c (Sid (snd x)) (store w1) (store w') \<and>
           (creates_none ev \<longrightarrow> row_of (store w') (Sid (snd x)) = None)))" if "e = None"
    proof -
      from 2 e2 that have 3: "Cleanup we ev m True s1 w1 = (None, s', w')" by simp
      from cleanup_removes [OF sound ok1 order 3] 1 3 show ?thesis by blast
    qed
    ultimately show ?thesis by blast
  next
    fix dsn y assume e: "e = Some y" and n: "New dr ev (?cfg dsn) w = (Inl y, w')"
    from new_changes [OF env same ok n] ok e show ?thesis using changes_registry_ok by blast
  qed (use ok in auto)
qed

section \<open>The end of the playground\<close>

lemma cleanup_gone:
  assumes "env_ok c ev" and "cleanup ev m i w = (out, w')" and "list_all (Not \<circ> cleanup_line) out"
  shows "row_of (store w') i = None"
proof -
  obtain e w1 where 1: "remove ev m i w = (e, w1)" by (cases "remove ev m i w")
  with assms(2,3) have "e = None" and "w1 = w'"
    by (cases e; auto simp: cleanup_remove cleanup_line_def)+
  with remove_gone [OF assms(1)] 1 show ?thesis by simp
qed

lemma orderly_step:
  "sound c ev fe m \<Longrightarrow> registry_ok c (store w) \<Longrightarrow> orderly c ev fe m w w' \<Longrightarrow>
     changes c (store w) (store w') \<and> registry_ok c (store w')"
  unfolding orderly_def using changes_registry_ok by blast

lemma gone_before: "changes c d d1 \<Longrightarrow> gone_meanwhile c i d1 d' \<Longrightarrow> gone_meanwhile c i d d'"
  unfolding gone_meanwhile_def by (blast intro: rtranclp_trans)

text \<open>What \<open>Run\<close> leaves and prints once its first islet is there.\<close>

definition cleaned_up ::
  "string \<Rightarrow> env \<Rightarrow> manager \<Rightarrow> manager \<Rightarrow> frontend \<Rightarrow> islet \<Rightarrow> islet \<Rightarrow> err \<Rightarrow> world \<Rightarrow> world \<Rightarrow> (ending \<times> line list) \<times> world \<Rightarrow> bool" where
  "cleaned_up c ev m node fe a b eb w1 w2 y \<longleftrightarrow>
     (case y of ((x, out), w') \<Rightarrow>
        (\<forall>l \<in> set out. justified ev m node fe a b l) \<and>
        (list_all (Not \<circ> cleanup_line) out \<longrightarrow>
           gone_meanwhile c (ID a) (store w1) (store w') \<and>
           (eb = None \<longrightarrow> gone_meanwhile c (ID b) (store w2) (store w'))) \<and>
        (x = Returns None \<longrightarrow> eb = None \<and>
           (\<exists>rows fails. list_all cleanup_line fails \<and>
              out = [SeedQueried rows, SeedDropped, AccessDenied, Fenced, Restored (StringValue ''2''), AllDeleted] @ fails)))"

lemma managers_clean_up:
  assumes m: "sound c ev fe m" and node: "sound c ev fe node" and ok: "registry_ok c (store w)"
    and run: "run_managers ext ev m node fe w = (y, w')"
    and a: "CreateWithInitialization ev m fe learners w = ((a, None), w1)"
    and b: "Create ev m w1 = ((b, eb), w2)"
  shows "cleaned_up c ev m node fe a b eb w1 w2 (y, w')"
proof -
  from m have env: "env_ok c ev" unfolding sound_def by blast
  have both: "sound c ev fe m = sound c ev fe node" using m node by simp
  note step = orderly_step [OF m]
  from step [OF ok ordered.creates_with [OF a]] have ok1: "registry_ok c (store w1)" by simp
  from step [OF ok1 ordered.creates [OF b, of c fe]] have c2: "changes c (store w1) (store w2)"
    and ok2: "registry_ok c (store w2)" by simp_all
  show ?thesis
  proof (cases eb)
    case (Some e)
    obtain out w3 where 3: "cleanup ev m (ID a) w2 = (out, w3)" by (cases "cleanup ev m (ID a) w2")
    with run a b Some have eqs: "y = (Returns (Some e), out)" "w' = w3" by (simp_all add: run_managers_def)
    have "changes c (store w2) (store w3)" using step [OF ok2 nodes.cleanups [OF 3, rule_format, OF both]] by simp
    then have "gone_meanwhile c (ID a) (store w1) (store w3)" if "row_of (store w3) (ID a) = None"
      using that c2 unfolding gone_meanwhile_def by (blast intro: rtranclp_trans)
    with cleanup_lines [OF 3, of a b] cleanup_gone [OF env 3] eqs Some show ?thesis by (simp add: cleaned_up_def)
  next
    case None
    obtain x out3 w3 where 3: "run_islets ext ev m node fe a b w2 = ((x, out3), w3)"
      by (cases "run_islets ext ev m node fe a b w2") auto
    obtain out4 w4 where 4: "cleanup ev m (ID b) w3 = (out4, w4)" by (cases "cleanup ev m (ID b) w3")
    obtain out5 w5 where 5: "cleanup ev m (ID a) w4 = (out5, w5)" by (cases "cleanup ev m (ID a) w4")
    from run a b None 3 4 5 have eqs: "y = (x, out3 @ out4 @ out5)" "w' = w5" by (simp_all add: run_managers_def)
    from step [OF ok2 nodes.islets_nodes [OF 3, rule_format, OF both]] have c3: "changes c (store w2) (store w3)"
      and ok3: "registry_ok c (store w3)" by simp_all
    from step [OF ok3 nodes.cleanups [OF 4, rule_format, OF both]] have c4: "changes c (store w3) (store w4)"
      and ok4: "registry_ok c (store w4)" by simp_all
    from step [OF ok4 nodes.cleanups [OF 5, rule_format, OF both]] have c5: "changes c (store w4) (store w5)" by simp
    have "gone_meanwhile c (ID b) (store w2) (store w5)" if "row_of (store w4) (ID b) = None"
      using that c3 c4 c5 unfolding gone_meanwhile_def by (blast intro: rtranclp_trans)
    moreover have "gone_meanwhile c (ID a) (store w1) (store w5)" if "row_of (store w5) (ID a) = None"
      using that c2 c3 c4 c5 unfolding gone_meanwhile_def by (blast intro: rtranclp_trans)
    ultimately show ?thesis
      using islets_lines [OF 3] cleanup_lines [OF 4, of a b node fe] cleanup_lines [OF 5, of a b node fe]
        cleanup_gone [OF env 4] cleanup_gone [OF env 5]
      by (auto simp: cleaned_up_def eqs None)
  qed
qed


section \<open>A concrete run\<close>

definition sample_launch :: launch where
  "sample_launch = \<lparr>FlagError = None, Addr = ''localhost:80'', AssetsError = None, Container = None,
     GivenDsn = ''x'', ShutdownError = None\<rparr>"

text \<open>A handler admits a workspace just before the program stops.\<close>

definition late_web :: web where
  "late_web = quiet_web\<lparr>Peers := (\<lambda>_ _. visit_site)\<rparr>"

definition installed_world :: world where
  "installed_world = \<lparr>store = install new_db, tick = 0, advanced = []\<rparr>"

lemma remove_missing: "calm ev \<Longrightarrow> row_of (store w) i = None \<Longrightarrow> remove ev m i w = (None, bump w)"
  by (simp add: remove_def open_islet_def lookup_def interfere_calm pool_query_calm select_metadata_def
      read_metadata_def scan_def islet_of_def)

lemma row_of_install: "row_of (install d) = row_of d"
  by (simp add: row_of_def fun_eq_iff)

theorem stopped_program_leaves_nothing_witness:
  "\<exists>s' w'. run_web sample_driver sample_launch late_web quiet_env [Interrupted] installed_world = Some (None, s', w') \<and>
     sessions s' = [] \<and> registry_ok ''app'' (store w')"
proof -
  let ?cfg = "empty_config\<lparr>DSN := ''x'', MaxSQLBytes := 64 * 1024\<rparr>"
  let ?w = installed_world
  have n: "normalized ?cfg = (default_config ?cfg, None)"
    by (simp add: normalized_def default_config_def empty_config_def invalid_limits_def millisecond_def second_def Let_def)
  have sup: "supported (store ?w)" by (simp add: installed_world_def supported_install new_supported)
  have ok: "registry_ok ''app'' (store ?w)" by (simp add: installed_world_def install_order new_tidy new_supported)
  obtain y w0 where y: "bootstrap sample_driver quiet_env ?w = (y, w0)" by (cases "bootstrap sample_driver quiet_env ?w")
  with sup bootstrap_calm [OF quiet_calm, where dr = sample_driver and w = ?w]
  obtain r where r: "y = Inr r" by (cases y) (simp_all add: decides_def)
  from bootstrap_law [OF quiet_server(1), of ?w sample_driver] have "store w0 = install (store ?w)"
    using calm_found [OF quiet_calm] y by (auto simp: installed_def r)
  then have none: "row_of (store w0) sample_id = None"
    by (simp add: installed_world_def row_of_install) (simp add: row_of_def new_db_def)
  obtain m where new: "New sample_driver quiet_env ?cfg ?w = (Inr m, w0)"
    using n y r by (simp add: New_def default_config_def)
  have listen: "listen_error ''localhost:80'' = None" by code_simp
  have clean: "fst (Cleanup late_web quiet_env m True no_sessions w0) = None"
    using remove_missing [OF quiet_calm none]
    by (simp add: Cleanup_def locked_def expire_def is_expired_def late_web_def quiet_web_def visit_site_def
        no_sessions_def enumerate_simps)
  then obtain s' w' where c: "Cleanup late_web quiet_env m True no_sessions w0 = (None, s', w')"
    by (cases "Cleanup late_web quiet_env m True no_sessions w0") auto
  have run: "run_web sample_driver sample_launch late_web quiet_env [Interrupted] ?w = Some (None, s', w')"
    using new listen c
    by (simp add: run_web_def sample_launch_def management_dsn_def serve_until_def)
  have order: "only_orders late_web" by (simp add: only_orders_def late_web_def quiet_web_def)
  have db: "Database pc = ''app''" if "ParseConfig sample_driver dsn = Inr pc" for dsn pc
    using that sample_app by simp
  have "registry_ok ''app'' (store w') \<and> sessions s' = []"
    using stopped_program_leaves_nothing [OF quiet_ok quiet_server(1) ok order _ run] db by blast
  with run show ?thesis by blast
qed


end
