(* ===== verification/WebTimeout.thy ===== *)
theory WebTimeout
  imports WebOutcomes
begin

text \<open>
  One answer of the web example that is not true: restoring the sample data is a reset that commits
  and then the statements of the seed in a transaction of their own. When these time out, the
  visitor reads that the operation was not committed, while the workspace has been emptied and has
  failed.
\<close>

section \<open>A statement that fails\<close>

lemma first_statement_fails:
  assumes calm: "calm ev" and ok: "registry_ok (Database (Runtime m)) (store w)"
    and row: "row_of (store w) i = Some r"
    and init: "row_state r = ''initializing''" "init_token r = Some tok"
    and dep: "\<And>n. dependency_query (Catalog ev n (store w)) (schema_name r) = None"
    and size: "check_size (Settings m) (sql # rest) = None"
    and policy: "\<And>local. check fe sql (schema_name r) local = None"
    and reply: "\<And>n u d. fst (Run ev n u sql d) = error_reply x"
  shows "\<exists>res w'. execute ev m fe (metadata_of i r) (sql # rest) True w = ((res, with_statement 0 (classify (Some x))), w')"
proof -
  let ?md = "metadata_of i r"
  define w1 where "w1 = bump w"
  define t where "t = \<lparr>View = store w, Saved = None, Status = Healthy\<rparr>"
  have w1: "store w1 = store w" by (simp add: w1_def)
  have user: "User (runtime_config m ?md) = role_name r" by (simp add: runtime_config_def)
  have tok: "md_token ?md = tok" using init by simp
  have ent: "enter_tx ev (role_name r) ?md (Some tok) t v = (None, t, bump v)" for v
    by (rule enter_calm [OF calm, of "Database (Runtime m)"]) (use ok row init in \<open>simp_all add: t_def w1\<close>)
  have dep0: "dependency_error (Inr (dependency_query (Catalog ev n (store w)) (schema_name r))) = None" for n
    using dep by (simp add: dependency_error_def scan_def)
  have loc: "\<exists>local. local_functions ev m (schema_name r) t v = (Inr local, t, bump v)" for v
    using calm by (simp add: local_functions_def tx_call_calm t_def w1)
  have qry: "\<exists>out t' v'. tx_query ev (role_name r) sql rows bytes t v = (out, t', v') \<and> Failure out = Some x" for v rows bytes
  proof -
    obtain rep d where rep: "Run ev (tick v) (role_name r) sql (store w) = (rep, d)"
      by (cases "Run ev (tick v) (role_name r) sql (store w)") auto
    with reply have "rep = error_reply x" by (metis fst_conv)
    with rep calm show ?thesis
      by (simp add: tx_query_def tx_reply_def calmD t_def w1 Let_def query_def error_reply_def)
  qed
  have "\<exists>res t' v'. exec_loop ev m fe ?md (role_name r) 0 (sql # rest) rows bytes t v =
      ((res, with_statement 0 (classify (Some x))), t', v')" for rows bytes v
  proof -
    obtain local where "local_functions ev m (schema_name r) t v = (Inr local, t, bump v)" using loc by blast
    moreover obtain out t' v' where "tx_query ev (role_name r) sql rows bytes t (bump v) = (out, t', v')" "Failure out = Some x"
      using qry by blast
    ultimately show ?thesis by (simp add: policy)
  qed
  then obtain res t' v' where loop: "exec_loop ev m fe ?md (role_name r) 0 (sql # rest) (MaxRows (Settings m))
      (MaxResultBytes (Settings m)) t (bump (bump (bump w1))) = ((res, with_statement 0 (classify (Some x))), t', v')"
    by blast
  have "with_statement 0 (classify (Some x)) \<noteq> None"
    using classify_Some [of x] by (cases "classify (Some x)"; cases "the (classify (Some x))") (auto simp: with_statement_def)
  then have "with_tx ev (\<lambda>e. ([], classify (Some e))) (execute_tx ev m fe ?md (sql # rest) True (runtime_config m ?md)) w1 =
      ((res, with_statement 0 (classify (Some x))), rollback v')"
    using calm ent dep0 loop tok
    by (auto simp: with_tx_def begin_calm t_def [symmetric] execute_tx_def user pool_query_calm w1 Let_def
        simp del: exec_loop.simps)
  with size connect_calm [OF calm ok row] show ?thesis
    by (simp add: execute_def w1_def [symmetric])
qed

section \<open>A seed that times out\<close>

text \<open>A server that cancels every statement of a visitor, and a parser that reads every text as one SELECT.\<close>

definition slow_env :: env where
  "slow_env = quiet_env\<lparr>Run := (\<lambda>_ _ _ d. (error_reply (sqlstate ''57014''), d))\<rparr>"

definition select_frontend :: frontend where
  "select_frontend = \<lparr>ParseToJSON = Inr, Unmarshal = (\<lambda>_. Inr (select_call [''now'']))\<rparr>"

lemma slow_sel [simp]: "Others slow_env = Others quiet_env" "Catalog slow_env = Catalog quiet_env"
  "fst (Run slow_env n u sql d) = error_reply (sqlstate ''57014'')"
  by (simp_all add: slow_env_def)

lemma slow_ok: "calm slow_env" "env_ok c slow_env"
  using quiet_calm quiet_ok [of c] by (simp_all add: calm_def env_ok_def slow_env_def)

lemma select_accepted: "schema \<noteq> [] \<Longrightarrow> check select_frontend sql schema local = None"
  by (simp add: select_frontend_def select_call_def document_def call_node_def name_node_def policy_eval)

lemma slow_confined: "confined fe reserved slow_env"
  by (simp add: confined_def slow_env_def quiet_env_def)

lemma timeout_problem:
  "problem (wrap ErrInitialization (errors_join [Some (IsletError ErrTimeout (Some (sqlstate code)) i), None, None])) =
     (408, plain_error ''timeout'' ''Execution timed out. The operation was not committed.'')"
  by (simp add: problem_def)

lemma seed_size: "check_size (Settings sample_manager) seed = None"
  by code_simp

lemma slow_current:
  assumes "row_of (store w) sample_id = Some r"
  shows "current quiet_web slow_env visit_request visit_site w =
    (Inr (islet_of (metadata_of sample_id r), Renew ''k'' (Tls visit_request)), visit_site\<lparr>beat := 1\<rparr>, bump w)"
  using open_calm [OF slow_ok(1) assms]
  by (simp add: current_def locked_def touch_def visit_site_def quiet_web_def alive_def session_ttl_def second_def Let_def)

text \<open>
  C36: a visitor restores the sample data of an active workspace, and the statements of the seed time
  out: the response is 408 with the words that the operation was not committed, but the workspace is
  in its next generation, failed, and all its tables are gone.
\<close>

theorem timed_out_seed_is_not_undone:
  "\<exists>r r' resp s' w'.
     row_of (store created_world) sample_id = Some r \<and> row_state r = ''active'' \<and> row_generation r = 1 \<and>
     handle_change quiet_web slow_env sample_manager select_frontend True visit_request visit_site created_world = (resp, s', w') \<and>
     Code resp = 408 \<and>
     Body resp = ErrorBody (plain_error ''timeout'' ''Execution timed out. The operation was not committed.'') None \<and>
     row_of (store w') sample_id = Some r' \<and> row_state r' = ''failed'' \<and> row_generation r' = 2 \<and>
     schemas (store w') (schema_of sample_id) = Some []"
proof -
  obtain r where row: "row_of (store created_world) sample_id = Some r" "row_generation r = 1" "row_state r = ''active''"
    and ok: "registry_ok ''app'' (store created_world)"
    using sample_created by metis
  let ?w = "bump created_world" and ?h = "islet_of (metadata_of sample_id r)"
  from registry_okD(2) [OF ok row(1)] have names: "schema_name r = schema_of sample_id" by (simp add: row_ok_def)
  have no_dep: "dependency_query (Catalog slow_env n d) s = None" for n d s by (simp add: sample_no_dependency)
  obtain n w1 token u where 1: "reset slow_env ?h True False ?w = ((n, None), w1)" and tok: "token \<noteq> []"
    and w1: "store w1 = update_row sample_id (next_row ''initializing'' token u) (wiped (schema_name r) (role_name r) (store ?w))"
    and n: "n = islet_of (metadata_of sample_id (next_row ''initializing'' token u r))"
    by (rule reset_initializing [OF slow_ok(1) slow_ok(2) [of "''app''"], of ?w ?h r]) (use ok row no_dep in simp_all)
  let ?r1 = "next_row ''initializing'' token u r"
  have r1: "row_of (store w1) sample_id = Some ?r1" "row_state ?r1 = ''initializing''" "init_token ?r1 = Some token"
    "row_generation ?r1 = 2" "schema_name ?r1 = schema_of sample_id"
    using row tok by (simp_all add: w1 next_row_def nullif_empty_def names)
  have ids: "ID n = sample_id" "Generation n = 2" using r1(4) by (simp_all add: n)
  have "changes ''app'' (store ?w) (store w1)"
    using reset_changes [OF slow_ok(2), of "''app''" ?w ?h True False] ok by (simp add: 1)
  then have ok1: "registry_ok ''app'' (store w1)" using changes_registry_ok ok by fastforce
  let ?x = "IsletError ErrTimeout (Some (sqlstate ''57014'')) 0"
  have x: "with_statement 0 (classify (Some (sqlstate ''57014''))) = Some ?x"
    by (simp add: with_statement_def sqlstate_def code_kind_def wrap_def)
  obtain first rest where sd: "seed = first # rest" by (simp add: seed_def)
  have "\<exists>res w2. execute slow_env sample_manager select_frontend (metadata_of sample_id ?r1) (first # rest) True (bump w1) =
      ((res, with_statement 0 (classify (Some (sqlstate ''57014'')))), w2)"
    by (rule first_statement_fails [OF slow_ok(1)])
      (use ok1 r1 no_dep seed_size sd in \<open>simp_all add: sample_app [symmetric] select_accepted schema_of_def\<close>)
  then obtain res w2 where ex: "execute slow_env sample_manager select_frontend (metadata_of (ID n) ?r1) seed True (bump w1) =
      ((res, Some ?x), w2)" unfolding x sd ids by blast
  obtain h' e w' where i: "initialize_islet slow_env sample_manager select_frontend n seed w1 = ((h', e), w')"
    by (cases "initialize_islet slow_env sample_manager select_frontend n seed w1") auto
  have e: "e = Some (wrap ErrInitialization (errors_join [Some ?x, None, None]))"
    using initialize_error [OF slow_ok(1) ok1 _ _ r1(2) ex] r1 ids by (simp add: i)
  have "initialized slow_env sample_manager select_frontend n seed (store w1) ((h', e), w')"
    unfolding i [symmetric] by (rule initialize_calm [OF slow_ok(1) slow_confined ok1 _ _ r1(2)]) (use r1 ids in simp_all)
  then obtain u' where w': "store w' = update_row sample_id (mark ''failed'' None u') (store w1)"
    by (auto simp: initialized_def e ids)
  have "Reinitialize slow_env sample_manager select_frontend ?h seed ?w = ((h', e), w')"
    by (simp add: Reinitialize_def seed_size 1 i)
  then obtain resp s' where run: "handle_change quiet_web slow_env sample_manager select_frontend True visit_request
      visit_site created_world = (resp, s', w')"
    and resp: "Code resp = 408"
      "Body resp = ErrorBody (plain_error ''timeout'' ''Execution timed out. The operation was not committed.'') None"
    by (simp add: handle_change_def slow_current [OF row(1)] e report_def timeout_problem with_cookie_def respond_def)
  moreover have "row_of (store w') sample_id = Some (mark ''failed'' None u' ?r1)"
    using r1(1) by (simp only: w' row_of_update refl if_True option.map)
  moreover have "schemas (store w') (schema_of sample_id) = Some []" by (simp add: w' w1 names)
  moreover have "row_state (mark ''failed'' None u' ?r1) = ''failed''" "row_generation (mark ''failed'' None u' ?r1) = 2"
    using r1(4) by simp_all
  ultimately show ?thesis using row run resp by blast
qed

end
