(* ===== verification/Dsn.thy ===== *)
theory Dsn
  imports Url
begin

text \<open>
  The connection string of the management account (\<open>internal/connection/dsn.go\<close>): \<open>BuildDSN\<close> and
  what a reader of the URL finds in it.
\<close>

section \<open>BuildDSN\<close>

record params =
  Host :: string
  Port :: int
  DatabaseName :: string
  Username :: string
  Secret :: string
  SSLMode :: string

definition ssl_modes :: "string list" where
  "ssl_modes = [''disable'', ''allow'', ''prefer'', ''require'', ''verify-ca'', ''verify-full'']"

text \<open>Defaults: port 5432, full verification.\<close>

definition with_defaults :: "params \<Rightarrow> params" where
  "with_defaults p =
     (let p = (if Port p = 0 then p\<lparr>Port := 5432\<rparr> else p)
      in if SSLMode p = [] then p\<lparr>SSLMode := ''verify-full''\<rparr> else p)"

definition bad_host :: "string \<Rightarrow> bool" where
  "bad_host h \<longleftrightarrow>
     contains_any h (''/?#@[] '' @ [CHR 0x09, CHR 0x0D, CHR 0x0A]) \<or> (CHR '':'' \<in> set h \<and> parse_ip h = None)"

text \<open>The URL, of the host and port, or with them as query parameters for a socket directory.\<close>

definition dsn_url :: "params \<Rightarrow> url" where
  "dsn_url p =
     (let socket = has_prefix (Host p) ''/''
      in \<lparr>Scheme = ''postgresql'', UserName = Username p, UserSecret = Secret p,
          UrlHost = (if socket then [] else join_host_port (Host p) (int_string (Port p))),
          UrlPath = ''/'' @ DatabaseName p, RawPath = ''/'' @ escape PathSegment (DatabaseName p),
          RawQuery = encode_values
            ((''sslmode'', SSLMode p) #
             (if socket then [(''host'', Host p), (''port'', int_string (Port p))] else []))\<rparr>)"

definition build_dsn :: "params option \<Rightarrow> go_error + string" where
  "build_dsn config =
     (case config of
        None \<Rightarrow> Inl (Errorf ''PostgreSQL connection configuration is required'')
      | Some p \<Rightarrow>
     (if Host p = [] \<or> DatabaseName p = [] \<or> Username p = [] then
        Inl (Errorf ''PostgreSQL host, database, and username are required'')
      else if list_ex (\<lambda>v. CHR 0x00 \<in> set v) [Host p, DatabaseName p, Username p, Secret p] then
        Inl (Errorf ''PostgreSQL connection parameters cannot contain NUL'')
      else
     (let q = with_defaults p
      in if Port q < 1 \<or> Port q > 65535 then Inl (Errorf ''PostgreSQL port must be between 1 and 65535'')
         else if \<not> List.member ssl_modes (SSLMode q) then Inl (Errorf ''invalid PostgreSQL SSL mode'')
         else if \<not> has_prefix (Host q) ''/'' \<and> bad_host (Host q) then
           Inl (Errorf ''PostgreSQL host must be a hostname, unbracketed IP, or absolute socket directory'')
         else Inr (url_string (dsn_url q)))))"

section \<open>Reading it back\<close>

lemma segment_path_char:
  assumes "c \<in> set (escape PathSegment s)"
  shows "path_char c"
proof -
  have "list_all path_char (CHR ''%'' # upper_hex)" by code_simp
  then have fixed: "x = CHR ''%'' \<or> x \<in> set upper_hex \<Longrightarrow> path_char x" for x
    by (auto simp only: list_all_iff list.set)
  have "should_escape PathMode c \<Longrightarrow> should_escape PathSegment c"
    by (simp add: should_escape_def split: if_splits)
  then have "\<not> should_escape PathSegment c \<Longrightarrow> path_char c" by (simp only: path_char_def) blast
  with fixed show ?thesis using escape_chars [OF assms] by blast
qed

lemma unescape_path: "md \<noteq> QueryComponent \<Longrightarrow> unescape md t = unescape PathSegment t"
  by (induction md t rule: unescape.induct) (auto split: list.split)

lemma path_escape:
  "escaped_path (''/'' @ s) (''/'' @ escape PathSegment s) = ''/'' @ escape PathSegment s"
proof -
  have "path_char (CHR ''/'')" by code_simp
  then have "valid_encoded (''/'' @ escape PathSegment s)"
    using segment_path_char by (simp add: valid_encoded_def list_all_iff)
  then show ?thesis by (simp add: escaped_path_def unescape_path)
qed

lemma digit_char_digit: "d < 10 \<Longrightarrow> is_digit (digit_char d)"
proof -
  have "list_all (\<lambda>d. is_digit (digit_char d)) [0..<10]" by code_simp
  then show "d < 10 \<Longrightarrow> is_digit (digit_char d)" by (simp add: list_all_iff)
qed

lemma nat_string_digits: "c \<in> set (nat_string n) \<Longrightarrow> is_digit c"
  by (induction n rule: nat_string.induct) (subst (asm) nat_string.simps, auto simp: digit_char_digit split: if_splits)

lemma port_digits:
  assumes "0 \<le> i" and "c \<in> set (int_string i)"
  shows "is_digit c"
  using assms nat_string_digits by (simp add: int_string_def)

lemma plain_port: "0 \<le> i \<Longrightarrow> plain_host (int_string i)"
proof -
  have "list_all (\<lambda>c. \<not> should_escape HostMode c) ''0123456789''" by code_simp
  then have "is_digit c \<Longrightarrow> \<not> should_escape HostMode c" for c unfolding is_digit_def list_all_iff by blast
  then show "0 \<le> i \<Longrightarrow> plain_host (int_string i)"
    using port_digits by (simp add: plain_host_def list_all_iff)
qed

lemma plain_join:
  assumes "plain_host h" and "0 \<le> i"
  shows "plain_host (join_host_port h (int_string i))"
proof -
  have "list_all (\<lambda>c. \<not> should_escape HostMode c) ''[]:''" by code_simp
  with assms(1) plain_port [OF assms(2)] show ?thesis by (simp add: plain_host_def join_host_port_def)
qed

lemma not_digits: "\<not> is_digit (CHR '':'')" "\<not> is_digit (CHR ''['')" "\<not> is_digit (CHR '']'')"
  by (simp_all add: is_digit_def)

definition is_socket :: "params \<Rightarrow> bool" where
  "is_socket p \<longleftrightarrow> has_prefix (Host p) ''/''"

lemma with_defaults_sel [simp]:
  "Host (with_defaults p) = Host p" "DatabaseName (with_defaults p) = DatabaseName p"
  "Username (with_defaults p) = Username p" "Secret (with_defaults p) = Secret p"
  by (simp_all add: with_defaults_def Let_def)

lemma build_dsn_Inr:
  assumes "build_dsn (Some p) = Inr s"
  shows "s = url_string (dsn_url (with_defaults p)) \<and> 1 \<le> Port (with_defaults p) \<and>
     (is_socket p \<or> \<not> bad_host (Host p))"
  using assms by (auto simp: build_dsn_def Let_def is_socket_def split: if_splits)

text \<open>
  C15: the connection string carries the parameters unchanged: read as a URL it gives back the user,
  the password and the database name whatever characters they hold, the host and port (in the
  authority, or as parameters for a socket directory) and the SSL mode, with the defaults filled in,
  and nothing else; so no parameter can alter another.
\<close>

theorem dsn_roundtrip:
  "build_dsn (Some p) = Inr s \<Longrightarrow> plain_host (Host p) \<or> is_socket p \<Longrightarrow>
   q = with_defaults p \<Longrightarrow> port = int_string (Port q) \<Longrightarrow>
     url_parse s = Some (''postgresql'', Username p, Secret p,
       (if is_socket p then [] else join_host_port (Host p) port), ''/'' @ DatabaseName p,
       map Some (if is_socket p then [(''host'', Host p), (''port'', port), (''sslmode'', SSLMode q)]
                 else [(''sslmode'', SSLMode q)])) \<and>
     (\<not> is_socket p \<longrightarrow> split_host_port (join_host_port (Host p) port) = Inr (Host p, port))"
proof -
  assume run: "build_dsn (Some p) = Inr s" and host: "plain_host (Host p) \<or> is_socket p"
    and q: "q = with_defaults p" and port: "port = int_string (Port q)"
  note b = build_dsn_Inr [OF run, folded q]
  let ?u = "dsn_url q"
  have sel: "Scheme ?u = ''postgresql''" "UserName ?u = Username p" "UserSecret ?u = Secret p"
    "UrlHost ?u = (if is_socket p then [] else join_host_port (Host p) port)"
    "UrlPath ?u = ''/'' @ DatabaseName p" "RawPath ?u = ''/'' @ escape PathSegment (DatabaseName p)"
    "RawQuery ?u = encode_values ((''sslmode'', SSLMode q) # (if is_socket p then [(''host'', Host p), (''port'', port)] else []))"
    by (simp_all add: dsn_url_def Let_def q port is_socket_def)
  have path: "c \<in> set ''?#'' \<Longrightarrow> c \<notin> set (escape PathSegment (DatabaseName p))" for c
  proof -
    have "list_all (separates PathSegment) ''?#''" by code_simp
    then show "c \<in> set ''?#'' \<Longrightarrow> c \<notin> set (escape PathSegment (DatabaseName p))"
      using escape_avoids unfolding list_all_iff by blast
  qed
  have "url_parse (url_string ?u) =
    Some (Scheme ?u, UserName ?u, UserSecret ?u, UrlHost ?u, UrlPath ?u, parse_query (RawQuery ?u))"
  proof (rule parse_url_string)
    show "plain_host (UrlHost ?u)"
      using host plain_join [of "Host p" "Port q"] b by (auto simp: sel port plain_host_def)
    show "escaped_path (UrlPath ?u) (RawPath ?u) = CHR ''/'' # escape PathSegment (DatabaseName p)"
      using path_escape by (simp add: sel)
    show "RawQuery ?u \<noteq> []"
      by (simp add: sel encode_values_def encode_pair_def)
    show "CHR ''#'' \<notin> set (RawQuery ?u)" unfolding sel by (rule query_hash)
  qed (use path in \<open>simp_all add: sel unescape_path\<close>)
  moreover have "parse_query (RawQuery ?u) =
      map Some (if is_socket p then [(''host'', Host p), (''port'', port), (''sslmode'', SSLMode q)]
                 else [(''sslmode'', SSLMode q)])"
    by (simp add: sel parse_encode_values)
  moreover have "split_host_port (join_host_port (Host p) port) = Inr (Host p, port)" if "\<not> is_socket p"
  proof (rule split_join)
    have "\<not> bad_host (Host p)" using b that by simp
    then show "CHR ''['' \<notin> set (Host p)" and "CHR '']'' \<notin> set (Host p)"
      by (auto simp: bad_host_def contains_any_iff)
    show "CHR '':'' \<notin> set port" and "CHR ''['' \<notin> set port" and "CHR '']'' \<notin> set port"
      using port_digits [of "Port q"] not_digits b by (auto simp: port)
  qed
  ultimately show ?thesis using b by (simp add: sel)
qed

definition sample_params :: params where
  "sample_params = \<lparr>Host = ''::1'', Port = 0, DatabaseName = ''db/name ?#%'', Username = ''user:@ /%'',
     Secret = ''s:@/?#%'', SSLMode = ''disable''\<rparr>"

theorem dsn_roundtrip_witness:
  "\<exists>s. build_dsn (Some sample_params) = Inr s \<and>
     url_parse s = Some (''postgresql'', ''user:@ /%'', ''s:@/?#%'', ''[::1]:5432'', ''/db/name ?#%'',
       [Some (''sslmode'', ''disable'')])"
proof -
  have "\<not> bad_host ''::1''" by code_simp
  then obtain s where s: "build_dsn (Some sample_params) = Inr s"
    by (simp add: build_dsn_def sample_params_def with_defaults_def ssl_modes_def)
  have plain: "plain_host (Host sample_params) \<or> is_socket sample_params" by code_simp
  have "map digit_char [5, 4, 3, 2] = ''5432''" by code_simp
  then have port: "int_string 5432 = ''5432''" by (simp add: int_string_def nat_string.simps)
  have q: "with_defaults sample_params = sample_params\<lparr>Port := 5432\<rparr>" and sock: "\<not> is_socket sample_params"
    by (simp_all add: sample_params_def with_defaults_def is_socket_def has_prefix_def)
  have host: "join_host_port (Host sample_params) ''5432'' = ''[::1]:5432''" by code_simp
  from conjunct1 [OF dsn_roundtrip [OF s plain refl refl]] have "url_parse s =
      Some (''postgresql'', ''user:@ /%'', ''s:@/?#%'', ''[::1]:5432'', ''/db/name ?#%'', [Some (''sslmode'', ''disable'')])"
    by (simp add: q sock port host) (simp add: sample_params_def)
  with s show ?thesis by blast
qed

end
