(* ===== verification/Spec2Isabelle.thy ===== *)
theory Spec2Isabelle
  imports Programs WebTimeout Dsn
begin

text \<open>
  A verification of pgislet, a Go library that gives each user of an application an \<^emph>\<open>islet\<close>: a
  schema of one PostgreSQL database, with a role of its own, in which SQL text of the user may run.
  The theories model the library (\<open>internal/engine\<close>, \<open>internal/policy\<close>, \<open>internal/connection\<close>) and its
  two example programs (\<open>examples/web\<close>, \<open>examples/playground\<close>), and prove what makes them correct.

  \<^bold>\<open>The program.\<close> A manager (\<open>New\<close>) prepares the database (\<open>bootstrap\<close>) and then creates, resets,
  recovers, initializes and deletes islets (\<open>lifecycle.go\<close>). The registry, a table of the database,
  holds for each islet its names, its password, its state and its generation; a handle of an islet
  is good for one generation. \<open>Execute\<close> and \<open>Batch\<close> (\<open>execute.go\<close>) connect as the role of the islet, are let
  in by a SQL function (the gateway, \<open>bootstrap.go\<close>), ask the policy (\<open>policy.go\<close>) about each statement
  and read the answers within budgets (\<open>result.go\<close>). The web example keeps a table of visitors'
  sessions, one islet each, behind a guard against requests from elsewhere; the playground runs two
  managers against each other.

  \<^bold>\<open>Which theory models what.\<close>
  \<^item> \<open>Prelude\<close>: Go's 64-bit integers, strings and their functions; the collection \<open>txn_rules\<close>.
  \<^item> \<open>Errors\<close> (\<open>errors.go\<close>): error values, \<open>errors.Is\<close>, \<open>wrap\<close>, \<open>classify\<close>.
  \<^item> \<open>Config\<close> (\<open>config.go\<close>, \<open>checkSize\<close>), \<open>Identifiers\<close> (\<open>identifiers.go\<close>), \<open>Result\<close> (\<open>result.go\<close>,
    \<open>types.go\<close>), \<open>Dependencies\<close> (\<open>dependencies.go\<close>, the recursive query as a reachability problem).
  \<^item> \<open>Policy\<close> (\<open>policy.go\<close>) and \<open>PolicySafety\<close>: the walk over the parse tree, and what it lets through.
  \<^item> \<open>Database\<close>, \<open>Session\<close>: the part of PostgreSQL that the module's SQL talks about, with one
    constructor for each form of statement, and the calls of \<open>pgx\<close> (\<open>connection.go\<close>): transactions,
    savepoints, commits whose answer is lost. A \<open>world\<close> is the committed database, the number of server
    calls so far, and the log \<open>advanced\<close> of the sequences that statements have moved, which no rollback
    undoes; a transaction is a value with its view of the database.
  \<^item> \<open>Gateway\<close> (the SQL functions of \<open>bootstrap.go\<close>), \<open>Registry\<close> (\<open>registry.go\<close>, \<open>manager.go\<close>, \<open>types.go\<close>)
    and \<open>Protocol\<close>: the invariant \<open>registry_ok\<close> of the database (every islet with its schema, role and
    privileges, and \<open>PUBLIC\<close> with no way into a schema that is not the server's) and the relation
    \<open>change\<close>, the atomic changes that an islet can go through: a specification, which the operations are
    shown to refine. \<open>Protocol\<close> holds the locale \<open>protocol\<close>.
  \<^item> \<open>Lifecycle\<close> (\<open>lifecycle.go\<close> but initialization), \<open>LifecycleSafety\<close>, \<open>Outcomes\<close>: the operations, one
    function for each, then what each can do to the database with each kind of error.
  \<^item> \<open>Execute\<close> (\<open>execute.go\<close>, the runtime connections of \<open>connection.go\<close>), \<open>ExecuteSafety\<close>,
    \<open>BatchSafety\<close>: a batch as one transaction, which refines the relation \<open>batch_run\<close>, and how the
    operations let an islet age.
  \<^item> \<open>Initialize\<close> (the rest of \<open>lifecycle.go\<close>), \<open>InitializeSafety\<close>.
  \<^item> \<open>Bootstrap\<close> (\<open>New\<close> in \<open>manager.go\<close>, \<open>bootstrap.go\<close>), \<open>BootstrapSafety\<close>: the transaction that prepares
    the database, refined by the function \<open>install\<close> on the databases that are \<open>supported\<close>.
  \<^item> \<open>Net\<close>, \<open>Url\<close> (what the sources use of Go's packages \<open>net\<close> and \<open>net/url\<close>), \<open>Dsn\<close> (\<open>dsn.go\<close>).
  \<^item> \<open>Guard\<close> (\<open>ServeHTTP\<close> and the routes in \<open>examples/web/server.go\<close>, the listen address in \<open>main.go\<close>),
    \<open>Web\<close> (\<open>sessions.go\<close>, \<open>handlers.go\<close>, \<open>errors.go\<close>, \<open>seed.go\<close>): a handler is a sequence of critical
    sections on the table of sessions and of calls of the manager; between two sections other
    handlers run.
  \<^item> \<open>Sessions\<close>, \<open>WebSafety\<close>: the capacity of the table under every interleaving of the critical
    sections, as long as no removal of an expired workspace fails, and a run in which one fails and the
    capacity is exceeded; the locales \<open>shared\<close> and \<open>shared_restore\<close> are the contract between the table
    and the handlers.
  \<^item> \<open>Clients\<close>: the locale \<open>manager_client\<close>, what an operation of the manager keeps, every client of
    them keeps; \<open>WebOutcomes\<close> and \<open>WebTimeout\<close>: what the handlers do for their visitor.
  \<^item> \<open>Playground\<close> (\<open>examples/playground/playground.go\<close>), \<open>PlaygroundSafety\<close>: the demonstration program as
    a client of two managers (the locale \<open>two_nodes\<close>), and what its lines say (\<open>justified\<close>).
  \<^item> \<open>Programs\<close> (\<open>run\<close> in the two \<open>main.go\<close>): from the flags to the end of the program.

  \<^bold>\<open>What is shown.\<close> Isolation: an islet's statements change only its own schema and move only its own
  sequences, a visitor's query only the islet of the visitor's session. Atomicity: a batch, a lifecycle
  operation and \<open>New\<close> have the whole effect of their specification, a named intermediate one (the islet
  marked failed), or none, and the error tells which, up to commits with an unknown outcome. What
  PostgreSQL does not roll back is outside of it, as the README says: a batch that fails may leave
  sequences moved, those of the statements it ran and no others. Order: every operation, every
  request of the web example and both example programs take the database through changes of the
  protocol only, so that roles stay unprivileged, privileges exact, and handles of old generations
  dead; \<open>New\<close> brings a fresh database into that order, and a web program that ends without an error
  has removed the workspaces of its table, and a run of the playground its two islets. Policy: what an accepted statement can contain, call
  and define. Budgets: answers and batches stay within their limits, and so does the table of sessions while
  removals succeed. Errors: which statement of a batch an error belongs to. Success:
  without faults the operations do succeed. Round trips: the connection string, quoted literals and
  identifiers. The findings are theorems too: the policy's decision that depends on map order, the
  table of sessions that outgrows its limit when a workspace cannot be removed, a loopback host that is
  refused, an answer after a timeout that is not true.

  \<^bold>\<open>The environment.\<close> Everything the sources cannot decide is a field of the record \<open>env\<close>: which
  server call fails and how, whether a failed commit took effect, what other sessions do when a
  transaction begins, locks, clocks, random bytes, the catalogs, what a user's statement answers
  and does, and which sequences it moves. Deadlines are faults. The hypotheses on it are documented behaviour of the other parties:
  \<open>env_ok\<close> (errors of the driver, random bytes, other managers keep to the protocol), \<open>confined\<close> (SQL
  that the policy accepts, run under the unprivileged role of an islet, changes rows, objects, owners
  and sequences only in schemas of users that the role or \<open>PUBLIC\<close> has privileges on, and no role, no
  privilege and no schema as such; nothing is said of other SQL and other roles, and that the role's own
  schema is the only one it reaches is proved), \<open>same_server\<close> and \<open>cooperative\<close> (a connection stays on
  its server; others leave a database without islets or in order), \<open>calm\<close> (no faults and nobody else,
  for the theorems about success). The parser of PostgreSQL and \<open>encoding/json\<close> are the parameter
  \<open>frontend\<close>, \<open>pgxpool\<close> and the parsing of the configuration the parameter \<open>driver\<close>.

  \<^bold>\<open>Bounds and termination.\<close> The walk of the policy recurses into function bodies at most 16 deep, as the
  code does, and terminates by a lexicographic measure; every other function is structurally
  recursive or not recursive. Integers of the budgets and of the size check are Go's 64-bit ones with
  their wrap-around; generations are \<open>bigint\<close> with its overflow error. The 48-digit identifiers come
  of 24 random bytes, the length of the buffer that the code has filled: the bytes are a field of \<open>env\<close>,
  their number a part of \<open>env_ok\<close>. The wait for the advisory lock and calls of the server return, with an
  error when their deadline ends.

  \<^bold>\<open>Not modelled.\<close> The text of JSON bodies, static files, and how flags are parsed, containers started
  and signals delivered: I/O and third-party code, whose results are the record \<open>launch\<close> and the list
  of \<open>signal\<close>s of \<open>Programs\<close>. The routes are those of \<open>http.ServeMux\<close> for clean paths: it redirects the
  others, to no handler that changes anything.
  \<open>pgislet.go\<close>: aliases and two forwarding functions. The contents of user schemas beyond the sequence
  of statements run in them, privileges on tables, and the grantor of a privilege: PostgreSQL's own
  business, stated as \<open>confined\<close> where a theorem needs it. \<open>Manager.Close\<close> closes the pool and nothing
  else.
\<close>

end
